(* ===== verification/Prelude.thy ===== *)
theory Prelude
  imports Main "HOL-Library.Word" "HOL-Library.Multiset" "HOL-Library.Sublist"
    "HOL-Library.Char_ord" "HOL-Library.List_Lexorder"
begin

text \<open>
  Shared vocabulary of the development: the machine types of the code, byte strings and the
  parts of Rust's \<open>str\<close> API that the crates use, fixed-width decimal and hexadecimal
  rendering, stable descending sorting, and the lemmas about them that several components
  need.

  A Rust \<open>&str\<close> or byte slice is a \<^typ>\<open>string\<close>: an Isabelle \<^typ>\<open>char\<close> is an
  8-bit value, so a \<^typ>\<open>string\<close> is the UTF-8 byte sequence and \<^const>\<open>length\<close> is Rust's
  \<open>len()\<close>.  The character classes (white space, alphanumeric, lower case) are those of
  ASCII; every byte of a non-ASCII character is outside of all of them.
\<close>

named_theorems codec \<open>round trips and injectivity of the renderings\<close>

type_synonym u8 = "8 word"
type_synonym u32 = "32 word"
type_synonym u64 = "64 word"
type_synonym i64 = "64 word"
type_synonym usize = "64 word"
type_synonym bytes = string

section \<open>ASCII classes and the string API\<close>

definition is_ws :: "char \<Rightarrow> bool" where
  "is_ws c \<longleftrightarrow> (let n = of_char c :: nat in n = 32 \<or> (9 \<le> n \<and> n \<le> 13))"

definition is_digit :: "char \<Rightarrow> bool" where
  "is_digit c \<longleftrightarrow> (let n = of_char c :: nat in 48 \<le> n \<and> n \<le> 57)"

definition is_upper :: "char \<Rightarrow> bool" where
  "is_upper c \<longleftrightarrow> (let n = of_char c :: nat in 65 \<le> n \<and> n \<le> 90)"

definition is_lower :: "char \<Rightarrow> bool" where
  "is_lower c \<longleftrightarrow> (let n = of_char c :: nat in 97 \<le> n \<and> n \<le> 122)"

definition is_alpha :: "char \<Rightarrow> bool" where
  "is_alpha c \<longleftrightarrow> is_upper c \<or> is_lower c"

definition is_alnum :: "char \<Rightarrow> bool" where
  "is_alnum c \<longleftrightarrow> is_alpha c \<or> is_digit c"

definition lower_char :: "char \<Rightarrow> char" where
  "lower_char c = (if is_upper c then char_of (of_char c + 32 :: nat) else c)"

definition to_lowercase :: "string \<Rightarrow> string" where
  "to_lowercase s = map lower_char s"

definition trim_start :: "string \<Rightarrow> string" where
  "trim_start s = dropWhile is_ws s"

definition trim_end :: "string \<Rightarrow> string" where
  "trim_end s = rev (dropWhile is_ws (rev s))"

definition trim :: "string \<Rightarrow> string" where
  "trim s = trim_end (trim_start s)"

definition starts_with :: "string \<Rightarrow> string \<Rightarrow> bool" where
  "starts_with s p \<longleftrightarrow> take (length p) s = p"

definition ends_with :: "string \<Rightarrow> string \<Rightarrow> bool" where
  "ends_with s p \<longleftrightarrow> length p \<le> length s \<and> drop (length s - length p) s = p"

definition strip_prefix :: "string \<Rightarrow> string \<Rightarrow> string option" where
  "strip_prefix p s = (if starts_with s p then Some (drop (length p) s) else None)"

fun contains_str :: "string \<Rightarrow> string \<Rightarrow> bool" where
  "contains_str [] p = (p = [])"
| "contains_str (c # s) p = (starts_with (c # s) p \<or> contains_str s p)"

text \<open>\<open>str::split(pred)\<close>: a separator yields an (often empty) piece on each side.\<close>

fun split_on :: "(char \<Rightarrow> bool) \<Rightarrow> string \<Rightarrow> string list" where
  "split_on p [] = [[]]"
| "split_on p (c # s) =
     (if p c then [] # split_on p s
      else (case split_on p s of [] \<Rightarrow> [[c]] | w # ws \<Rightarrow> (c # w) # ws))"

definition split_whitespace :: "string \<Rightarrow> string list" where
  "split_whitespace s = filter (\<lambda>w. w \<noteq> []) (split_on is_ws s)"

text \<open>\<open>str::lines\<close>: pieces between newlines, one trailing carriage return dropped from each
  terminated piece, no empty last piece.\<close>

definition strip_cr :: "string \<Rightarrow> string" where
  "strip_cr l = (if l \<noteq> [] \<and> last l = CHR 0x0D then butlast l else l)"

definition lines :: "string \<Rightarrow> string list" where
  "lines s = (let ps = split_on (\<lambda>c. c = CHR 0x0A) s in
     map strip_cr (butlast ps) @ (if last ps = [] then [] else [last ps]))"

fun join_with :: "string \<Rightarrow> string list \<Rightarrow> string" where
  "join_with sep [] = []"
| "join_with sep [x] = x"
| "join_with sep (x # y # ys) = x @ sep @ join_with sep (y # ys)"

lemma split_on_nonempty [simp]: "split_on p s \<noteq> []"
  by (induction s) (auto split: list.splits)

lemma split_on_chars: "w \<in> set (split_on p s) \<Longrightarrow> c \<in> set w \<Longrightarrow> \<not> p c \<and> c \<in> set s"
proof (induction s arbitrary: w)
  case (Cons a s)
  obtain x xs where "split_on p s = x # xs"
    by (cases "split_on p s") auto
  with Cons show ?case
    by (cases "p a") fastforce+
qed simp

lemma split_on_none: "(\<forall>c \<in> set s. \<not> p c) \<Longrightarrow> split_on p s = [s]"
  by (induction s) auto

lemma split_on_append:
  "p c \<Longrightarrow> split_on p (a @ c # b) = split_on p a @ split_on p b"
  by (induction a) (auto split: list.split)

lemma starts_with_iff_prefix: "starts_with s p \<longleftrightarrow> prefix p s"
  by (metis append_take_drop_id prefix_def starts_with_def append_eq_conv_conj)

lemma starts_with_append [simp]: "starts_with (p @ s) p"
  by (simp add: starts_with_def)

lemma strip_prefix_append [simp]: "strip_prefix p (p @ s) = Some s"
  by (simp add: strip_prefix_def)

lemma strip_prefix_Some: "strip_prefix p s = Some r \<longleftrightarrow> s = p @ r"
  by (auto simp: strip_prefix_def starts_with_iff_prefix prefix_def)

lemma ends_with_iff_suffix: "ends_with s p \<longleftrightarrow> suffix p s"
  by (metis (no_types, lifting) append_take_drop_id ends_with_def suffix_def suffix_length_le
      append_eq_conv_conj diff_le_self length_drop diff_diff_cancel suffix_drop
      same_append_eq suffix_take)

lemma contains_str_iff_sublist: "contains_str s p \<longleftrightarrow> sublist p s"
  by (induction s) (auto simp: starts_with_iff_prefix sublist_Cons_right)

lemma length_to_lowercase [simp]: "length (to_lowercase s) = length s"
  by (simp add: to_lowercase_def)

lemma lower_char_not_upper [simp]: "\<not> is_upper (lower_char c)"
  by (auto simp: lower_char_def is_upper_def Let_def)

lemma lower_char_idem [simp]: "lower_char (lower_char c) = lower_char c"
  by (subst (1) lower_char_def) simp

lemma to_lowercase_idem [simp]: "to_lowercase (to_lowercase s) = to_lowercase s"
  by (simp add: to_lowercase_def)

section \<open>Decimal and hexadecimal rendering\<close>

definition digit_char :: "nat \<Rightarrow> char" where
  "digit_char d = char_of (48 + d)"

text \<open>\<open>dec_pad k n\<close> is \<open>format!("{n:0k}")\<close> for \<open>n < 10^k\<close>: exactly \<open>k\<close> digits.\<close>

fun dec_pad :: "nat \<Rightarrow> nat \<Rightarrow> string" where
  "dec_pad 0 n = []"
| "dec_pad (Suc k) n = digit_char ((n div 10 ^ k) mod 10) # dec_pad k n"

text \<open>\<open>str::parse::<u64>\<close>: an optional plus sign, at least one digit, only digits, no
  overflow.\<close>

definition digits_val :: "string \<Rightarrow> nat" where
  "digits_val ds = foldl (\<lambda>acc c. 10 * acc + (of_char c - 48)) 0 ds"

definition parse_uint :: "nat \<Rightarrow> string \<Rightarrow> nat option" where
  "parse_uint w s =
     (let ds = (case s of [] \<Rightarrow> [] | c # r \<Rightarrow> if c = CHR ''+'' then r else s) in
      if ds = [] \<or> \<not> list_all is_digit ds then None
      else if digits_val ds < 2 ^ w then Some (digits_val ds) else None)"

definition parse_u64 :: "string \<Rightarrow> u64 option" where
  "parse_u64 s = map_option of_nat (parse_uint 64 s)"

definition hex_digit :: "nat \<Rightarrow> char" where
  "hex_digit d = (if d < 10 then char_of (48 + d) else char_of (87 + d))"

definition hex_byte :: "char \<Rightarrow> string" where
  "hex_byte c = (let n = of_char c :: nat in [hex_digit (n div 16), hex_digit (n mod 16)])"

text \<open>\<open>hex::encode\<close>: two lower-case digits for each byte.\<close>

definition hex_encode :: "bytes \<Rightarrow> string" where
  "hex_encode bs = concat (map hex_byte bs)"

text \<open>\<open>hex::decode\<close>: both letter cases accepted, odd length and other characters refused.\<close>

definition hex_val :: "char \<Rightarrow> nat option" where
  "hex_val c = (let n = of_char c :: nat in
     if 48 \<le> n \<and> n \<le> 57 then Some (n - 48)
     else if 97 \<le> n \<and> n \<le> 102 then Some (n - 87)
     else if 65 \<le> n \<and> n \<le> 70 then Some (n - 55)
     else None)"

fun hex_decode :: "string \<Rightarrow> bytes option" where
  "hex_decode [] = Some []"
| "hex_decode [c] = None"
| "hex_decode (c # d # s) =
     (case (hex_val c, hex_val d, hex_decode s) of
        (Some a, Some b, Some r) \<Rightarrow> Some (char_of (16 * a + b) # r)
      | _ \<Rightarrow> None)"

text \<open>\<open>u64::to_le_bytes\<close> and \<open>u64::to_be_bytes\<close>.\<close>

definition le_bytes :: "u64 \<Rightarrow> bytes" where
  "le_bytes w = map (\<lambda>i. char_of (unat w div 256 ^ i mod 256)) [0..<8]"

definition be_bytes :: "u64 \<Rightarrow> bytes" where
  "be_bytes w = rev (le_bytes w)"

lemma is_digit_digit_char: "d < 10 \<Longrightarrow> is_digit (digit_char d)"
  by (simp add: is_digit_def digit_char_def Let_def)

lemma of_char_digit_char [simp]: "d < 10 \<Longrightarrow> (of_char (digit_char d) :: nat) = 48 + d"
  by (simp add: digit_char_def)

lemma digit_char_less: "a < 10 \<Longrightarrow> b < 10 \<Longrightarrow> digit_char a < digit_char b \<longleftrightarrow> a < b"
  by (simp add: less_char_def digit_char_def)

lemma digit_char_inject: "a < 10 \<Longrightarrow> b < 10 \<Longrightarrow> digit_char a = digit_char b \<longleftrightarrow> a = b"
  by (metis digit_char_less linorder_neqE_nat less_irrefl)

lemma length_dec_pad [simp]: "length (dec_pad k n) = k"
  by (induction k) auto

lemma dec_pad_digits: "list_all is_digit (dec_pad k n)"
  by (induction k) (auto simp: is_digit_digit_char)

lemma dec_pad_mod: "k \<le> m \<Longrightarrow> dec_pad k (n mod 10 ^ m) = dec_pad k n"
proof (induction k)
  case (Suc k)
  then have m: "10 ^ m = 10 ^ k * (10 ^ (m - k) :: nat)" and d: "(10 :: nat) dvd 10 ^ (m - k)"
    by (simp_all flip: power_add)
  have "n mod 10 ^ m div 10 ^ k = n div 10 ^ k mod 10 ^ (m - k)"
    by (simp add: m mod_mult2_eq)
  then have "n mod 10 ^ m div 10 ^ k mod 10 = n div 10 ^ k mod 10"
    by (simp add: mod_mod_cancel [OF d])
  with Suc show ?case by simp
qed simp

lemma less_div_mod:
  fixes a b p :: nat
  assumes "0 < p"
  shows "a < b \<longleftrightarrow> a div p < b div p \<or> (a div p = b div p \<and> a mod p < b mod p)"
proof -
  have a: "a = a div p * p + a mod p" and b: "b = b div p * p + b mod p" by simp_all
  have lt: "a mod p < p" "b mod p < p" using assms by simp_all
  consider "a div p < b div p" | "a div p = b div p" | "b div p < a div p" by linarith
  then show ?thesis
  proof cases
    case 1
    then have "Suc (a div p) * p \<le> b div p * p" by (intro mult_le_mono1) simp
    then have "a div p * p + p \<le> b div p * p" by simp
    with a b lt have "a < b" by linarith
    with 1 show ?thesis by simp
  next
    case 2
    with a b show ?thesis by (metis nat_add_left_cancel_less less_irrefl)
  next
    case 3
    then have "Suc (b div p) * p \<le> a div p * p" by (intro mult_le_mono1) simp
    then have "b div p * p + p \<le> a div p * p" by simp
    with a b lt have "b < a" by linarith
    with 3 show ?thesis by simp
  qed
qed

lemma dec_pad_less:
  "a < 10 ^ k \<Longrightarrow> b < 10 ^ k \<Longrightarrow> dec_pad k a < dec_pad k b \<longleftrightarrow> a < b"
proof (induction k arbitrary: a b)
  case (Suc k)
  let ?p = "10 ^ k :: nat"
  have da: "a div ?p < 10" and db: "b div ?p < 10"
    using Suc.prems by (simp_all add: less_mult_imp_div_less mult.commute)
  have ra: "dec_pad k (a mod ?p) = dec_pad k a" and rb: "dec_pad k (b mod ?p) = dec_pad k b"
    by (simp_all add: dec_pad_mod)
  have "dec_pad k a < dec_pad k b \<longleftrightarrow> a mod ?p < b mod ?p"
    using Suc.IH [of "a mod ?p" "b mod ?p"] by (simp add: ra rb)
  with da db show ?case
    by (simp add: digit_char_less digit_char_inject less_div_mod [of ?p a b])
qed simp

lemma dec_pad_inject [codec]:
  "a < 10 ^ k \<Longrightarrow> b < 10 ^ k \<Longrightarrow> dec_pad k a = dec_pad k b \<longleftrightarrow> a = b"
  by (metis dec_pad_less linorder_neqE_nat less_irrefl)

lemma digits_val_snoc: "digits_val (ds @ [c]) = 10 * digits_val ds + (of_char c - 48)"
  by (simp add: digits_val_def)

lemma foldl_digits: "foldl (\<lambda>acc c. 10 * acc + (of_char c - 48)) (a :: nat) (dec_pad k n)
    = a * 10 ^ k + n mod 10 ^ k"
proof (induction k arbitrary: a)
  case (Suc k)
  have "n mod 10 ^ Suc k = n div 10 ^ k mod 10 * 10 ^ k + n mod 10 ^ k"
    by (metis add.commute mod_mult2_eq mult.commute power_Suc2)
  then show ?case
    by (simp only: dec_pad.simps foldl.simps Suc.IH) (simp add: algebra_simps)
qed simp

lemma digits_val_dec_pad [codec]: "n < 10 ^ k \<Longrightarrow> digits_val (dec_pad k n) = n"
  by (simp add: digits_val_def foldl_digits)

lemma parse_uint_dec_pad [codec]:
  assumes "n < 10 ^ Suc k" and "n < 2 ^ w"
  shows "parse_uint w (dec_pad (Suc k) n) = Some n"
proof -
  have "digit_char (n div 10 ^ k mod 10) \<noteq> CHR ''+''"
  proof
    assume "digit_char (n div 10 ^ k mod 10) = CHR ''+''"
    then have "(of_char (digit_char (n div 10 ^ k mod 10)) :: nat) = of_char CHR ''+''" by simp
    then show False by simp
  qed
  then show ?thesis
    using assms dec_pad_digits [of "Suc k" n] digits_val_dec_pad [of n "Suc k"]
    by (simp add: parse_uint_def)
qed

lemma char_of_mod_inject: "a < 256 \<Longrightarrow> b < 256 \<Longrightarrow> (char_of a :: char) = char_of b \<longleftrightarrow> a = (b :: nat)"
  by (simp add: char_of_eq_iff take_bit_eq_mod)

lemma of_char_lt [simp]: "(of_char c :: nat) < 256"
  by (metis of_char_mod_256 mod_less_divisor zero_less_numeral)

lemma hex_digit_inject: "a < 16 \<Longrightarrow> b < 16 \<Longrightarrow> hex_digit a = hex_digit b \<longleftrightarrow> a = b"
  by (auto simp: hex_digit_def char_of_mod_inject)

lemma length_hex_byte [simp]: "length (hex_byte c) = 2"
  by (simp add: hex_byte_def Let_def)

lemma hex_byte_inject: "hex_byte a = hex_byte b \<longleftrightarrow> a = b"
proof
  assume "hex_byte a = hex_byte b"
  moreover have "(of_char a :: nat) div 16 < 16" "(of_char b :: nat) div 16 < 16"
    using of_char_lt [of a] of_char_lt [of b] by linarith+
  ultimately have "(of_char a :: nat) div 16 = of_char b div 16" "(of_char a :: nat) mod 16 = of_char b mod 16"
    by (auto simp: hex_byte_def Let_def hex_digit_inject)
  then have "(of_char a :: nat) = of_char b"
    by (metis div_mult_mod_eq)
  then show "a = b" by simp
qed simp

lemma length_hex_encode [simp]: "length (hex_encode bs) = 2 * length bs"
  by (induction bs) (auto simp: hex_encode_def)

lemma hex_encode_inject [codec]: "hex_encode a = hex_encode b \<longleftrightarrow> a = b"
proof
  show "hex_encode a = hex_encode b \<Longrightarrow> a = b"
  proof (induction a arbitrary: b)
    case Nil
    then have "length (hex_encode b) = 0" by (simp add: hex_encode_def)
    then show ?case by simp
  next
    case (Cons x xs)
    then have "length (hex_encode (x # xs)) = length (hex_encode b)" by simp
    then obtain y ys where b: "b = y # ys" by (cases b) auto
    with Cons.prems have "hex_byte x @ hex_encode xs = hex_byte y @ hex_encode ys"
      by (simp add: hex_encode_def)
    then have "hex_byte x = hex_byte y" and "hex_encode xs = hex_encode ys"
      by (simp_all add: append_eq_append_conv)
    with Cons.IH b show ?case by (simp add: hex_byte_inject)
  qed
qed simp

lemma hex_val_hex_digit: "d < 16 \<Longrightarrow> hex_val (hex_digit d) = Some d"
  by (auto simp: hex_val_def hex_digit_def Let_def)

lemma hex_decode_encode [codec]: "hex_decode (hex_encode bs) = Some bs"
proof (induction bs)
  case (Cons c bs)
  have "(of_char c :: nat) div 16 < 16" using of_char_lt [of c] by linarith
  then have "hex_decode (hex_byte c @ hex_encode bs) = Some (c # bs)"
    by (simp add: hex_byte_def Let_def hex_val_hex_digit Cons.IH)
  then show ?case by (simp add: hex_encode_def)
qed (simp add: hex_encode_def)

lemma hex_digit_not_ws: "d < 16 \<Longrightarrow> \<not> is_ws (hex_digit d)"
  by (auto simp: is_ws_def hex_digit_def Let_def)

lemma hex_encode_no_ws: "c \<in> set (hex_encode bs) \<Longrightarrow> \<not> is_ws c"
proof (induction bs)
  case (Cons b bs)
  have "(of_char b :: nat) div 16 < 16" using of_char_lt [of b] by linarith
  with Cons show ?case
    by (auto simp: hex_encode_def hex_byte_def Let_def hex_digit_not_ws)
qed (simp add: hex_encode_def)

lemma dropWhile_none: "(\<And>c. c \<in> set s \<Longrightarrow> \<not> P c) \<Longrightarrow> dropWhile P s = s"
  by (cases s) auto

lemma trim_no_ws: "(\<And>c. c \<in> set s \<Longrightarrow> \<not> is_ws c) \<Longrightarrow> trim s = s"
  using dropWhile_none [of s is_ws] dropWhile_none [of "rev s" is_ws]
  by (simp add: trim_def trim_start_def trim_end_def)

lemma trim_hex_encode [simp]: "trim (hex_encode bs) = hex_encode bs"
  by (rule trim_no_ws) (rule hex_encode_no_ws)

lemma length_le_bytes [simp]: "length (le_bytes w) = 8"
  by (simp add: le_bytes_def)

lemma length_be_bytes [simp]: "length (be_bytes w) = 8"
  by (simp add: be_bytes_def)

lemma base256_digits: "(\<Sum>i<k. n div 256 ^ i mod 256 * 256 ^ i) = n mod 256 ^ k" for n :: nat
proof (induction k)
  case (Suc k)
  have "n mod 256 ^ Suc k = n div 256 ^ k mod 256 * 256 ^ k + n mod 256 ^ k"
    by (metis add.commute mod_mult2_eq mult.commute power_Suc2)
  with Suc show ?case by simp
qed simp

lemma le_bytes_inject [codec]: "le_bytes a = le_bytes b \<longleftrightarrow> a = b"
proof
  assume eq: "le_bytes a = le_bytes b"
  have "unat a div 256 ^ i mod 256 = unat b div 256 ^ i mod 256" if "i < 8" for i
  proof -
    have "le_bytes a ! i = le_bytes b ! i" using eq by simp
    with that show ?thesis by (simp add: le_bytes_def char_of_mod_inject)
  qed
  then have "(\<Sum>i<8. unat a div 256 ^ i mod 256 * 256 ^ i) = (\<Sum>i<8. unat b div 256 ^ i mod 256 * 256 ^ i)"
    by (intro sum.cong) auto
  then have "unat a mod 256 ^ 8 = unat b mod 256 ^ 8"
    by (simp only: base256_digits)
  moreover have "unat a < 256 ^ 8" "unat b < 256 ^ 8"
    using unsigned_less [of a] unsigned_less [of b] by simp_all
  ultimately show "a = b" by (simp add: word_unat_eq_iff)
qed simp

lemma be_bytes_inject [codec]: "be_bytes a = be_bytes b \<longleftrightarrow> a = b"
  by (simp add: be_bytes_def le_bytes_inject)

text \<open>\<open>format!("{n}")\<close> and \<open>format!("{n:x}")\<close>: no leading zeros.\<close>

fun dec_nat :: "nat \<Rightarrow> string" where
  "dec_nat n = (if n < 10 then [digit_char n] else dec_nat (n div 10) @ [digit_char (n mod 10)])"

fun hex_nat :: "nat \<Rightarrow> string" where
  "hex_nat n = (if n < 16 then [hex_digit n] else hex_nat (n div 16) @ [hex_digit (n mod 16)])"

declare dec_nat.simps [simp del] hex_nat.simps [simp del]

lemma dec_nat_digits: "list_all is_digit (dec_nat n)"
proof (induction n rule: dec_nat.induct)
  case (1 n)
  then show ?case
    by (cases "n < 10") (simp_all add: dec_nat.simps [of n] is_digit_digit_char)
qed

lemma dec_nat_nonempty [simp]: "dec_nat n \<noteq> []"
  by (subst dec_nat.simps) simp

lemma digits_val_dec_nat [codec]: "digits_val (dec_nat n) = n"
proof (induction n rule: dec_nat.induct)
  case (1 n)
  show ?case
  proof (cases "n < 10")
    case True
    then show ?thesis by (simp add: dec_nat.simps [of n] digits_val_def)
  next
    case False
    then have "digits_val (dec_nat (n div 10) @ [digit_char (n mod 10)]) = 10 * (n div 10) + n mod 10"
      using "1.IH" by (simp add: digits_val_snoc)
    with False show ?thesis by (simp add: dec_nat.simps [of n])
  qed
qed

lemma dec_nat_inject [codec]: "dec_nat a = dec_nat b \<longleftrightarrow> a = b"
  by (metis digits_val_dec_nat)

lemma hex_digit_less: "a < 16 \<Longrightarrow> b < 16 \<Longrightarrow> hex_digit a < hex_digit b \<longleftrightarrow> a < b"
  by (auto simp: hex_digit_def less_char_def)

lemma hex_nat_length: "16 ^ k \<le> n \<Longrightarrow> n < 16 ^ Suc k \<Longrightarrow> length (hex_nat n) = Suc k"
proof (induction k arbitrary: n)
  case 0
  then show ?case by (simp add: hex_nat.simps [of n])
next
  case (Suc k)
  have ge: "16 ^ Suc k \<le> n" and lt: "n < 16 ^ Suc (Suc k)" using Suc.prems by auto
  have "16 ^ k \<le> n div 16"
    using ge by (simp add: less_eq_div_iff_mult_less_eq mult.commute)
  moreover have "n div 16 < 16 ^ Suc k"
    using lt by (simp add: less_mult_imp_div_less mult.commute)
  moreover have "\<not> n < 16"
    using ge by (metis not_less le_trans one_le_numeral power_increasing power_one_right le_add1 plus_1_eq_Suc)
  ultimately show ?case
    using Suc.IH [of "n div 16"] by (simp add: hex_nat.simps [of n])
qed

definition hex_value :: "string \<Rightarrow> nat" where
  "hex_value s = foldl (\<lambda>acc c. 16 * acc + the (hex_val c)) 0 s"

lemma hex_nat_val [codec]: "hex_value (hex_nat n) = n"
proof (induction n rule: hex_nat.induct)
  case (1 n)
  show ?case
  proof (cases "n < 16")
    case True
    then show ?thesis by (simp add: hex_nat.simps [of n] hex_value_def hex_val_hex_digit)
  next
    case False
    with "1.IH" show ?thesis
      by (simp add: hex_nat.simps [of n] hex_value_def hex_val_hex_digit)
  qed
qed

text \<open>Hexadecimal renderings of the same length compare as the numbers do.\<close>

lemma append_less_same_length:
  "length a = length b \<Longrightarrow> (a @ [x]) < (b @ [y]) \<longleftrightarrow> a < b \<or> (a = b \<and> x < (y :: char))"
  by (induction a b rule: list_induct2) auto

lemma hex_nat_less:
  "length (hex_nat a) = length (hex_nat b) \<Longrightarrow> hex_nat a < hex_nat b \<longleftrightarrow> a < b"
proof (induction a arbitrary: b rule: hex_nat.induct)
  case (1 a)
  consider "a < 16" "b < 16" | "\<not> a < 16" "\<not> b < 16"
    | "a < 16" "\<not> b < 16" | "\<not> a < 16" "b < 16" by blast
  then show ?case
  proof cases
    case 1
    then show ?thesis by (simp add: hex_nat.simps [of a] hex_nat.simps [of b] hex_digit_less)
  next
    case 2
    have len: "length (hex_nat (a div 16)) = length (hex_nat (b div 16))"
      using "1.prems" 2 by (simp add: hex_nat.simps [of a] hex_nat.simps [of b])
    have lt: "hex_nat (a div 16) < hex_nat (b div 16) \<longleftrightarrow> a div 16 < b div 16"
      using "1.IH" [OF 2(1) len] .
    have gt: "hex_nat (a div 16) = hex_nat (b div 16) \<longleftrightarrow> a div 16 = b div 16"
      using len lt "1.IH" [OF 2(1), of "b div 16"] hex_nat_val by metis
    show ?thesis
      using 2 len lt gt
      by (simp add: hex_nat.simps [of a] hex_nat.simps [of b] append_less_same_length hex_digit_less
          less_div_mod [of 16 a b])
  next
    case 3
    with "1.prems" have "length (hex_nat (b div 16)) = 0"
      by (simp add: hex_nat.simps [of a] hex_nat.simps [of b])
    moreover have "hex_nat (b div 16) \<noteq> []" by (subst hex_nat.simps) simp
    ultimately show ?thesis by simp
  next
    case 4
    with "1.prems" have "length (hex_nat (a div 16)) = 0"
      by (simp add: hex_nat.simps [of a] hex_nat.simps [of b])
    moreover have "hex_nat (a div 16) \<noteq> []" by (subst hex_nat.simps) simp
    ultimately show ?thesis by simp
  qed
qed

section \<open>Stable descending sort\<close>

text \<open>
  \<open>v.sort_by(|a, b| b.key.partial_cmp(&a.key).unwrap_or(Equal))\<close> on comparable keys: Rust's
  \<open>sort_by\<close> is stable, and so is \<^const>\<open>sort_key\<close>.
\<close>

definition sort_desc :: "('a \<Rightarrow> 'k :: linordered_idom) \<Rightarrow> 'a list \<Rightarrow> 'a list" where
  "sort_desc f xs = sort_key (\<lambda>x. - f x) xs"

lemma mset_sort_desc [simp]: "mset (sort_desc f xs) = mset xs"
  by (simp add: sort_desc_def)

lemma set_sort_desc [simp]: "set (sort_desc f xs) = set xs"
  by (simp add: sort_desc_def)

lemma length_sort_desc [simp]: "length (sort_desc f xs) = length xs"
  by (simp add: sort_desc_def)

lemma sort_desc_sorted: "sorted_wrt (\<lambda>x y. f x \<ge> f y) (sort_desc f xs)"
proof -
  have "sorted (map (\<lambda>x. - f x) (sort_desc f xs))"
    by (simp add: sort_desc_def)
  then show ?thesis
    by (simp add: sorted_map)
qed

lemma sort_desc_stable: "filter (\<lambda>y. f y = k) (sort_desc f xs) = filter (\<lambda>y. f y = k) xs"
  using sort_key_stable [of "\<lambda>x. - f x" "- k" xs] by (simp add: sort_desc_def)

text \<open>Truncating a descending list keeps the largest keys.\<close>

lemma sorted_wrt_take_drop:
  "sorted_wrt P xs \<Longrightarrow> x \<in> set (take n xs) \<Longrightarrow> y \<in> set (drop n xs) \<Longrightarrow> P x y"
  by (metis append_take_drop_id sorted_wrt_append)

lemma top_k_dominates:
  assumes "x \<in> set (take n (sort_desc f xs))" and "y \<in> set xs"
    and "y \<notin> set (take n (sort_desc f xs))"
  shows "f y \<le> f x"
proof -
  have "y \<in> set (drop n (sort_desc f xs))"
    using assms(2,3) by (metis append_take_drop_id set_append Un_iff set_sort_desc)
  with sort_desc_sorted [of f xs] assms(1) show ?thesis
    by (rule sorted_wrt_take_drop [where P = "\<lambda>x y. f y \<le> f x"])
qed

end
