(* ===== verification/KvStore.thy ===== *)
theory KvStore
  imports Prelude
begin

text \<open>
  The ordered key-value interface that the write-ahead log and the on-disk cache are written
  against (\<open>sled::Db\<close>: \<open>insert\<close>, \<open>get\<close>, \<open>contains_key\<close>, \<open>range\<close>, \<open>scan_prefix\<close>,
  \<open>clear\<close>).  The locale \<open>ordered_kv\<close> states what the clients rely on: the entries come in
  strictly ascending key order, and an insertion is a map update.  The concrete store of the
  model is a key-sorted association list, and interprets the locale.
\<close>

locale ordered_kv =
  fixes entries :: "'s \<Rightarrow> ('k :: linorder \<times> 'v) list"
    and put :: "'k \<Rightarrow> 'v \<Rightarrow> 's \<Rightarrow> 's"
    and ok :: "'s \<Rightarrow> bool"
  assumes entries_sorted: "ok s \<Longrightarrow> sorted_wrt (<) (map fst (entries s))"
    and put_ok: "ok s \<Longrightarrow> ok (put k v s)"
    and put_map: "ok s \<Longrightarrow> map_of (entries (put k v s)) = (map_of (entries s))(k \<mapsto> v)"
begin

lemma entries_distinct: "ok s \<Longrightarrow> distinct (map fst (entries s))"
  using entries_sorted strict_sorted_iff by blast

lemma set_entries_put:
  assumes "ok s"
  shows "set (entries (put k v s)) = {(k, v)} \<union> {p \<in> set (entries s). fst p \<noteq> k}"
proof -
  have "(a, b) \<in> set (entries (put k v s)) \<longleftrightarrow>
      (a, b) \<in> {(k, v)} \<union> {p \<in> set (entries s). fst p \<noteq> k}" for a b
  proof -
    have "(a, b) \<in> set (entries (put k v s)) \<longleftrightarrow> map_of (entries (put k v s)) a = Some b"
      by (simp add: assms put_ok entries_distinct)
    also have "\<dots> \<longleftrightarrow> (if a = k then b = v else map_of (entries s) a = Some b)"
      by (auto simp: put_map [OF assms])
    also have "\<dots> \<longleftrightarrow> (a, b) \<in> {(k, v)} \<union> {p \<in> set (entries s). fst p \<noteq> k}"
      by (auto simp: assms entries_distinct)
    finally show ?thesis .
  qed
  then show ?thesis by auto
qed

text \<open>Two ascending entry lists with the same entries are the same list.\<close>

lemma ascending_unique:
  assumes "sorted_wrt (<) (map fst xs)" and "sorted_wrt (<) (map fst ys)" and "set xs = set ys"
  shows "xs = (ys :: ('k \<times> 'v) list)"
proof (rule map_sorted_distinct_set_unique [where f = fst])
  show "inj_on fst (set xs \<union> set ys)"
    using assms by (metis Un_absorb distinct_map strict_sorted_iff)
qed (use assms in \<open>auto simp: strict_sorted_iff distinct_map\<close>)

lemma ascending_filter:
  "ok s \<Longrightarrow> sorted_wrt (<) (map fst (filter P (entries s)))"
  using entries_sorted by (metis sorted_wrt_map sorted_wrt_filter)

text \<open>Insertion under a key outside a range of interest does not change that range.\<close>

lemma put_frame:
  assumes "ok s" and "\<not> P k"
  shows "filter (\<lambda>p. P (fst p)) (entries (put k v s)) = filter (\<lambda>p. P (fst p)) (entries s)"
  by (rule ascending_unique) (use assms in \<open>auto simp: ascending_filter put_ok set_entries_put\<close>)

text \<open>Insertion under a key above all keys of a range appends to that range.\<close>

lemma put_append:
  assumes "ok s" and "P k" and above: "\<And>k' v'. (k', v') \<in> set (entries s) \<Longrightarrow> P k' \<Longrightarrow> k' < k"
  shows "filter (\<lambda>p. P (fst p)) (entries (put k v s)) =
    filter (\<lambda>p. P (fst p)) (entries s) @ [(k, v)]"
proof (rule ascending_unique)
  show "sorted_wrt (<) (map fst (filter (\<lambda>p. P (fst p)) (entries s) @ [(k, v)]))"
    using assms ascending_filter [OF assms(1), of "\<lambda>p. P (fst p)"]
    by (auto simp: sorted_wrt_append)
  show "set (filter (\<lambda>p. P (fst p)) (entries (put k v s))) =
      set (filter (\<lambda>p. P (fst p)) (entries s) @ [(k, v)])"
    using assms by (fastforce simp: set_entries_put)
qed (use assms in \<open>simp add: ascending_filter put_ok\<close>)

text \<open>The last entry of a range is its largest key.\<close>

lemma last_is_max:
  assumes "ok s" and "filter Q (entries s) \<noteq> []" and "p \<in> set (filter Q (entries s))"
  shows "fst p \<le> fst (last (filter Q (entries s)))"
proof -
  let ?xs = "filter Q (entries s)"
  have "?xs = butlast ?xs @ [last ?xs]" using assms(2) by simp
  then have "sorted_wrt (<) (map fst (butlast ?xs @ [last ?xs]))"
    using ascending_filter [OF assms(1), of Q] by simp
  moreover have "p \<in> set (butlast ?xs) \<or> p = last ?xs"
    using assms(3) \<open>?xs = _\<close> by (metis Un_iff empty_iff empty_set insert_iff list.simps(15) set_append)
  ultimately show ?thesis
    by (auto simp: sorted_wrt_append dest: less_imp_le)
qed

end

section \<open>The concrete store\<close>

type_synonym ('k, 'v) kv = "('k \<times> 'v) list"

fun kv_put :: "'k :: linorder \<Rightarrow> 'v \<Rightarrow> ('k, 'v) kv \<Rightarrow> ('k, 'v) kv" where
  "kv_put k v [] = [(k, v)]"
| "kv_put k v ((k', v') # s) =
     (if k < k' then (k, v) # (k', v') # s
      else if k = k' then (k, v) # s
      else (k', v') # kv_put k v s)"

definition kv_get :: "'k \<Rightarrow> ('k, 'v) kv \<Rightarrow> 'v option" where
  "kv_get k s = map_of s k"

definition kv_contains :: "'k \<Rightarrow> ('k, 'v) kv \<Rightarrow> bool" where
  "kv_contains k s = (map_of s k \<noteq> None)"

text \<open>\<open>db.range(k..)\<close> and \<open>db.scan_prefix(p).next_back()\<close>.\<close>

definition kv_range_from :: "'k :: linorder \<Rightarrow> ('k, 'v) kv \<Rightarrow> ('k \<times> 'v) list" where
  "kv_range_from k s = filter (\<lambda>p. k \<le> fst p) s"

definition kv_last_prefix :: "string \<Rightarrow> (string, 'v) kv \<Rightarrow> (string \<times> 'v) option" where
  "kv_last_prefix p s =
     (case filter (\<lambda>e. starts_with (fst e) p) s of [] \<Rightarrow> None | xs \<Rightarrow> Some (last xs))"

definition kv_ok :: "('k :: linorder, 'v) kv \<Rightarrow> bool" where
  "kv_ok s \<longleftrightarrow> sorted_wrt (<) (map fst s)"

lemma kv_put_keys: "set (map fst (kv_put k v s)) = insert k (set (map fst s))"
  by (induction k v s rule: kv_put.induct) auto

lemma kv_put_sorted: "kv_ok s \<Longrightarrow> kv_ok (kv_put k v s)"
proof (induction k v s rule: kv_put.induct)
  case (2 k v k' v' s)
  have keys: "fst ` set (kv_put k v s) = insert k (fst ` set s)"
    using kv_put_keys [of k v s] by simp
  from 2 show ?case
    by (cases "k < k'"; cases "k = k'") (auto simp: kv_ok_def keys dest: less_trans)
qed (simp add: kv_ok_def)

lemma kv_put_map_of: "kv_ok s \<Longrightarrow> map_of (kv_put k v s) = (map_of s)(k \<mapsto> v)"
  by (induction k v s rule: kv_put.induct) (auto simp: kv_ok_def fun_eq_iff)

interpretation kv: ordered_kv "\<lambda>s. s" kv_put kv_ok
  by unfold_locales (auto simp: kv_ok_def kv_put_map_of intro: kv_put_sorted [unfolded kv_ok_def])

lemma kv_ok_Nil [simp, intro]: "kv_ok []"
  by (simp add: kv_ok_def)

lemma kv_get_put: "kv_ok s \<Longrightarrow> kv_get k' (kv_put k v s) = (if k' = k then Some v else kv_get k' s)"
  by (simp add: kv_get_def kv_put_map_of)

lemma kv_contains_put: "kv_ok s \<Longrightarrow> kv_contains k' (kv_put k v s) \<longleftrightarrow> k' = k \<or> kv_contains k' s"
  by (simp add: kv_contains_def kv_put_map_of)

end
