(* ===== verification/Wal.thy ===== *)
theory Wal
  imports KvStore
begin

text \<open>
  The write-ahead log of \<open>crates/amore-core/src/wal.rs\<close>: the machine-key and fingerprint
  state machine run by \<open>Wal::open\<close>, the keyed log itself (\<open>append\<close>, \<open>iter_from\<close>, \<open>ack\<close>,
  \<open>unacked\<close>), and its crash-recovery contract.

  The sled database is the ordered store of \<open>KvStore\<close>.  Code that is not in the repository
  is a parameter: HMAC-SHA256 and SHA-256, the serde encoding of an envelope, the random key
  bytes; file-system, keyring and sled failures are inputs of the operations.  The sequence
  counter is a 64-bit word and wraps, as \<open>fetch_add\<close> does.
\<close>

section \<open>Records, envelopes and keys\<close>

definition MAX_WAL_PAYLOAD_BYTES :: nat where
  "MAX_WAL_PAYLOAD_BYTES = 16 * 1024"

datatype wal_error =
    PayloadTooLarge nat
  | KeyUnavailable string
  | KeyringEntryMissing
  | KeyFingerprintMismatch string string
  | WalOther string

datatype wal_kind = Upsert | Delete

record wal_record =
  kind :: wal_kind
  doc_id :: u64
  payload_json :: string
  ts_utc :: i64

record wal_envelope =
  env_record :: wal_record
  env_tag :: "string option"

definition rec_key :: "u64 \<Rightarrow> string" where
  "rec_key s = ''rec:'' @ dec_pad 20 (unat s)"

definition ack_key :: "u64 \<Rightarrow> string" where
  "ack_key s = ''ack:'' @ dec_pad 20 (unat s)"

text \<open>What the log uses of the crates \<open>hmac\<close> and \<open>serde_json\<close>; \<open>ack_mark\<close> is the stored
  byte string \<open>b"1"\<close>.\<close>

record 'v wal_codec =
  hmac :: "bytes \<Rightarrow> bytes \<Rightarrow> bytes"
  ser :: "wal_envelope \<Rightarrow> 'v option"
  deser :: "'v \<Rightarrow> wal_envelope option"
  ack_mark :: 'v

definition serde_ok :: "'v wal_codec \<Rightarrow> bool" where
  "serde_ok X \<longleftrightarrow> (\<forall>e. \<exists>v. ser X e = Some v \<and> deser X v = Some e)"

definition tag_message :: "wal_record \<Rightarrow> bytes" where
  "tag_message r = le_bytes (doc_id r) @ le_bytes (ts_utc r) @ payload_json r"

definition compute_tag :: "'v wal_codec \<Rightarrow> bytes \<Rightarrow> wal_record \<Rightarrow> bytes" where
  "compute_tag X key r = hmac X key (tag_message r)"

lemma unat_u64_lt_pow20: "unat (s :: u64) < 10 ^ 20"
  by (rule less_le_trans [OF unsigned_less]) simp

lemma unat_u64_lt_2_64: "unat (s :: u64) < 2 ^ 64"
  using unsigned_less [of s] by simp

lemma rec_key_less [codec]: "rec_key a < rec_key b \<longleftrightarrow> a < b"
  by (simp add: rec_key_def dec_pad_less [OF unat_u64_lt_pow20 unat_u64_lt_pow20] word_less_nat_alt)

lemma rec_key_inject [codec, simp]: "rec_key a = rec_key b \<longleftrightarrow> a = b"
  by (simp add: rec_key_def dec_pad_inject [OF unat_u64_lt_pow20 unat_u64_lt_pow20] word_unat_eq_iff)

lemma rec_key_le: "rec_key a \<le> rec_key b \<longleftrightarrow> a \<le> b"
  by (metis rec_key_less linorder_not_less)

lemma ack_key_inject [codec, simp]: "ack_key a = ack_key b \<longleftrightarrow> a = b"
  by (simp add: ack_key_def dec_pad_inject [OF unat_u64_lt_pow20 unat_u64_lt_pow20] word_unat_eq_iff)

lemma rec_key_prefix [simp]: "starts_with (rec_key s) ''rec:''"
  by (simp add: rec_key_def starts_with_def)

lemma ack_key_prefix [simp]: "\<not> starts_with (ack_key s) ''rec:''"
  by (simp add: ack_key_def starts_with_def)

lemma ack_neq_rec [simp]: "ack_key a \<noteq> rec_key b" "rec_key b \<noteq> ack_key a"
  by (simp_all add: ack_key_def rec_key_def)

lemma ack_less_rec [simp]: "ack_key a < rec_key b" "\<not> rec_key b < ack_key a"
  by (simp_all add: ack_key_def rec_key_def less_char_def)

lemma parse_rec_key [codec, simp]: "parse_u64 (drop 4 (rec_key s)) = Some s"
proof -
  have "parse_uint 64 (dec_pad (Suc 19) (unat s)) = Some (unat s)"
    using unat_u64_lt_pow20 [of s] unat_u64_lt_2_64 [of s] by (intro parse_uint_dec_pad) simp_all
  then show ?thesis by (simp add: rec_key_def parse_u64_def)
qed

lemma length_rec_key: "length (rec_key s) = 24"
  by (simp add: rec_key_def)

lemma tag_message_inject:
  "tag_message r = tag_message r' \<longleftrightarrow>
    doc_id r = doc_id r' \<and> ts_utc r = ts_utc r' \<and> payload_json r = payload_json r'"
  by (auto simp: tag_message_def append_eq_append_conv le_bytes_inject)

section \<open>The machine key and its fingerprint\<close>

text \<open>
  The host state that survives between runs: the fingerprint file beside the database and the
  keyring entry \<open>amore/wal-hmac-key\<close>.  \<open>key_faults\<close> gives, for each system call, the error
  text it fails with in this run, if it fails.
\<close>

record host =
  fp_file :: "string option"
  keyring_entry :: "string option"

record key_faults =
  read_fault :: "string option"
  entry_fault :: "string option"
  get_fault :: "string option"
  set_fault :: "string option"
  write_fault :: "string option"

definition no_faults :: key_faults where
  "no_faults = \<lparr>read_fault = None, entry_fault = None, get_fault = None, set_fault = None,
     write_fault = None\<rparr>"

definition key_fingerprint :: "(bytes \<Rightarrow> bytes) \<Rightarrow> bytes \<Rightarrow> string" where
  "key_fingerprint sha256 key = hex_encode (take 16 (sha256 key))"

definition fingerprint_path :: "string \<Rightarrow> string" where
  "fingerprint_path wal_path = wal_path @ ''.fingerprint''"

definition read_fingerprint :: "key_faults \<Rightarrow> host \<Rightarrow> wal_error + string option" where
  "read_fingerprint F h =
     (case read_fault F of
        Some e \<Rightarrow> Inl (KeyUnavailable (''reading fingerprint file: '' @ e))
      | None \<Rightarrow> Inr (map_option trim (fp_file h)))"

definition write_fingerprint :: "key_faults \<Rightarrow> string \<Rightarrow> host \<Rightarrow> (wal_error + unit) \<times> host" where
  "write_fingerprint F fp h =
     (case write_fault F of
        Some e \<Rightarrow> (Inl (KeyUnavailable (''writing fingerprint: '' @ e)), h)
      | None \<Rightarrow> (Inr (), h\<lparr>fp_file := Some fp\<rparr>))"

definition check_or_init_fingerprint ::
  "(bytes \<Rightarrow> bytes) \<Rightarrow> key_faults \<Rightarrow> string option \<Rightarrow> bytes option \<Rightarrow> host
    \<Rightarrow> (wal_error + bytes) \<times> host" where
  "check_or_init_fingerprint sha256 F stored_fp key h =
     (case (stored_fp, key) of
        (None, Some k) \<Rightarrow>
          (case write_fingerprint F (key_fingerprint sha256 k) h of
             (Inl e, h') \<Rightarrow> (Inl e, h')
           | (Inr _, h') \<Rightarrow> (Inr k, h'))
      | (None, None) \<Rightarrow>
          (Inl (KeyUnavailable ''internal: check_or_init_fingerprint called with both absent''), h)
      | (Some _, None) \<Rightarrow> (Inl KeyringEntryMissing, h)
      | (Some stored, Some k) \<Rightarrow>
          (let current = key_fingerprint sha256 k in
           if stored \<noteq> current then (Inl (KeyFingerprintMismatch stored current), h)
           else (Inr k, h)))"

text \<open>\<open>raw\<close> are the 32 bytes that \<open>rand::thread_rng().fill_bytes\<close> delivers in this run.\<close>

definition load_or_create_machine_key ::
  "(bytes \<Rightarrow> bytes) \<Rightarrow> key_faults \<Rightarrow> bytes \<Rightarrow> host \<Rightarrow> (wal_error + bytes) \<times> host" where
  "load_or_create_machine_key sha256 F raw h =
     (case read_fingerprint F h of
        Inl e \<Rightarrow> (Inl e, h)
      | Inr stored_fp \<Rightarrow>
         (case entry_fault F of
            Some e \<Rightarrow> (Inl (KeyUnavailable (''keyring entry: '' @ e)), h)
          | None \<Rightarrow>
             (case get_fault F of
                Some e \<Rightarrow> (Inl (KeyUnavailable (''keyring get: '' @ e)), h)
              | None \<Rightarrow>
                 (case keyring_entry h of
                    None \<Rightarrow>
                      (if stored_fp = None then
                         (case set_fault F of
                            Some e \<Rightarrow> (Inl (KeyUnavailable (''keyring set: '' @ e)), h)
                          | None \<Rightarrow>
                             (let h1 = h\<lparr>keyring_entry := Some (hex_encode raw)\<rparr> in
                              case write_fingerprint F (key_fingerprint sha256 raw) h1 of
                                (Inl e, h2) \<Rightarrow> (Inl e, h2)
                              | (Inr _, h2) \<Rightarrow> (Inr raw, h2)))
                       else check_or_init_fingerprint sha256 F stored_fp None h)
                  | Some hex_key \<Rightarrow>
                      (case hex_decode hex_key of
                         None \<Rightarrow> (Inl (KeyUnavailable ''corrupt keyring value''), h)
                       | Some key \<Rightarrow> check_or_init_fingerprint sha256 F stored_fp (Some key) h)))))"

lemmas key_defs = load_or_create_machine_key_def check_or_init_fingerprint_def
  read_fingerprint_def write_fingerprint_def no_faults_def

lemma trim_key_fingerprint [simp]: "trim (key_fingerprint sha256 k) = key_fingerprint sha256 k"
  by (simp add: key_fingerprint_def)

text \<open>Opening the log a second time, with no fault and whatever the random source would
  have delivered, yields the key of the first open and changes nothing.\<close>

theorem machine_key_stable:
  assumes "load_or_create_machine_key sha256 F raw h = (Inr k, h')"
  shows "load_or_create_machine_key sha256 no_faults raw' h' = (Inr k, h')"
  using assms
  by (auto simp: key_defs Let_def hex_decode_encode split: option.splits if_splits prod.splits sum.splits)

theorem machine_key_stable_witness:
  "load_or_create_machine_key (\<lambda>b. b) no_faults ''k'' \<lparr>fp_file = None, keyring_entry = None\<rparr>
     = (Inr ''k'', \<lparr>fp_file = Some (key_fingerprint (\<lambda>b. b) ''k''), keyring_entry = Some (hex_encode ''k'')\<rparr>)
   \<and> load_or_create_machine_key (\<lambda>b. b) no_faults ''z''
       \<lparr>fp_file = Some (key_fingerprint (\<lambda>b. b) ''k''), keyring_entry = Some (hex_encode ''k'')\<rparr>
     = (Inr ''k'', \<lparr>fp_file = Some (key_fingerprint (\<lambda>b. b) ''k''), keyring_entry = Some (hex_encode ''k'')\<rparr>)"
proof -
  let ?h = "\<lparr>fp_file = Some (key_fingerprint (\<lambda>b. b) ''k''), keyring_entry = Some (hex_encode ''k'')\<rparr>"
  have a: "load_or_create_machine_key (\<lambda>b. b) no_faults ''k'' \<lparr>fp_file = None, keyring_entry = None\<rparr>
      = (Inr ''k'', ?h)"
    by (simp add: key_defs)
  from a machine_key_stable [OF a, of "''z''"] show ?thesis by simp
qed

section \<open>The log\<close>

record 'v wal =
  wal_db :: "(string, 'v) kv"
  wal_seq :: u64
  machine_key :: bytes

text \<open>How a call of sled fails in \<open>append\<close> and \<open>ack\<close>: not at all, at \<open>insert\<close>, or at the
  \<open>flush\<close> that follows a completed \<open>insert\<close>.\<close>

datatype io_fault = IoOk | InsertFails | FlushFails

definition open_with_key :: "(string, 'v) kv \<Rightarrow> bytes \<Rightarrow> 'v wal" where
  "open_with_key db key =
     (let max_seq = (case kv_last_prefix ''rec:'' db of
                       None \<Rightarrow> 0
                     | Some (k, _) \<Rightarrow> (case parse_u64 (drop 4 k) of None \<Rightarrow> 0 | Some s \<Rightarrow> s))
      in \<lparr>wal_db = db, wal_seq = max_seq + 1, machine_key = key\<rparr>)"

definition wal_open ::
  "(bytes \<Rightarrow> bytes) \<Rightarrow> key_faults \<Rightarrow> bytes \<Rightarrow> host \<Rightarrow> (string, 'v) kv \<Rightarrow> (wal_error + 'v wal) \<times> host" where
  "wal_open sha256 F raw h db =
     (case load_or_create_machine_key sha256 F raw h of
        (Inl e, h') \<Rightarrow> (Inl e, h')
      | (Inr key, h') \<Rightarrow> (Inr (open_with_key db key), h'))"

definition seal_envelope :: "'v wal_codec \<Rightarrow> bytes \<Rightarrow> wal_record \<Rightarrow> wal_envelope" where
  "seal_envelope X key r = \<lparr>env_record = r, env_tag = Some (hex_encode (compute_tag X key r))\<rparr>"

definition wal_append :: "'v wal_codec \<Rightarrow> io_fault \<Rightarrow> wal_record \<Rightarrow> 'v wal \<Rightarrow> (wal_error + u64) \<times> 'v wal" where
  "wal_append X io r w =
     (if length (payload_json r) > MAX_WAL_PAYLOAD_BYTES
      then (Inl (PayloadTooLarge (length (payload_json r))), w)
      else
        let s = wal_seq w; w1 = w\<lparr>wal_seq := s + 1\<rparr> in
        case ser X (seal_envelope X (machine_key w) r) of
          None \<Rightarrow> (Inl (WalOther ''serialising WalEnvelope''), w1)
        | Some v \<Rightarrow>
            (case io of
               InsertFails \<Rightarrow> (Inl (WalOther ''sled insert rec''), w1)
             | FlushFails \<Rightarrow> (Inl (WalOther ''sled flush after rec''),
                 w1\<lparr>wal_db := kv_put (rec_key s) v (wal_db w)\<rparr>)
             | IoOk \<Rightarrow> (Inr s, w1\<lparr>wal_db := kv_put (rec_key s) v (wal_db w)\<rparr>)))"

text \<open>One entry of the database as \<open>iter_from\<close> yields it: skipped, an error item, or a record.\<close>

definition wal_item :: "'v wal_codec \<Rightarrow> bytes \<Rightarrow> string \<times> 'v \<Rightarrow> (string + u64 \<times> wal_record) option" where
  "wal_item X key p =
     (if \<not> starts_with (fst p) ''rec:'' then None
      else case parse_u64 (drop 4 (fst p)) of
        None \<Rightarrow> Some (Inl ''malformed WAL key'')
      | Some s \<Rightarrow>
          (case deser X (snd p) of
             None \<Rightarrow> Some (Inl ''deserialise'')
           | Some e \<Rightarrow>
               (case env_tag e of
                  None \<Rightarrow> Some (Inr (s, env_record e))
                | Some stored_hex \<Rightarrow>
                    if stored_hex \<noteq> hex_encode (compute_tag X key (env_record e)) then None
                    else Some (Inr (s, env_record e)))))"

definition iter_from :: "'v wal_codec \<Rightarrow> 'v wal \<Rightarrow> u64 \<Rightarrow> (string + u64 \<times> wal_record) list" where
  "iter_from X w start_seq =
     List.map_filter (wal_item X (machine_key w)) (kv_range_from (rec_key start_seq) (wal_db w))"

definition ack :: "'v wal_codec \<Rightarrow> io_fault \<Rightarrow> u64 \<Rightarrow> 'v wal \<Rightarrow> (string + unit) \<times> 'v wal" where
  "ack X io s w =
     (case io of
        InsertFails \<Rightarrow> (Inl ''sled insert ack'', w)
      | FlushFails \<Rightarrow> (Inl ''sled flush after ack'',
          w\<lparr>wal_db := kv_put (ack_key s) (ack_mark X) (wal_db w)\<rparr>)
      | IoOk \<Rightarrow> (Inr (), w\<lparr>wal_db := kv_put (ack_key s) (ack_mark X) (wal_db w)\<rparr>))"

fun unacked_loop :: "(string, 'v) kv \<Rightarrow> (string + u64 \<times> wal_record) list
    \<Rightarrow> string + (u64 \<times> wal_record) list" where
  "unacked_loop db [] = Inr []"
| "unacked_loop db (Inl e # items) = Inl e"
| "unacked_loop db (Inr (s, r) # items) =
     (case unacked_loop db items of
        Inl e \<Rightarrow> Inl e
      | Inr out \<Rightarrow> Inr (if kv_contains (ack_key s) db then out else (s, r) # out))"

definition unacked :: "'v wal_codec \<Rightarrow> 'v wal \<Rightarrow> string + (u64 \<times> wal_record) list" where
  "unacked X w = unacked_loop (wal_db w) (iter_from X w 0)"

section \<open>Well-formed logs\<close>

text \<open>
  What every log produced by the operations satisfies: keys ascend, every \<open>rec:\<close> key is the
  key of a sequence number below the counter, and only existing records are acknowledged.
\<close>

definition wal_ok :: "'v wal \<Rightarrow> bool" where
  "wal_ok w \<longleftrightarrow> kv_ok (wal_db w)
     \<and> (\<forall>(k, v) \<in> set (wal_db w). starts_with k ''rec:'' \<longrightarrow> (\<exists>s < wal_seq w. k = rec_key s))
     \<and> (\<forall>s. kv_contains (ack_key s) (wal_db w) \<longrightarrow> kv_contains (rec_key s) (wal_db w))"

definition wal_recs :: "'v wal \<Rightarrow> (string \<times> 'v) list" where
  "wal_recs w = filter (\<lambda>p. starts_with (fst p) ''rec:'') (wal_db w)"

lemma map_filter_filter:
  "(\<And>x. x \<in> set xs \<Longrightarrow> \<not> P x \<Longrightarrow> f x = None) \<Longrightarrow> List.map_filter f (filter P xs) = List.map_filter f xs"
  by (induction xs) (auto simp: List.map_filter_simps split: option.splits)

lemma map_filter_append: "List.map_filter f (xs @ ys) = List.map_filter f xs @ List.map_filter f ys"
  by (simp add: List.map_filter_def)

lemma iter_from_0:
  assumes "wal_ok w"
  shows "iter_from X w 0 = List.map_filter (wal_item X (machine_key w)) (wal_recs w)"
proof -
  have "rec_key 0 \<le> fst p" if "p \<in> set (wal_db w)" "starts_with (fst p) ''rec:''" for p
    using that assms by (cases p) (auto simp: wal_ok_def rec_key_le)
  then have "wal_item X (machine_key w) p = None" if "p \<in> set (wal_db w)" "\<not> rec_key 0 \<le> fst p" for p
    using that unfolding wal_item_def by meson
  then have "iter_from X w 0 = List.map_filter (wal_item X (machine_key w)) (wal_db w)"
    by (simp add: iter_from_def kv_range_from_def map_filter_filter)
  also have "\<dots> = List.map_filter (wal_item X (machine_key w)) (wal_recs w)"
    unfolding wal_recs_def by (rule map_filter_filter [symmetric]) (simp add: wal_item_def)
  finally show ?thesis .
qed

lemma wal_ok_fresh:
  assumes "wal_ok w"
  shows "\<not> kv_contains (rec_key (wal_seq w)) (wal_db w)"
    and "\<not> kv_contains (ack_key (wal_seq w)) (wal_db w)"
proof -
  show a: "\<not> kv_contains (rec_key (wal_seq w)) (wal_db w)"
  proof
    assume "kv_contains (rec_key (wal_seq w)) (wal_db w)"
    then obtain v where "(rec_key (wal_seq w), v) \<in> set (wal_db w)"
      by (auto simp: kv_contains_def dest: map_of_SomeD)
    with assms show False by (auto simp: wal_ok_def)
  qed
  with assms show "\<not> kv_contains (ack_key (wal_seq w)) (wal_db w)"
    by (auto simp: wal_ok_def)
qed

lemma wal_recs_put_rec:
  assumes "wal_ok w"
  shows "filter (\<lambda>p. starts_with (fst p) ''rec:'') (kv_put (rec_key (wal_seq w)) v (wal_db w)) =
    wal_recs w @ [(rec_key (wal_seq w), v)]"
  unfolding wal_recs_def
  by (rule kv.put_append [where P = "\<lambda>k. starts_with k ''rec:''"])
    (use assms in \<open>auto simp: wal_ok_def rec_key_less\<close>)

lemma wal_recs_put_ack:
  assumes "wal_ok w"
  shows "filter (\<lambda>p. starts_with (fst p) ''rec:'') (kv_put (ack_key s) v (wal_db w)) = wal_recs w"
  unfolding wal_recs_def
  by (rule kv.put_frame [where P = "\<lambda>k. starts_with k ''rec:''"]) (use assms in \<open>auto simp: wal_ok_def\<close>)

lemma word_less_Suc: "s \<noteq> - 1 \<Longrightarrow> (a :: 'a :: len word) \<le> s \<Longrightarrow> a < s + 1"
proof -
  assume s: "s \<noteq> - 1" and a: "a \<le> s"
  have "1 + s \<noteq> 0" using s by (metis add.commute eq_neg_iff_add_eq_0)
  then have "unat (s + 1) = Suc (unat s)" by (simp add: unatSuc add.commute)
  with a show "a < s + 1" by (simp add: word_less_nat_alt word_le_nat_alt)
qed

lemma wal_ok_put_rec:
  assumes "wal_ok w" and "wal_seq w \<noteq> - 1"
  shows "wal_ok (w\<lparr>wal_seq := wal_seq w + 1, wal_db := kv_put (rec_key (wal_seq w)) v (wal_db w)\<rparr>)"
proof -
  have set: "set (kv_put (rec_key (wal_seq w)) v (wal_db w)) =
      {(rec_key (wal_seq w), v)} \<union> {p \<in> set (wal_db w). fst p \<noteq> rec_key (wal_seq w)}"
    using assms(1) by (intro kv.set_entries_put) (simp add: wal_ok_def)
  have lt: "s < wal_seq w \<Longrightarrow> s < wal_seq w + 1" for s
    using assms(2) by (simp add: word_less_Suc)
  have lt0: "wal_seq w < wal_seq w + 1"
    using assms(2) by (simp add: word_less_Suc)
  show ?thesis
    using assms(1) set lt lt0
    by (auto simp: wal_ok_def kv_put_sorted kv_contains_put)
qed

lemma wal_ok_bump: "wal_ok w \<Longrightarrow> wal_seq w \<noteq> - 1 \<Longrightarrow> wal_ok (w\<lparr>wal_seq := wal_seq w + 1\<rparr>)"
  by (fastforce simp: wal_ok_def word_less_Suc)

lemma wal_ok_put_ack:
  assumes "wal_ok w" and "kv_contains (rec_key s) (wal_db w)"
  shows "wal_ok (w\<lparr>wal_db := kv_put (ack_key s) v (wal_db w)\<rparr>)"
proof -
  have set: "set (kv_put (ack_key s) v (wal_db w)) =
      {(ack_key s, v)} \<union> {p \<in> set (wal_db w). fst p \<noteq> ack_key s}"
    using assms(1) by (intro kv.set_entries_put) (simp add: wal_ok_def)
  show ?thesis
    using assms set by (auto simp: wal_ok_def kv_put_sorted kv_contains_put)
qed

lemma append_ok:
  assumes "wal_ok w" and "wal_seq w \<noteq> - 1"
  shows "wal_ok (snd (wal_append X io r w))"
  using assms by (auto simp: wal_append_def Let_def wal_ok_bump wal_ok_put_rec split: option.splits io_fault.splits)

lemma ack_ok:
  "wal_ok w \<Longrightarrow> kv_contains (rec_key s) (wal_db w) \<Longrightarrow> wal_ok (snd (ack X io s w))"
  by (auto simp: ack_def wal_ok_put_ack split: io_fault.splits)

text \<open>Reopening after a crash: the counter restarts above every stored record.\<close>

lemma kv_last_prefix_recs:
  "kv_last_prefix ''rec:'' (wal_db w) = (if wal_recs w = [] then None else Some (last (wal_recs w)))"
  by (simp add: kv_last_prefix_def wal_recs_def split: list.splits)

lemma open_with_key_above:
  assumes "kv_ok db"
    and keys: "\<And>k v. (k, v) \<in> set db \<Longrightarrow> starts_with k ''rec:'' \<Longrightarrow> \<exists>s. s \<noteq> - 1 \<and> k = rec_key s"
    and "kv_contains (rec_key s) db"
  shows "s < wal_seq (open_with_key db key)"
proof -
  define w where "w = \<lparr>wal_db = db, wal_seq = 0, machine_key = key\<rparr>"
  obtain v where "(rec_key s, v) \<in> set db"
    using assms(3) by (auto simp: kv_contains_def dest: map_of_SomeD)
  then have mem: "(rec_key s, v) \<in> set (wal_recs w)"
    by (simp add: wal_recs_def w_def)
  then have ne: "wal_recs w \<noteq> []" by auto
  then have "last (wal_recs w) \<in> set (wal_recs w)" by simp
  then have "last (wal_recs w) \<in> set db" "starts_with (fst (last (wal_recs w))) ''rec:''"
    by (simp_all only: wal_recs_def w_def set_filter mem_Collect_eq wal.select_convs)
  then obtain t u where t: "last (wal_recs w) = (rec_key t, u)" "t \<noteq> - 1"
    using keys [of "fst (last (wal_recs w))" "snd (last (wal_recs w))"] by (metis prod.collapse)
  have "rec_key s \<le> rec_key t"
    using kv.last_is_max [OF assms(1)] mem ne t by (fastforce simp: wal_recs_def w_def)
  then have "s \<le> t" by (simp add: rec_key_le)
  moreover have "wal_seq (open_with_key db key) = t + 1"
    using kv_last_prefix_recs [of w] ne t by (simp add: open_with_key_def w_def)
  ultimately show ?thesis using t by (simp add: word_less_Suc)
qed

lemma reopen_ok:
  assumes "wal_ok w"
  shows "wal_ok (open_with_key (wal_db w) key)"
proof -
  have "s < wal_seq (open_with_key (wal_db w) key)" if "(rec_key s, v) \<in> set (wal_db w)" for s v
  proof (rule open_with_key_above)
    show "kv_contains (rec_key s) (wal_db w)"
      using that by (auto simp: kv_contains_def map_of_eq_None_iff) (metis fst_conv image_eqI)
    show "\<exists>s. s \<noteq> - 1 \<and> k = rec_key s" if "(k, v) \<in> set (wal_db w)" "starts_with k ''rec:''" for k v
    proof -
      from assms that obtain s where "s < wal_seq w" "k = rec_key s" by (auto simp: wal_ok_def)
      moreover from this have "s \<noteq> - 1" by (metis max_word_max not_less)
      ultimately show ?thesis by blast
    qed
  qed (use assms in \<open>simp add: wal_ok_def\<close>)
  moreover have "wal_db (open_with_key (wal_db w) key) = wal_db w"
    by (simp add: open_with_key_def)
  ultimately show ?thesis
    using assms by (fastforce simp: wal_ok_def)
qed

section \<open>The log refines a list of records and a set of acknowledgements\<close>

datatype wal_op = OpAppend io_fault wal_record | OpAck io_fault u64 | OpReopen

fun wal_step :: "'v wal_codec \<Rightarrow> wal_op \<Rightarrow> 'v wal \<Rightarrow> 'v wal" where
  "wal_step X (OpAppend io r) w = snd (wal_append X io r w)"
| "wal_step X (OpAck io s) w = snd (ack X io s w)"
| "wal_step X OpReopen w = open_with_key (wal_db w) (machine_key w)"

text \<open>The calls the ingest pipeline makes: it acknowledges only sequence numbers that \<open>append\<close>
  returned, and the counter is not exhausted.\<close>

fun op_enabled :: "wal_op \<Rightarrow> 'v wal \<Rightarrow> bool" where
  "op_enabled (OpAppend io r) w = (wal_seq w \<noteq> - 1)"
| "op_enabled (OpAck io s) w = kv_contains (rec_key s) (wal_db w)"
| "op_enabled OpReopen w = True"

record log_spec =
  spec_log :: "(u64 \<times> wal_record) list"
  spec_acked :: "u64 set"

definition unacked_spec :: "log_spec \<Rightarrow> (u64 \<times> wal_record) list" where
  "unacked_spec A = filter (\<lambda>p. fst p \<notin> spec_acked A) (spec_log A)"

fun spec_step :: "wal_op \<Rightarrow> u64 \<Rightarrow> log_spec \<Rightarrow> log_spec" where
  "spec_step (OpAppend io r) fresh A =
     (if length (payload_json r) > MAX_WAL_PAYLOAD_BYTES \<or> io = InsertFails then A
      else A\<lparr>spec_log := spec_log A @ [(fresh, r)]\<rparr>)"
| "spec_step (OpAck io s) fresh A =
     (if io = InsertFails then A else A\<lparr>spec_acked := insert s (spec_acked A)\<rparr>)"
| "spec_step OpReopen fresh A = A"

definition wal_sim :: "'v wal_codec \<Rightarrow> 'v wal \<Rightarrow> log_spec \<Rightarrow> bool" where
  "wal_sim X w A \<longleftrightarrow> wal_ok w
     \<and> List.map_filter (wal_item X (machine_key w)) (wal_recs w) = map Inr (spec_log A)
     \<and> (\<forall>s. kv_contains (ack_key s) (wal_db w) \<longleftrightarrow> s \<in> spec_acked A)"

lemma unacked_loop_records:
  "unacked_loop db (map Inr ps) = Inr (filter (\<lambda>p. \<not> kv_contains (ack_key (fst p)) db) ps)"
  by (induction ps) auto

lemma wal_sim_unacked: "wal_sim X w A \<Longrightarrow> unacked X w = Inr (unacked_spec A)"
  by (simp add: wal_sim_def unacked_def iter_from_0 unacked_loop_records unacked_spec_def)

lemma wal_item_sealed:
  assumes "ser X (seal_envelope X key r) = Some v" and "serde_ok X"
  shows "wal_item X key (rec_key s, v) = Some (Inr (s, r))"
proof -
  from assms have "deser X v = Some (seal_envelope X key r)"
    unfolding serde_ok_def by (metis option.sel)
  then show ?thesis by (simp add: wal_item_def seal_envelope_def)
qed

lemma append_cases:
  assumes "serde_ok X"
  obtains (too_large) "length (payload_json r) > MAX_WAL_PAYLOAD_BYTES"
      "wal_append X io r w = (Inl (PayloadTooLarge (length (payload_json r))), w)"
  | (insert_fails) "length (payload_json r) \<le> MAX_WAL_PAYLOAD_BYTES" "io = InsertFails"
      "wal_append X io r w = (Inl (WalOther ''sled insert rec''), w\<lparr>wal_seq := wal_seq w + 1\<rparr>)"
  | (stored) v res where "length (payload_json r) \<le> MAX_WAL_PAYLOAD_BYTES" "io \<noteq> InsertFails"
      "ser X (seal_envelope X (machine_key w) r) = Some v"
      "wal_append X io r w = (res, w\<lparr>wal_seq := wal_seq w + 1,
         wal_db := kv_put (rec_key (wal_seq w)) v (wal_db w)\<rparr>)"
      "io = IoOk \<Longrightarrow> res = Inr (wal_seq w)" "io = FlushFails \<Longrightarrow> \<exists>e. res = Inl e"
proof (cases "length (payload_json r) > MAX_WAL_PAYLOAD_BYTES")
  case True
  then show ?thesis by (intro too_large) (simp_all add: wal_append_def)
next
  case False
  obtain v where "ser X (seal_envelope X (machine_key w) r) = Some v"
    using assms by (auto simp: serde_ok_def)
  with False insert_fails stored show ?thesis
    by (cases io) (auto simp: wal_append_def Let_def)
qed

lemma wal_sim_append:
  assumes sim: "wal_sim X w A" and X: "serde_ok X" and seq: "wal_seq w \<noteq> - 1"
  shows "wal_sim X (snd (wal_append X io r w)) (spec_step (OpAppend io r) (wal_seq w) A)"
proof (cases rule: append_cases [OF X, of r io w, case_names too_large insert_fails stored])
  case too_large
  with sim show ?thesis by simp
next
  case insert_fails
  with sim seq wal_ok_bump [of w] show ?thesis by (simp add: wal_sim_def wal_recs_def)
next
  case (stored v res)
  have "wal_ok w" using sim by (simp add: wal_sim_def)
  let ?w = "w\<lparr>wal_seq := wal_seq w + 1, wal_db := kv_put (rec_key (wal_seq w)) v (wal_db w)\<rparr>"
  have recs: "wal_recs ?w = wal_recs w @ [(rec_key (wal_seq w), v)]"
    using wal_recs_put_rec [OF \<open>wal_ok w\<close>] by (simp add: wal_recs_def)
  have item: "wal_item X (machine_key w) (rec_key (wal_seq w), v) = Some (Inr (wal_seq w, r))"
    using stored X by (simp add: wal_item_sealed)
  have ks: "kv_contains (ack_key s) (wal_db ?w) \<longleftrightarrow> s \<in> spec_acked A" for s
    using sim \<open>wal_ok w\<close> by (simp add: wal_sim_def wal_ok_def kv_contains_put)
  from wal_ok_put_rec [OF \<open>wal_ok w\<close> seq, of v] recs item ks sim stored show ?thesis
    by (simp add: wal_sim_def map_filter_append List.map_filter_simps)
qed

lemma wal_sim_ack:
  assumes sim: "wal_sim X w A" and s: "kv_contains (rec_key s) (wal_db w)"
  shows "wal_sim X (snd (ack X io s w)) (spec_step (OpAck io s) fresh A)"
proof -
  have "wal_ok w" using sim by (simp add: wal_sim_def)
  let ?w = "w\<lparr>wal_db := kv_put (ack_key s) (ack_mark X) (wal_db w)\<rparr>"
  have "wal_recs ?w = wal_recs w"
    using wal_recs_put_ack [OF \<open>wal_ok w\<close>] by (simp add: wal_recs_def)
  moreover have "kv_contains (ack_key t) (wal_db ?w) \<longleftrightarrow> t = s \<or> kv_contains (ack_key t) (wal_db w)" for t
    using \<open>wal_ok w\<close> by (simp add: wal_ok_def kv_contains_put)
  ultimately have "wal_sim X ?w (A\<lparr>spec_acked := insert s (spec_acked A)\<rparr>)"
    using sim wal_ok_put_ack [OF \<open>wal_ok w\<close> s] by (simp add: wal_sim_def)
  with sim show ?thesis by (cases io) (simp_all add: ack_def)
qed

lemma wal_sim_reopen:
  "wal_sim X w A \<Longrightarrow> wal_sim X (open_with_key (wal_db w) (machine_key w)) A"
  using reopen_ok [of w "machine_key w"]
  by (simp add: wal_sim_def wal_recs_def open_with_key_def)

lemma wal_sim_step:
  assumes "wal_sim X w A" and "serde_ok X" and "op_enabled op w"
  shows "wal_sim X (wal_step X op w) (spec_step op (wal_seq w) A)"
  using assms by (cases op) (simp_all add: wal_sim_append wal_sim_ack wal_sim_reopen del: spec_step.simps(1,2))

fun wal_run :: "'v wal_codec \<Rightarrow> wal_op list \<Rightarrow> 'v wal \<Rightarrow> 'v wal" where
  "wal_run X [] w = w"
| "wal_run X (op # ops) w = wal_run X ops (wal_step X op w)"

fun run_enabled :: "'v wal_codec \<Rightarrow> wal_op list \<Rightarrow> 'v wal \<Rightarrow> bool" where
  "run_enabled X [] w = True"
| "run_enabled X (op # ops) w = (op_enabled op w \<and> run_enabled X ops (wal_step X op w))"

fun spec_run :: "'v wal_codec \<Rightarrow> wal_op list \<Rightarrow> 'v wal \<Rightarrow> log_spec \<Rightarrow> log_spec" where
  "spec_run X [] w A = A"
| "spec_run X (op # ops) w A = spec_run X ops (wal_step X op w) (spec_step op (wal_seq w) A)"

lemma wal_sim_run:
  "wal_sim X w A \<Longrightarrow> serde_ok X \<Longrightarrow> run_enabled X ops w \<Longrightarrow> wal_sim X (wal_run X ops w) (spec_run X ops w A)"
  by (induction ops arbitrary: w A) (auto intro: wal_sim_step)

lemma wal_sim_init: "wal_sim X (open_with_key [] key) \<lparr>spec_log = [], spec_acked = {}\<rparr>"
  by (simp add: wal_sim_def wal_ok_def wal_recs_def open_with_key_def kv_contains_def List.map_filter_simps)

lemma wal_ok_run:
  "wal_ok w \<Longrightarrow> run_enabled X ops w \<Longrightarrow> wal_ok (wal_run X ops w)"
proof (induction ops arbitrary: w)
  case (Cons op ops)
  then show ?case
    by (cases op) (simp_all add: append_ok ack_ok reopen_ok)
qed simp

section \<open>Properties\<close>


definition toy_codec :: "(wal_envelope option) wal_codec" where
  "toy_codec = \<lparr>hmac = (\<lambda>k m. k @ m), ser = (\<lambda>e. Some (Some e)), deser = (\<lambda>v. v), ack_mark = None\<rparr>"

definition toy_record :: "u64 \<Rightarrow> wal_record" where
  "toy_record n = \<lparr>kind = Upsert, doc_id = n, payload_json = ''{}'', ts_utc = 7\<rparr>"

lemma toy_serde_ok: "serde_ok toy_codec"
  by (simp add: serde_ok_def toy_codec_def)

lemmas toy_eval = toy_codec_def toy_record_def wal_append_def ack_def open_with_key_def Let_def
  kv_contains_def kv_last_prefix_def MAX_WAL_PAYLOAD_BYTES_def rec_key_less unacked_spec_def

abbreviation toy_ops :: "wal_op list" where
  "toy_ops \<equiv> [OpAppend IoOk (toy_record 1), OpAppend InsertFails (toy_record 2),
     OpAppend IoOk (toy_record 3), OpReopen, OpAck IoOk 1]"


text \<open>Opening a log with well-formed record keys sets the counter above every stored
  record, so the next \<open>append\<close> after a restart never overwrites one.\<close>

theorem reopen_never_overwrites:
  assumes "kv_ok db"
    and "\<forall>(k, v) \<in> set db. starts_with k ''rec:'' \<longrightarrow> (\<exists>s. s \<noteq> - 1 \<and> k = rec_key s)"
    and "wal_append X IoOk r (open_with_key db key) = (Inr s, w')"
  shows "kv_get (rec_key s) db = None \<and> (\<forall>t. kv_contains (rec_key t) db \<longrightarrow>
      t < s \<and> kv_get (rec_key t) (wal_db w') = kv_get (rec_key t) db)"
proof -
  have s: "s = wal_seq (open_with_key db key)"
    and w': "\<exists>v. wal_db w' = kv_put (rec_key s) v db"
    using assms(3) by (auto simp: wal_append_def Let_def open_with_key_def split: if_splits option.splits)
  have above: "t < s" if "kv_contains (rec_key t) db" for t
    unfolding s using that assms by (intro open_with_key_above) auto
  from above [of s] have fresh: "\<not> kv_contains (rec_key s) db" by auto
  then have "kv_get (rec_key s) db = None"
    by (simp add: kv_contains_def kv_get_def)
  with fresh above w' assms(1) show ?thesis
    by (auto simp: kv_get_put)
qed

theorem reopen_never_overwrites_witness:
  "kv_get (rec_key 5) [(rec_key 4, Some (seal_envelope toy_codec ''k'' (toy_record 9)))] = None"
proof -
  let ?db = "[(rec_key 4, Some (seal_envelope toy_codec ''k'' (toy_record 9)))]"
  have ok: "kv_ok ?db" by (simp add: kv_ok_def)
  have keys: "\<forall>(k, v) \<in> set ?db. starts_with k ''rec:'' \<longrightarrow> (\<exists>s. s \<noteq> - 1 \<and> k = rec_key s)"
    by (auto intro: exI [of _ 4])
  have a: "wal_append toy_codec IoOk (toy_record 1) (open_with_key ?db ''k'') =
      (Inr 5, snd (wal_append toy_codec IoOk (toy_record 1) (open_with_key ?db ''k'')))"
    by (simp add: wal_append_def Let_def open_with_key_def kv_last_prefix_def toy_codec_def
        toy_record_def MAX_WAL_PAYLOAD_BYTES_def)
  from reopen_never_overwrites [OF ok keys a] show ?thesis by simp
qed

text \<open>A stored envelope whose tag was made for another document id, timestamp or payload is
  never replayed, unless the two messages are an HMAC collision.\<close>

theorem tampered_record_skipped:
  assumes "deser X v = Some \<lparr>env_record = r', env_tag = Some (hex_encode (compute_tag X key r))\<rparr>"
    and "doc_id r' \<noteq> doc_id r \<or> ts_utc r' \<noteq> ts_utc r \<or> payload_json r' \<noteq> payload_json r"
  shows "wal_item X key (rec_key s, v) = None
    \<or> (tag_message r \<noteq> tag_message r' \<and> hmac X key (tag_message r) = hmac X key (tag_message r'))"
proof -
  have "tag_message r \<noteq> tag_message r'"
    using assms(2) by (auto simp: tag_message_inject)
  with assms(1) show ?thesis
    by (auto simp: wal_item_def hex_encode_inject compute_tag_def)
qed

theorem tampered_record_skipped_witness:
  "wal_item toy_codec ''k'' (rec_key 3, Some \<lparr>env_record = toy_record 2,
     env_tag = Some (hex_encode (compute_tag toy_codec ''k'' (toy_record 1)))\<rparr>) = None"
proof -
  let ?v = "Some \<lparr>env_record = toy_record 2,
     env_tag = Some (hex_encode (compute_tag toy_codec ''k'' (toy_record 1)))\<rparr>"
  have "tag_message (toy_record 1) \<noteq> tag_message (toy_record 2)"
    by (simp add: tag_message_inject toy_record_def)
  then have "hmac toy_codec ''k'' (tag_message (toy_record 1)) \<noteq> hmac toy_codec ''k'' (tag_message (toy_record 2))"
    by (simp add: toy_codec_def)
  with tampered_record_skipped [where X = toy_codec and key = "''k''" and r = "toy_record 1"
      and r' = "toy_record 2" and v = ?v and s = 3]
  show ?thesis by (simp add: toy_codec_def toy_record_def)
qed

text \<open>The tag does not cover the record's kind: a stored upsert rewritten as a delete (or
  the reverse) with its old tag verifies, and is replayed with the new kind.\<close>

theorem kind_not_authenticated:
  assumes "deser X v = Some \<lparr>env_record = r\<lparr>kind := k\<rparr>, env_tag = Some (hex_encode (compute_tag X key r))\<rparr>"
  shows "wal_item X key (rec_key s, v) = Some (Inr (s, r\<lparr>kind := k\<rparr>))"
  using assms by (simp add: wal_item_def compute_tag_def tag_message_def)

theorem kind_not_authenticated_witness:
  "wal_item toy_codec ''k'' (rec_key 3, Some \<lparr>env_record = (toy_record 1)\<lparr>kind := Delete\<rparr>,
     env_tag = Some (hex_encode (compute_tag toy_codec ''k'' (toy_record 1)))\<rparr>)
   = Some (Inr (3, (toy_record 1)\<lparr>kind := Delete\<rparr>))"
  by (rule kind_not_authenticated) (simp add: toy_codec_def)

text \<open>C33: a fingerprint on disk makes opening fail closed: without the keyring entry, or with a
  key of another fingerprint, no key is returned, and nothing is generated or overwritten.\<close>

theorem open_fails_closed:
  assumes "fp_file h = Some fp"
    and "keyring_entry h = None \<or> (\<exists>k. keyring_entry h = Some (hex_encode k) \<and> key_fingerprint sha256 k \<noteq> trim fp)"
  shows "\<exists>e. wal_open sha256 F raw h db = (Inl e, h)"
  using assms
  by (auto simp: wal_open_def key_defs Let_def hex_decode_encode split: option.splits)

theorem open_fails_closed_witness:
  "\<exists>e. wal_open (\<lambda>b. b) no_faults ''new'' \<lparr>fp_file = Some ''aa'', keyring_entry = None\<rparr> ([] :: (string, nat) kv)
     = (Inl e, \<lparr>fp_file = Some ''aa'', keyring_entry = None\<rparr>)"
  by (rule open_fails_closed [where fp = "''aa''"]) simp_all

text \<open>C16: \<open>append\<close> accepts payloads of up to 16 KiB inclusive and refuses anything longer
  without touching the log or consuming a sequence number; a stored record reads back
  identically under the returned number.\<close>

theorem append_bounded_roundtrip:
  assumes "serde_ok X" and "wal_ok w" and "wal_seq w \<noteq> - 1"
  shows "(length (payload_json r) > 16384 \<longrightarrow>
      wal_append X io r w = (Inl (PayloadTooLarge (length (payload_json r))), w))
    \<and> (length (payload_json r) \<le> 16384 \<longrightarrow> (\<exists>w'. wal_append X IoOk r w = (Inr (wal_seq w), w')
      \<and> iter_from X w' 0 = iter_from X w 0 @ [Inr (wal_seq w, r)]))"
proof (cases "length (payload_json r) > MAX_WAL_PAYLOAD_BYTES")
  case True
  then show ?thesis by (simp add: wal_append_def MAX_WAL_PAYLOAD_BYTES_def)
next
  case False
  obtain v where v: "ser X (seal_envelope X (machine_key w) r) = Some v"
    using assms(1) by (auto simp: serde_ok_def)
  let ?w = "w\<lparr>wal_seq := wal_seq w + 1, wal_db := kv_put (rec_key (wal_seq w)) v (wal_db w)\<rparr>"
  have "wal_append X IoOk r w = (Inr (wal_seq w), ?w)"
    using False v by (simp add: wal_append_def Let_def)
  moreover have "iter_from X ?w 0 = iter_from X w 0 @ [Inr (wal_seq w, r)]"
    using wal_ok_put_rec [OF assms(2,3), of v] wal_recs_put_rec [OF assms(2), of v]
      wal_item_sealed [OF v assms(1)]
    by (simp add: iter_from_0 assms(2) wal_recs_def map_filter_append List.map_filter_simps)
  ultimately show ?thesis
    using False by (simp add: MAX_WAL_PAYLOAD_BYTES_def)
qed

theorem append_bounded_roundtrip_witness:
  "\<exists>w'. wal_append toy_codec IoOk (toy_record 1) (open_with_key [] ''k'') = (Inr 1, w')
     \<and> iter_from toy_codec w' 0 = [Inr (1, toy_record 1)]"
  using append_bounded_roundtrip [where X = toy_codec and w = "open_with_key [] ''k''" and r = "toy_record 1",
      OF toy_serde_ok]
  by (simp add: wal_ok_def open_with_key_def kv_last_prefix_def kv_contains_def toy_record_def
      iter_from_def kv_range_from_def List.map_filter_simps)

end
