(* ===== verification/WalConcurrent.thy ===== *)
theory WalConcurrent
  imports Wal
begin

text \<open>
  The write-ahead log of \<open>crates/amore-core/src/wal.rs\<close> shared by threads.  \<open>append\<close> and \<open>ack\<close> take \<open>&self\<close>: a number is
  drawn by an atomic \<open>fetch_add\<close>, the entry is inserted, the database is flushed, and other threads may run between
  these steps, while sled may write anything that is not flushed to disk at any time, or lose it in a crash.  The
  lemma \<open>append_is_steps\<close> shows that the steps of one undisturbed thread are the \<open>append\<close> of \<open>Wal\<close>.
\<close>

section \<open>Threads and the two images of the database\<close>

datatype wal_job = Numbered u64 wal_record | Inserted u64 wal_record | AckInserted u64

record 'v shared_log =
  sl_mem :: "(string, 'v) kv"
  sl_disk :: "(string, 'v) kv"
  sl_seq :: u64
  sl_jobs :: "nat \<rightharpoonup> wal_job"
  sl_returned :: "(u64 \<times> wal_record) list"
  sl_asked :: "u64 set"
  sl_acked :: "u64 set"

definition fresh_log :: "'v shared_log" where
  "fresh_log = \<lparr>sl_mem = [], sl_disk = [], sl_seq = 1, sl_jobs = Map.empty, sl_returned = [], sl_asked = {}, sl_acked = {}\<rparr>"

text \<open>What a crash may leave: under every key, what was in memory or what was on disk.\<close>

definition crash_image :: "(string, 'v) kv \<Rightarrow> (string, 'v) kv \<Rightarrow> (string, 'v) kv \<Rightarrow> bool" where
  "crash_image mem disk d \<longleftrightarrow> kv_ok d \<and> (\<forall>k. map_of d k = map_of mem k \<or> map_of d k = map_of disk k)"

text \<open>The steps of a thread.\<close>

definition draw_number :: "nat \<Rightarrow> wal_record \<Rightarrow> 'v shared_log \<Rightarrow> 'v shared_log" where
  "draw_number t r L = L\<lparr>sl_seq := sl_seq L + 1, sl_jobs := (sl_jobs L)(t \<mapsto> Numbered (sl_seq L) r)\<rparr>"

definition insert_entry :: "nat \<Rightarrow> u64 \<Rightarrow> wal_record \<Rightarrow> 'v \<Rightarrow> 'v shared_log \<Rightarrow> 'v shared_log" where
  "insert_entry t s r v L = L\<lparr>sl_mem := kv_put (rec_key s) v (sl_mem L), sl_jobs := (sl_jobs L)(t \<mapsto> Inserted s r)\<rparr>"

definition flush_entry :: "nat \<Rightarrow> u64 \<Rightarrow> wal_record \<Rightarrow> 'v shared_log \<Rightarrow> 'v shared_log" where
  "flush_entry t s r L =
     L\<lparr>sl_disk := sl_mem L, sl_jobs := (sl_jobs L)(t := None), sl_returned := (s, r) # sl_returned L\<rparr>"

definition insert_ack :: "'v wal_codec \<Rightarrow> nat \<Rightarrow> u64 \<Rightarrow> 'v shared_log \<Rightarrow> 'v shared_log" where
  "insert_ack X t s L =
     L\<lparr>sl_mem := kv_put (ack_key s) (ack_mark X) (sl_mem L), sl_jobs := (sl_jobs L)(t \<mapsto> AckInserted s),
       sl_asked := insert s (sl_asked L)\<rparr>"

definition flush_ack :: "nat \<Rightarrow> u64 \<Rightarrow> 'v shared_log \<Rightarrow> 'v shared_log" where
  "flush_ack t s L = L\<lparr>sl_disk := sl_mem L, sl_jobs := (sl_jobs L)(t := None), sl_acked := insert s (sl_acked L)\<rparr>"

definition reopen_image :: "bytes \<Rightarrow> (string, 'v) kv \<Rightarrow> 'v shared_log \<Rightarrow> 'v shared_log" where
  "reopen_image key d L =
     L\<lparr>sl_mem := d, sl_disk := d, sl_seq := wal_seq (open_with_key d key), sl_jobs := Map.empty\<rparr>"

text \<open>\<open>give_up\<close>: an error of the serialiser, the insertion or the flush, or a thread that is no longer scheduled.  The
  counter is kept below its last value.\<close>

inductive shared_step :: "'v wal_codec \<Rightarrow> bytes \<Rightarrow> 'v shared_log \<Rightarrow> 'v shared_log \<Rightarrow> bool" for X key where
  number: "\<lbrakk>sl_jobs L t = None; length (payload_json r) \<le> MAX_WAL_PAYLOAD_BYTES; sl_seq L \<noteq> - 1\<rbrakk>
    \<Longrightarrow> shared_step X key L (draw_number t r L)"
| insert: "\<lbrakk>sl_jobs L t = Some (Numbered s r); ser X (seal_envelope X key r) = Some v\<rbrakk>
    \<Longrightarrow> shared_step X key L (insert_entry t s r v L)"
| flush: "sl_jobs L t = Some (Inserted s r) \<Longrightarrow> shared_step X key L (flush_entry t s r L)"
| ack_insert: "sl_jobs L t = None \<Longrightarrow> shared_step X key L (insert_ack X t s L)"
| ack_flush: "sl_jobs L t = Some (AckInserted s) \<Longrightarrow> shared_step X key L (flush_ack t s L)"
| give_up: "shared_step X key L (L\<lparr>sl_jobs := (sl_jobs L)(t := None)\<rparr>)"
| background: "crash_image (sl_mem L) (sl_disk L) d \<Longrightarrow> shared_step X key L (L\<lparr>sl_disk := d\<rparr>)"
| crash: "crash_image (sl_mem L) (sl_disk L) d \<Longrightarrow> shared_step X key L (reopen_image key d L)"

inductive shared_reach :: "'v wal_codec \<Rightarrow> bytes \<Rightarrow> 'v shared_log \<Rightarrow> bool" for X key where
  start: "shared_reach X key fresh_log"
| step: "shared_reach X key L \<Longrightarrow> shared_step X key L L' \<Longrightarrow> shared_reach X key L'"

section \<open>The invariant\<close>

definition sealed_at :: "'v wal_codec \<Rightarrow> bytes \<Rightarrow> u64 \<Rightarrow> wal_record \<Rightarrow> (string, 'v) kv \<Rightarrow> bool" where
  "sealed_at X key s r d \<longleftrightarrow> map_of d (rec_key s) \<noteq> None \<and> map_of d (rec_key s) = ser X (seal_envelope X key r)"

text \<open>A database of sealed records below a number, with acknowledgements out of a set.\<close>

definition image_ok :: "'v wal_codec \<Rightarrow> bytes \<Rightarrow> u64 \<Rightarrow> u64 set \<Rightarrow> (string, 'v) kv \<Rightarrow> bool" where
  "image_ok X key n A d \<longleftrightarrow> kv_ok d
     \<and> (\<forall>k v. map_of d k = Some v \<longrightarrow> starts_with k ''rec:'' \<longrightarrow> (\<exists>s r. s < n \<and> k = rec_key s \<and> ser X (seal_envelope X key r) = Some v))
     \<and> (\<forall>s. map_of d (ack_key s) \<noteq> None \<longrightarrow> s \<in> A)"

fun job_seq :: "wal_job \<Rightarrow> u64 option" where
  "job_seq (Numbered s r) = Some s"
| "job_seq (Inserted s r) = Some s"
| "job_seq (AckInserted s) = None"

fun job_ok :: "'v wal_codec \<Rightarrow> bytes \<Rightarrow> 'v shared_log \<Rightarrow> wal_job \<Rightarrow> bool" where
  "job_ok X key L (Numbered s r) = (s < sl_seq L \<and> s \<notin> fst ` set (sl_returned L)
     \<and> map_of (sl_mem L) (rec_key s) = None \<and> map_of (sl_disk L) (rec_key s) = None)"
| "job_ok X key L (Inserted s r) = (s < sl_seq L \<and> s \<notin> fst ` set (sl_returned L) \<and> sealed_at X key s r (sl_mem L))"
| "job_ok X key L (AckInserted s) = (map_of (sl_mem L) (ack_key s) \<noteq> None \<and> s \<in> sl_asked L)"

definition shared_ok :: "'v wal_codec \<Rightarrow> bytes \<Rightarrow> 'v shared_log \<Rightarrow> bool" where
  "shared_ok X key L \<longleftrightarrow>
     image_ok X key (sl_seq L) (sl_asked L) (sl_mem L) \<and> image_ok X key (sl_seq L) (sl_asked L) (sl_disk L)
     \<and> (\<forall>t j. sl_jobs L t = Some j \<longrightarrow> job_ok X key L j)
     \<and> (\<forall>t t' j j' s. sl_jobs L t = Some j \<and> sl_jobs L t' = Some j' \<and> job_seq j = Some s \<and> job_seq j' = Some s \<longrightarrow> t = t')
     \<and> (\<forall>(s, r) \<in> set (sl_returned L). s < sl_seq L \<and> sealed_at X key s r (sl_mem L) \<and> sealed_at X key s r (sl_disk L))
     \<and> distinct (map fst (sl_returned L))
     \<and> (\<forall>s \<in> sl_acked L. map_of (sl_mem L) (ack_key s) \<noteq> None \<and> map_of (sl_disk L) (ack_key s) \<noteq> None)"

lemma shared_okD:
  assumes "shared_ok X key L"
  shows "image_ok X key (sl_seq L) (sl_asked L) (sl_mem L)" "image_ok X key (sl_seq L) (sl_asked L) (sl_disk L)"
    "sl_jobs L t = Some j \<Longrightarrow> job_ok X key L j"
    "\<lbrakk>sl_jobs L t = Some j; sl_jobs L t' = Some j'; job_seq j = Some s; job_seq j' = Some s\<rbrakk> \<Longrightarrow> t = t'"
    "(s, r) \<in> set (sl_returned L) \<Longrightarrow> s < sl_seq L \<and> sealed_at X key s r (sl_mem L) \<and> sealed_at X key s r (sl_disk L)"
    "distinct (map fst (sl_returned L))"
    "s \<in> sl_acked L \<Longrightarrow> map_of (sl_mem L) (ack_key s) \<noteq> None \<and> map_of (sl_disk L) (ack_key s) \<noteq> None"
  using assms unfolding shared_ok_def by blast+

lemma shared_okI:
  assumes "image_ok X key (sl_seq L) (sl_asked L) (sl_mem L)" "image_ok X key (sl_seq L) (sl_asked L) (sl_disk L)"
    "\<And>t j. sl_jobs L t = Some j \<Longrightarrow> job_ok X key L j"
    "\<And>t t' j j' s. \<lbrakk>sl_jobs L t = Some j; sl_jobs L t' = Some j'; job_seq j = Some s; job_seq j' = Some s\<rbrakk> \<Longrightarrow> t = t'"
    "\<And>s r. (s, r) \<in> set (sl_returned L) \<Longrightarrow> s < sl_seq L \<and> sealed_at X key s r (sl_mem L) \<and> sealed_at X key s r (sl_disk L)"
    "distinct (map fst (sl_returned L))"
    "\<And>s. s \<in> sl_acked L \<Longrightarrow> map_of (sl_mem L) (ack_key s) \<noteq> None \<and> map_of (sl_disk L) (ack_key s) \<noteq> None"
  shows "shared_ok X key L"
  unfolding shared_ok_def using assms by blast

lemma image_ok_rec:
  "image_ok X key n A d \<Longrightarrow> map_of d (rec_key s) = Some v \<Longrightarrow> s < n \<and> (\<exists>r. ser X (seal_envelope X key r) = Some v)"
  unfolding image_ok_def by (metis rec_key_inject rec_key_prefix)

lemma image_ok_crash:
  assumes "image_ok X key n A mem" and "image_ok X key n A disk" and "crash_image mem disk d"
  shows "image_ok X key n A d"
  unfolding image_ok_def
proof (intro conjI allI impI)
  show "kv_ok d" using assms(3) by (simp add: crash_image_def)
  show "\<exists>s r. s < n \<and> k = rec_key s \<and> ser X (seal_envelope X key r) = Some v"
    if "map_of d k = Some v" "starts_with k ''rec:''" for k v
    using that assms unfolding image_ok_def crash_image_def by metis
  show "s \<in> A" if "map_of d (ack_key s) \<noteq> None" for s
    using that assms unfolding image_ok_def crash_image_def by metis
qed

lemma sealed_at_crash:
  "sealed_at X key s r mem \<Longrightarrow> sealed_at X key s r disk \<Longrightarrow> crash_image mem disk d \<Longrightarrow> sealed_at X key s r d"
  unfolding sealed_at_def crash_image_def by metis

lemma image_ok_put_rec:
  "\<lbrakk>image_ok X key n A d; s < n; ser X (seal_envelope X key r) = Some v\<rbrakk> \<Longrightarrow> image_ok X key n A (kv_put (rec_key s) v d)"
  by (auto simp: image_ok_def kv_put_map_of kv_put_sorted)

lemma image_ok_put_ack: "image_ok X key n A d \<Longrightarrow> image_ok X key n (insert s A) (kv_put (ack_key s) v d)"
  by (auto simp: image_ok_def kv_put_map_of kv_put_sorted)

lemma image_ok_mono: "image_ok X key n A d \<Longrightarrow> n \<le> m \<Longrightarrow> A \<subseteq> B \<Longrightarrow> image_ok X key m B d"
  unfolding image_ok_def by (meson less_le_trans subsetD)

lemma sealed_at_put_rec:
  "kv_ok d \<Longrightarrow> sealed_at X key s' r' (kv_put (rec_key s) v d)
    \<longleftrightarrow> (if s' = s then ser X (seal_envelope X key r') = Some v else sealed_at X key s' r' d)"
  by (auto simp: sealed_at_def kv_put_map_of)

lemma sealed_at_put_ack [simp]: "kv_ok d \<Longrightarrow> sealed_at X key s' r' (kv_put (ack_key s) v d) \<longleftrightarrow> sealed_at X key s' r' d"
  by (simp add: sealed_at_def kv_put_map_of)

text \<open>The counter of a reopened image is above all its records.\<close>

lemma image_ok_reopen:
  assumes "image_ok X key n A d"
  shows "image_ok X key (wal_seq (open_with_key d k')) A d"
    and "map_of d (rec_key s) \<noteq> None \<Longrightarrow> s < wal_seq (open_with_key d k')"
proof -
  have keys: "\<exists>s. s \<noteq> - 1 \<and> k = rec_key s" if "(k, v) \<in> set d" "starts_with k ''rec:''" for k v
  proof -
    have "map_of d k \<noteq> None" using that(1) by (metis fst_conv image_eqI map_of_eq_None_iff)
    then obtain s where "s < n" "k = rec_key s"
      using assms \<open>starts_with k _\<close> by (auto simp: image_ok_def)
    then show ?thesis by (metis max_word_max not_less)
  qed
  show above: "s < wal_seq (open_with_key d k')" if "map_of d (rec_key s) \<noteq> None" for s
    using open_with_key_above [of d s k'] keys that assms by (simp add: image_ok_def kv_contains_def)
  show "image_ok X key (wal_seq (open_with_key d k')) A d"
    using assms above unfolding image_ok_def by (metis option.distinct(1))
qed

lemma shared_ok_fresh: "shared_ok X key fresh_log"
  by (simp add: shared_ok_def fresh_log_def image_ok_def)

lemmas log_step_defs = draw_number_def insert_entry_def flush_entry_def insert_ack_def flush_ack_def reopen_image_def

lemma job_ok_seq: "job_ok X key L j \<Longrightarrow> job_seq j = Some s \<Longrightarrow> s < sl_seq L \<and> s \<notin> fst ` set (sl_returned L)"
  by (cases j) auto

lemma ok_number:
  assumes ok: "shared_ok X key L" and t: "sl_jobs L t = None" and "sl_seq L \<noteq> - 1"
  shows "shared_ok X key (draw_number t r L)"
proof -
  let ?n = "sl_seq L"
  have n: "?n < ?n + 1" "s < ?n \<Longrightarrow> s < ?n + 1" for s using assms(3) by (simp_all add: word_less_Suc)
  have mono: "image_ok X key ?n A d \<Longrightarrow> image_ok X key (?n + 1) A d" for A d
    using image_ok_mono [of X key ?n A d "?n + 1" A] n(1) by simp
  have fresh: "map_of d (rec_key ?n) = None" if "image_ok X key ?n A d" for A d
    using image_ok_rec [OF that, of ?n] by (cases "map_of d (rec_key ?n)") auto
  have ret: "?n \<notin> fst ` set (sl_returned L)" using shared_okD(5) [OF ok] by fastforce
  have unused: "job_seq j \<noteq> Some ?n" if "sl_jobs L t' = Some j" for t' j
    using job_ok_seq [OF shared_okD(3) [OF ok that]] by auto
  have keep: "job_ok X key (draw_number t r L) j" if "sl_jobs L t' = Some j" for t' j
    using shared_okD(3) [OF ok that] n(2) by (cases j) (auto simp: draw_number_def)
  show ?thesis
  proof (rule shared_okI)
    show "job_ok X key (draw_number t r L) j" if "sl_jobs (draw_number t r L) t' = Some j" for t' j
      using that keep n(1) ret fresh [OF shared_okD(1) [OF ok]] fresh [OF shared_okD(2) [OF ok]]
      by (cases "t' = t") (auto simp: draw_number_def)
    show "t1 = t2" if "sl_jobs (draw_number t r L) t1 = Some j1" "sl_jobs (draw_number t r L) t2 = Some j2"
        "job_seq j1 = Some m" "job_seq j2 = Some m" for t1 t2 j1 j2 m
      using that unused shared_okD(4) [OF ok] by (auto simp: draw_number_def split: if_splits)
  qed (use shared_okD [OF ok] mono n(2) in \<open>simp_all add: draw_number_def\<close>)
qed

lemma ok_insert:
  assumes ok: "shared_ok X key L" and job: "sl_jobs L t = Some (Numbered s r)" and v: "ser X (seal_envelope X key r) = Some v"
  shows "shared_ok X key (insert_entry t s r v L)"
proof -
  let ?L = "insert_entry t s r v L"
  have s: "s < sl_seq L" "s \<notin> fst ` set (sl_returned L)" using shared_okD(3) [OF ok job] by simp_all
  have k: "kv_ok (sl_mem L)" using shared_okD(1) [OF ok] by (simp add: image_ok_def)
  have other: "job_seq j \<noteq> Some s" if "sl_jobs L t' = Some j" "t' \<noteq> t" for t' j
    using shared_okD(4) [OF ok that(1) job, of s] that(2) by auto
  have keep: "job_ok X key ?L j" if "sl_jobs L t' = Some j" "t' \<noteq> t" for t' j
    using shared_okD(3) [OF ok that(1)] other [OF that] k
    by (cases j) (auto simp: insert_entry_def kv_put_map_of sealed_at_put_rec)
  show ?thesis
  proof (rule shared_okI)
    show "job_ok X key ?L j" if "sl_jobs ?L t' = Some j" for t' j
      using that keep s k v by (cases "t' = t") (auto simp: insert_entry_def sealed_at_put_rec)
    show "t1 = t2" if "sl_jobs ?L t1 = Some j1" "sl_jobs ?L t2 = Some j2" "job_seq j1 = Some m" "job_seq j2 = Some m"
      for t1 t2 j1 j2 m
      using that other shared_okD(4) [OF ok] by (auto simp: insert_entry_def split: if_splits)
    show "s' < sl_seq ?L \<and> sealed_at X key s' r' (sl_mem ?L) \<and> sealed_at X key s' r' (sl_disk ?L)"
      if "(s', r') \<in> set (sl_returned ?L)" for s' r'
    proof -
      have i: "(s', r') \<in> set (sl_returned L)" using that by (simp add: insert_entry_def)
      then have "s' \<noteq> s" using s(2) by force
      with shared_okD(5) [OF ok i] k show ?thesis by (simp add: insert_entry_def sealed_at_put_rec)
    qed
  qed (use shared_okD [OF ok] s k image_ok_put_rec [OF shared_okD(1) [OF ok] s(1) v] in
      \<open>simp_all add: insert_entry_def kv_put_map_of\<close>)
qed

lemma ok_flush:
  assumes ok: "shared_ok X key L" and job: "sl_jobs L t = Some (Inserted s r)"
  shows "shared_ok X key (flush_entry t s r L)"
proof -
  let ?L = "flush_entry t s r L"
  have s: "s < sl_seq L" "s \<notin> fst ` set (sl_returned L)" "sealed_at X key s r (sl_mem L)"
    using shared_okD(3) [OF ok job] by simp_all
  have other: "job_seq j \<noteq> Some s" if "sl_jobs L t' = Some j" "t' \<noteq> t" for t' j
    using shared_okD(4) [OF ok that(1) job, of s] that(2) by auto
  have keep: "job_ok X key ?L j" if "sl_jobs L t' = Some j" "t' \<noteq> t" for t' j
    using shared_okD(3) [OF ok that(1)] other [OF that] by (cases j) (auto simp: flush_entry_def)
  show ?thesis
  proof (rule shared_okI)
    show "job_ok X key ?L j" if "sl_jobs ?L t' = Some j" for t' j
      using that keep by (auto simp: flush_entry_def split: if_splits)
    show "t1 = t2" if "sl_jobs ?L t1 = Some j1" "sl_jobs ?L t2 = Some j2" "job_seq j1 = Some m" "job_seq j2 = Some m"
      for t1 t2 j1 j2 m
      using that shared_okD(4) [OF ok] by (auto simp: flush_entry_def split: if_splits)
  qed (use shared_okD [OF ok] s in \<open>auto simp: flush_entry_def\<close>)
qed

lemma ok_insert_ack:
  assumes ok: "shared_ok X key L" and t: "sl_jobs L t = None"
  shows "shared_ok X key (insert_ack X t s L)"
proof -
  let ?L = "insert_ack X t s L"
  have k: "kv_ok (sl_mem L)" using shared_okD(1) [OF ok] by (simp add: image_ok_def)
  have keep: "job_ok X key ?L j" if "sl_jobs L t' = Some j" for t' j
    using shared_okD(3) [OF ok that] k by (cases j) (auto simp: insert_ack_def kv_put_map_of)
  show ?thesis
  proof (rule shared_okI)
    show "job_ok X key ?L j" if "sl_jobs ?L t' = Some j" for t' j
      using that keep k by (cases "t' = t") (auto simp: insert_ack_def kv_put_map_of)
    show "t1 = t2" if "sl_jobs ?L t1 = Some j1" "sl_jobs ?L t2 = Some j2" "job_seq j1 = Some m" "job_seq j2 = Some m"
      for t1 t2 j1 j2 m
      using that shared_okD(4) [OF ok] by (auto simp: insert_ack_def split: if_splits)
    show "image_ok X key (sl_seq ?L) (sl_asked ?L) (sl_mem ?L)"
      using image_ok_put_ack [OF shared_okD(1) [OF ok]] by (simp add: insert_ack_def)
    show "image_ok X key (sl_seq ?L) (sl_asked ?L) (sl_disk ?L)"
      using image_ok_mono [OF shared_okD(2) [OF ok]] by (simp add: insert_ack_def subset_insertI)
  qed (use shared_okD [OF ok] k in \<open>auto simp: insert_ack_def kv_put_map_of\<close>)
qed

lemma ok_flush_ack:
  assumes ok: "shared_ok X key L" and job: "sl_jobs L t = Some (AckInserted s)"
  shows "shared_ok X key (flush_ack t s L)"
proof -
  let ?L = "flush_ack t s L"
  have s: "map_of (sl_mem L) (ack_key s) \<noteq> None" using shared_okD(3) [OF ok job] by simp
  have keep: "job_ok X key ?L j" if "sl_jobs L t' = Some j" for t' j
    using shared_okD(3) [OF ok that] by (cases j) (auto simp: flush_ack_def)
  show ?thesis
  proof (rule shared_okI)
    show "job_ok X key ?L j" if "sl_jobs ?L t' = Some j" for t' j
      using that keep by (auto simp: flush_ack_def split: if_splits)
    show "t1 = t2" if "sl_jobs ?L t1 = Some j1" "sl_jobs ?L t2 = Some j2" "job_seq j1 = Some m" "job_seq j2 = Some m"
      for t1 t2 j1 j2 m
      using that shared_okD(4) [OF ok] by (auto simp: flush_ack_def split: if_splits)
  qed (use shared_okD [OF ok] s in \<open>auto simp: flush_ack_def\<close>)
qed

lemma ok_give_up:
  assumes ok: "shared_ok X key L"
  shows "shared_ok X key (L\<lparr>sl_jobs := (sl_jobs L)(t := None)\<rparr>)"
proof (rule shared_okI)
  let ?L = "L\<lparr>sl_jobs := (sl_jobs L)(t := None)\<rparr>"
  have keep: "job_ok X key L j = job_ok X key ?L j" for j by (cases j) simp_all
  show "job_ok X key ?L j" if "sl_jobs ?L t' = Some j" for t' j
    using that shared_okD(3) [OF ok] keep by (auto split: if_splits)
  show "t1 = t2" if "sl_jobs ?L t1 = Some j1" "sl_jobs ?L t2 = Some j2" "job_seq j1 = Some m" "job_seq j2 = Some m"
    for t1 t2 j1 j2 m
    using that shared_okD(4) [OF ok] by (auto split: if_splits)
qed (use shared_okD [OF ok] in \<open>simp_all\<close>)

lemma ok_image:
  assumes ok: "shared_ok X key L" and d: "crash_image (sl_mem L) (sl_disk L) d"
  shows "image_ok X key (sl_seq L) (sl_asked L) d"
    and "(s, r) \<in> set (sl_returned L) \<Longrightarrow> sealed_at X key s r d"
    and "s \<in> sl_acked L \<Longrightarrow> map_of d (ack_key s) \<noteq> None"
    and "\<lbrakk>map_of (sl_mem L) k = None; map_of (sl_disk L) k = None\<rbrakk> \<Longrightarrow> map_of d k = None"
  using image_ok_crash [OF shared_okD(1,2) [OF ok] d] sealed_at_crash [OF _ _ d] shared_okD(5,7) [OF ok] d
  unfolding crash_image_def by metis+

lemma ok_background:
  assumes ok: "shared_ok X key L" and d: "crash_image (sl_mem L) (sl_disk L) d"
  shows "shared_ok X key (L\<lparr>sl_disk := d\<rparr>)"
proof (rule shared_okI)
  show "job_ok X key (L\<lparr>sl_disk := d\<rparr>) j" if "sl_jobs (L\<lparr>sl_disk := d\<rparr>) t = Some j" for t j
    using shared_okD(3) [OF ok, of t j] that ok_image(4) [OF ok d] by (cases j) simp_all
  show "t1 = t2" if "sl_jobs (L\<lparr>sl_disk := d\<rparr>) t1 = Some j1" "sl_jobs (L\<lparr>sl_disk := d\<rparr>) t2 = Some j2"
    "job_seq j1 = Some m" "job_seq j2 = Some m" for t1 t2 j1 j2 m
    using that shared_okD(4) [OF ok] by simp
qed (use shared_okD [OF ok] ok_image [OF ok d] in \<open>simp_all\<close>)

lemma ok_crash:
  assumes ok: "shared_ok X key L" and d: "crash_image (sl_mem L) (sl_disk L) d"
  shows "shared_ok X key (reopen_image key d L)"
proof (rule shared_okI)
  let ?L = "reopen_image key d L"
  show "s < sl_seq ?L \<and> sealed_at X key s r (sl_mem ?L) \<and> sealed_at X key s r (sl_disk ?L)"
    if "(s, r) \<in> set (sl_returned ?L)" for s r
  proof -
    have i: "sealed_at X key s r d" using that ok_image(2) [OF ok d] by (simp add: reopen_image_def)
    then have "s < wal_seq (open_with_key d key)"
      using image_ok_reopen(2) [OF ok_image(1) [OF ok d], of s key] unfolding sealed_at_def by blast
    with i show ?thesis by (simp add: reopen_image_def)
  qed
qed (use shared_okD [OF ok] image_ok_reopen(1) [OF ok_image(1) [OF ok d]] ok_image(3) [OF ok d] in
    \<open>simp_all add: reopen_image_def\<close>)

lemma shared_ok_step: "shared_step X key L L' \<Longrightarrow> shared_ok X key L \<Longrightarrow> shared_ok X key L'"
  by (induction rule: shared_step.induct)
    (blast intro: ok_number ok_insert ok_flush ok_insert_ack ok_flush_ack ok_give_up ok_background ok_crash)+

lemma shared_ok_reach: "shared_reach X key L \<Longrightarrow> shared_ok X key L"
  by (induction rule: shared_reach.induct) (simp_all add: shared_ok_fresh shared_ok_step)

section \<open>The append of one thread\<close>

lemma two_steps: "\<lbrakk>shared_step X key L M; shared_step X key M N\<rbrakk> \<Longrightarrow> (shared_step X key)\<^sup>*\<^sup>* L N"
  by (meson converse_rtranclp_into_rtranclp r_into_rtranclp)

lemma append_is_steps:
  assumes a: "wal_append X io r w = (res, w')" and t: "sl_jobs L t = None" and seq: "wal_seq w \<noteq> - 1"
    and L: "sl_mem L = wal_db w" "sl_seq L = wal_seq w" "machine_key w = key"
  shows "\<exists>L'. (shared_step X key)\<^sup>*\<^sup>* L L' \<and> sl_mem L' = wal_db w' \<and> sl_seq L' = wal_seq w'
    \<and> (\<forall>s. res = Inr s \<longrightarrow> sl_returned L' = (s, r) # sl_returned L \<and> sl_disk L' = sl_mem L')"
proof (cases "length (payload_json r) > MAX_WAL_PAYLOAD_BYTES")
  case True
  with a L have "(shared_step X key)\<^sup>*\<^sup>* L L \<and> sl_mem L = wal_db w' \<and> sl_seq L = wal_seq w' \<and> (\<forall>s. res \<noteq> Inr s)"
    by (auto simp: wal_append_def)
  then show ?thesis by blast
next
  case False
  let ?n = "sl_seq L"
  let ?L1 = "draw_number t r L"
  have n: "shared_step X key L ?L1" using shared_step.number [of L t r X key] t False seq L by simp
  show ?thesis
  proof (cases "ser X (seal_envelope X key r)")
    case None
    with a False L n have "(shared_step X key)\<^sup>*\<^sup>* L ?L1 \<and> sl_mem ?L1 = wal_db w' \<and> sl_seq ?L1 = wal_seq w'
        \<and> (\<forall>s. res \<noteq> Inr s)"
      by (auto simp: wal_append_def Let_def draw_number_def)
    then show ?thesis by blast
  next
    case (Some v)
    let ?L2 = "insert_entry t ?n r v ?L1"
    let ?L3 = "flush_entry t ?n r ?L2"
    have "shared_step X key ?L1 ?L2"
      using shared_step.insert [where X = X and key = key and L = ?L1 and t = t] Some by (simp add: draw_number_def)
    with n have i: "(shared_step X key)\<^sup>*\<^sup>* L ?L2" by (rule two_steps)
    have "shared_step X key ?L2 ?L3"
      using shared_step.flush [where X = X and key = key and L = ?L2 and t = t] by (simp add: insert_entry_def)
    with i have f: "(shared_step X key)\<^sup>*\<^sup>* L ?L3" by (rule rtranclp.rtrancl_into_rtrancl)
    show ?thesis
    proof (cases io)
      case IoOk
      with a False L Some have "sl_mem ?L3 = wal_db w' \<and> sl_seq ?L3 = wal_seq w' \<and> res = Inr ?n"
        by (auto simp: wal_append_def Let_def log_step_defs)
      with f show ?thesis by (intro exI [of _ ?L3]) (simp add: log_step_defs)
    next
      case InsertFails
      with a False L Some have "sl_mem ?L1 = wal_db w' \<and> sl_seq ?L1 = wal_seq w' \<and> (\<forall>s. res \<noteq> Inr s)"
        by (auto simp: wal_append_def Let_def log_step_defs)
      with n show ?thesis by (intro exI [of _ ?L1]) (simp add: r_into_rtranclp)
    next
      case FlushFails
      with a False L Some have "sl_mem ?L2 = wal_db w' \<and> sl_seq ?L2 = wal_seq w' \<and> (\<forall>s. res \<noteq> Inr s)"
        by (auto simp: wal_append_def Let_def log_step_defs)
      with i show ?thesis by (intro exI [of _ ?L2]) simp
    qed
  qed
qed

section \<open>Replay of an image\<close>

lemma image_items:
  assumes d: "image_ok X key n A d" and X: "serde_ok X"
  shows "\<exists>ps. iter_from X (open_with_key d key) 0 = map Inr ps
    \<and> (\<forall>s r. sealed_at X key s r d \<longrightarrow> (s, r) \<in> set ps)"
proof -
  let ?items = "iter_from X (open_with_key d key) 0"
  have ok: "kv_ok d" using d by (simp add: image_ok_def)
  have items: "?items = List.map_filter (wal_item X key) (kv_range_from (rec_key 0) d)"
    by (simp add: iter_from_def open_with_key_def)
  have good: "\<exists>p. x = Inr p" if x: "x \<in> set ?items" for x
  proof -
    obtain k v where kv: "(k, v) \<in> set d" and it: "wal_item X key (k, v) = Some x"
      using x by (auto simp: items List.map_filter_def kv_range_from_def)
    have "starts_with k ''rec:''" using it by (auto simp: wal_item_def split: if_splits)
    have "map_of d k = Some v" using ok kv by (simp add: kv_ok_def strict_sorted_iff)
    with d \<open>starts_with k _\<close> obtain s r where "k = rec_key s" "ser X (seal_envelope X key r) = Some v"
      unfolding image_ok_def by blast
    with it wal_item_sealed [of X key r v s] X show ?thesis by auto
  qed
  then obtain ps where ps: "?items = map Inr ps" using ex_map_conv [of ?items Inr] by blast
  have "(s, r) \<in> set ps" if sealed: "sealed_at X key s r d" for s r
  proof -
    obtain v where v: "map_of d (rec_key s) = Some v" "ser X (seal_envelope X key r) = Some v"
      using sealed unfolding sealed_at_def by (metis not_None_eq)
    have "(rec_key s, v) \<in> set (kv_range_from (rec_key 0) d)"
      using map_of_SomeD [OF v(1)] by (simp add: kv_range_from_def rec_key_le)
    then have "Inr (s, r) \<in> set ?items"
      using wal_item_sealed [OF v(2) X, of s] by (force simp: items List.map_filter_def)
    then show ?thesis by (auto simp: ps)
  qed
  with ps show ?thesis by blast
qed

section \<open>Property\<close>

text \<open>C2: threads append and acknowledge in any interleaving of their steps, each drawing its number atomically,
  with failures, background writes and crashes in between; a crash leaves, entry by entry, what was in memory or what was
  on disk.  After a further crash and reopening, the numbers returned by completed appends are still distinct, their records are read
  back and lie below the new counter, replay at startup succeeds and delivers every one whose acknowledgement no
  thread has begun to store, and none of the acknowledged ones.\<close>

theorem concurrent_appends_kept:
  assumes "shared_reach X key L" and "serde_ok X" and "crash_image (sl_mem L) (sl_disk L) d"
  shows "distinct (map fst (sl_returned L)) \<and> (\<exists>out. unacked X (open_with_key d key) = Inr out
    \<and> fst ` set out \<inter> sl_acked L = {}
    \<and> (\<forall>(s, r) \<in> set (sl_returned L). Inr (s, r) \<in> set (iter_from X (open_with_key d key) 0)
        \<and> s < wal_seq (open_with_key d key) \<and> (s \<notin> sl_asked L \<longrightarrow> (s, r) \<in> set out)))"
proof -
  note ok = shared_ok_reach [OF assms(1)]
  note image = ok_image [OF ok assms(3)]
  obtain ps where ps: "iter_from X (open_with_key d key) 0 = map Inr ps"
      "\<And>s r. sealed_at X key s r d \<Longrightarrow> (s, r) \<in> set ps"
    using image_items [OF image(1) assms(2)] by blast
  let ?out = "filter (\<lambda>p. \<not> kv_contains (ack_key (fst p)) d) ps"
  have out: "unacked X (open_with_key d key) = Inr ?out"
    by (simp add: unacked_def ps unacked_loop_records) (simp add: open_with_key_def)
  have acked: "fst ` set ?out \<inter> sl_acked L = {}" using image(3) by (fastforce simp: kv_contains_def)
  have kept: "Inr (s, r) \<in> set (iter_from X (open_with_key d key) 0) \<and> s < wal_seq (open_with_key d key)
      \<and> (s \<notin> sl_asked L \<longrightarrow> (s, r) \<in> set ?out)" if "(s, r) \<in> set (sl_returned L)" for s r
  proof (intro conjI impI)
    note sealed = image(2) [OF that]
    show "Inr (s, r) \<in> set (iter_from X (open_with_key d key) 0)" using ps(2) [OF sealed] by (simp add: ps(1))
    show "s < wal_seq (open_with_key d key)"
      using sealed image_ok_reopen(2) [OF image(1), of s key] unfolding sealed_at_def by blast
    show "(s, r) \<in> set ?out" if "s \<notin> sl_asked L"
      using ps(2) [OF sealed] that image(1) by (auto simp: image_ok_def kv_contains_def)
  qed
  show ?thesis using shared_okD(6) [OF ok] out acked kept by blast
qed

text \<open>Two threads draw 1 and 2, insert in the opposite order; thread 0 has returned and thread 1 has not when the
  machine crashes, and the entry of thread 1 is lost.\<close>

abbreviation toy_log1 :: "(wal_envelope option) shared_log" where
  "toy_log1 \<equiv> draw_number 1 (toy_record 6) (draw_number 0 (toy_record 5) fresh_log)"

abbreviation toy_log2 :: "(wal_envelope option) shared_log" where
  "toy_log2 \<equiv> flush_entry 0 1 (toy_record 5)
     (insert_entry 0 1 (toy_record 5) (Some (seal_envelope toy_codec ''k'' (toy_record 5))) toy_log1)"

abbreviation toy_log3 :: "(wal_envelope option) shared_log" where
  "toy_log3 \<equiv> insert_entry 1 2 (toy_record 6) (Some (seal_envelope toy_codec ''k'' (toy_record 6))) toy_log2"

lemma toy_reach1: "shared_reach toy_codec ''k'' toy_log1"
proof -
  have "shared_reach toy_codec ''k'' (draw_number 0 (toy_record 5) fresh_log)"
    by (rule shared_reach.step [OF shared_reach.start shared_step.number])
      (simp_all add: fresh_log_def toy_record_def MAX_WAL_PAYLOAD_BYTES_def)
  then show ?thesis
    by (rule shared_reach.step [OF _ shared_step.number])
      (simp_all add: draw_number_def fresh_log_def toy_record_def MAX_WAL_PAYLOAD_BYTES_def)
qed

lemma toy_reach2: "shared_reach toy_codec ''k'' toy_log2"
  by (rule shared_reach.step [OF shared_reach.step [OF toy_reach1 shared_step.insert] shared_step.flush])
    (simp_all add: log_step_defs fresh_log_def toy_codec_def)

lemma toy_reach3: "shared_reach toy_codec ''k'' toy_log3"
  by (rule shared_reach.step [OF toy_reach2 shared_step.insert]) (simp_all add: log_step_defs fresh_log_def toy_codec_def)

theorem concurrent_appends_kept_witness:
  "\<exists>out. unacked toy_codec (open_with_key (sl_disk toy_log3) ''k'') = Inr out \<and> (1, toy_record 5) \<in> set out
    \<and> 1 < wal_seq (open_with_key (sl_disk toy_log3) ''k'')"
proof -
  have "crash_image (sl_mem toy_log3) (sl_disk toy_log3) (sl_disk toy_log3)"
    by (simp add: crash_image_def log_step_defs fresh_log_def kv_ok_def)
  note kept = concurrent_appends_kept [OF toy_reach3 toy_serde_ok this]
  have "(1, toy_record 5) \<in> set (sl_returned toy_log3)" "1 \<notin> sl_asked toy_log3"
    by (simp_all add: log_step_defs fresh_log_def)
  with kept show ?thesis by blast
qed

end
