(* ===== verification/Json.thy ===== *)
theory Json
  imports Prelude Complex_Main
begin

text \<open>
  \<open>serde_json::Value\<close> as the code builds and inspects it.  An object is \<open>serde_json::Map\<close>
  without the \<open>preserve_order\<close> feature: a map ordered by key, here an association list in
  ascending key order.  A number keeps its decimal value as a rational.
\<close>

datatype json =
    JNull
  | JBool bool
  | JNum rat
  | JStr string
  | JArr "json list"
  | JObj "(string \<times> json) list"

text \<open>\<open>Value::get(key)\<close>, \<open>as_str\<close>, \<open>as_f64\<close>, \<open>as_object\<close>, \<open>as_array\<close>.\<close>

fun jget :: "string \<Rightarrow> json \<Rightarrow> json option" where
  "jget k (JObj m) = map_of m k"
| "jget k _ = None"

fun as_str :: "json \<Rightarrow> string option" where
  "as_str (JStr s) = Some s"
| "as_str _ = None"

fun as_num :: "json \<Rightarrow> rat option" where
  "as_num (JNum q) = Some q"
| "as_num _ = None"

fun as_object :: "json \<Rightarrow> (string \<times> json) list option" where
  "as_object (JObj m) = Some m"
| "as_object _ = None"

fun as_array :: "json \<Rightarrow> json list option" where
  "as_array (JArr xs) = Some xs"
| "as_array _ = None"

text \<open>\<open>v.get(key).and_then(|x| x.as_str())\<close>, the access pattern of most components.\<close>

definition get_str :: "string \<Rightarrow> json \<Rightarrow> string option" where
  "get_str k v = Option.bind (jget k v) as_str"

text \<open>\<open>Map::insert\<close>, \<open>Map::remove\<close> and \<open>entry(k).or_insert(v)\<close>.\<close>

fun obj_insert :: "string \<Rightarrow> 'v \<Rightarrow> (string \<times> 'v) list \<Rightarrow> (string \<times> 'v) list" where
  "obj_insert k v [] = [(k, v)]"
| "obj_insert k v ((k', v') # m) =
     (if k < k' then (k, v) # (k', v') # m
      else if k = k' then (k, v) # m
      else (k', v') # obj_insert k v m)"

definition obj_remove :: "string \<Rightarrow> (string \<times> 'v) list \<Rightarrow> (string \<times> 'v) list" where
  "obj_remove k m = filter (\<lambda>p. fst p \<noteq> k) m"

definition obj_or_insert :: "string \<Rightarrow> 'v \<Rightarrow> (string \<times> 'v) list \<Rightarrow> (string \<times> 'v) list" where
  "obj_or_insert k v m = (if map_of m k = None then obj_insert k v m else m)"

definition obj_ok :: "(string \<times> 'v) list \<Rightarrow> bool" where
  "obj_ok m \<longleftrightarrow> sorted_wrt (<) (map fst m)"

lemma obj_insert_keys: "fst ` set (obj_insert k v m) = insert k (fst ` set m)"
  by (induction k v m rule: obj_insert.induct) auto

lemma obj_insert_ok: "obj_ok m \<Longrightarrow> obj_ok (obj_insert k v m)"
proof (induction k v m rule: obj_insert.induct)
  case (2 k v k' v' m)
  have keys: "fst ` set (obj_insert k v m) = insert k (fst ` set m)"
    by (rule obj_insert_keys)
  from 2 show ?case
    by (cases "k < k'"; cases "k = k'") (auto simp: obj_ok_def keys dest: less_trans)
qed (simp add: obj_ok_def)

lemma obj_insert_map_of: "obj_ok m \<Longrightarrow> map_of (obj_insert k v m) = (map_of m)(k \<mapsto> v)"
  by (induction k v m rule: obj_insert.induct) (auto simp: obj_ok_def fun_eq_iff)

lemma obj_remove_ok: "obj_ok m \<Longrightarrow> obj_ok (obj_remove k m)"
  by (simp add: obj_ok_def obj_remove_def) (metis sorted_wrt_filter sorted_wrt_map)

lemma obj_remove_map_of: "map_of (obj_remove k m) = (map_of m)(k := None)"
  by (induction m) (auto simp: obj_remove_def fun_eq_iff)

lemma obj_or_insert_ok: "obj_ok m \<Longrightarrow> obj_ok (obj_or_insert k v m)"
  by (simp add: obj_or_insert_def obj_insert_ok)

lemma obj_or_insert_map_of:
  "obj_ok m \<Longrightarrow> map_of (obj_or_insert k v m) =
    (if map_of m k = None then (map_of m)(k \<mapsto> v) else map_of m)"
  by (simp add: obj_or_insert_def obj_insert_map_of)

text \<open>Ordered objects with the same entries are equal; inserting what is there changes nothing.\<close>

lemma obj_ext:
  assumes "obj_ok m" and "obj_ok m'" and "map_of m = map_of m'"
  shows "m = m'"
proof (rule map_sorted_distinct_set_unique [where f = fst])
  have d: "distinct (map fst m)" "distinct (map fst m')"
    using assms by (auto simp: obj_ok_def strict_sorted_iff)
  then show "set m = set m'"
    using assms(3) by (metis map_of_inject_set)
  with d show "inj_on fst (set m \<union> set m')"
    by (simp add: distinct_map)
qed (use assms in \<open>auto simp: obj_ok_def strict_sorted_iff\<close>)

lemma obj_insert_same: "obj_ok m \<Longrightarrow> map_of m k = Some v \<Longrightarrow> obj_insert k v m = m"
  by (rule obj_ext) (auto simp: obj_insert_ok obj_insert_map_of fun_upd_idem)

lemma obj_insert_twice: "obj_ok m \<Longrightarrow> obj_insert k v (obj_insert k v' m) = obj_insert k v m"
  by (rule obj_ext) (auto simp: obj_insert_ok obj_insert_map_of)

lemma obj_remove_absent: "map_of m k = None \<Longrightarrow> obj_remove k m = m"
  by (auto simp: obj_remove_def map_of_eq_None_iff filter_id_conv)

text \<open>Every object of a value is ordered.\<close>

fun json_ok :: "json \<Rightarrow> bool" where
  "json_ok (JArr xs) = list_all json_ok xs"
| "json_ok (JObj m) = (obj_ok m \<and> list_all (\<lambda>p. json_ok (snd p)) m)"
| "json_ok _ = True"

end
