(* ===== verification/Provenance.thy ===== *)
theory Provenance
  imports Json
begin

text \<open>
  Tamper-evident envelopes of \<open>crates/amore-core/src/provenance.rs\<close>: an observation is sealed
  under a hash of its id, the hash of its predecessor and its canonical JSON, and a chain is
  checked link by link.  SHA-256 and the canonical JSON printer are parameters; the clock
  reading behind an id is an input of \<open>seal\<close>.
\<close>

definition GENESIS_PREV_HASH :: string where
  "GENESIS_PREV_HASH = replicate 64 (CHR ''0'')"

record envelope =
  env_id :: string
  prev_hash :: string
  canonical_json :: string
  env_hash :: string

definition hash_message :: "string \<Rightarrow> string \<Rightarrow> string \<Rightarrow> bytes" where
  "hash_message i p c =
     concat (map (\<lambda>part. be_bytes (of_nat (length part)) @ part) [i, p, c])"

definition compute_hash :: "(bytes \<Rightarrow> bytes) \<Rightarrow> string \<Rightarrow> string \<Rightarrow> string \<Rightarrow> string" where
  "compute_hash sha256 i p c = hex_encode (sha256 (hash_message i p c))"

definition gen_id :: "nat \<Rightarrow> string" where
  "gen_id nanos = ''obs-'' @ hex_nat nanos"

lemma gen_id_inject [simp]: "gen_id m = gen_id n \<longleftrightarrow> m = n"
  by (auto simp: gen_id_def dest: arg_cong [where f = hex_value] simp: hex_nat_val)

definition seal ::
  "(bytes \<Rightarrow> bytes) \<Rightarrow> (json \<Rightarrow> string option) \<Rightarrow> nat \<Rightarrow> string \<Rightarrow> json \<Rightarrow> string + envelope" where
  "seal sha256 to_canonical nanos prev payload =
     (case to_canonical payload of
        None \<Rightarrow> Inl ''canonical JSON error''
      | Some canonical_str \<Rightarrow>
          (let i = gen_id nanos in
           Inr \<lparr>env_id = i, prev_hash = prev, canonical_json = canonical_str,
                env_hash = compute_hash sha256 i prev canonical_str\<rparr>))"

definition verify :: "(bytes \<Rightarrow> bytes) \<Rightarrow> envelope \<Rightarrow> bool" where
  "verify sha256 e \<longleftrightarrow> compute_hash sha256 (env_id e) (prev_hash e) (canonical_json e) = env_hash e"

datatype chain_error = BrokenLink nat | BadHash nat

fun verify_from :: "(bytes \<Rightarrow> bytes) \<Rightarrow> string \<Rightarrow> nat \<Rightarrow> envelope list \<Rightarrow> chain_error + unit" where
  "verify_from sha256 expected_prev idx [] = Inr ()"
| "verify_from sha256 expected_prev idx (e # es) =
     (if prev_hash e \<noteq> expected_prev then Inl (BrokenLink idx)
      else if \<not> verify sha256 e then Inl (BadHash idx)
      else verify_from sha256 (env_hash e) (Suc idx) es)"

definition verify_chain :: "(bytes \<Rightarrow> bytes) \<Rightarrow> envelope list \<Rightarrow> chain_error + unit" where
  "verify_chain sha256 chain = verify_from sha256 GENESIS_PREV_HASH 0 chain"

section \<open>The hashed message determines the three fields\<close>

text \<open>Rust strings are shorter than \<open>2^64\<close> bytes: the length prefix does not wrap.\<close>

definition fits :: "string \<Rightarrow> bool" where
  "fits s \<longleftrightarrow> length s < 2 ^ 64"

lemma be_length_inject:
  "fits a \<Longrightarrow> fits b \<Longrightarrow> be_bytes (of_nat (length a)) = be_bytes (of_nat (length b)) \<longleftrightarrow> length a = length b"
  by (simp add: be_bytes_inject fits_def word_of_nat_eq_iff take_bit_nat_eq_self)

lemma prefixed_inject:
  assumes "fits a" and "fits b"
    and "be_bytes (of_nat (length a)) @ a @ r = be_bytes (of_nat (length b)) @ b @ r'"
  shows "a = b \<and> r = r'"
proof -
  from assms(3) have "be_bytes (of_nat (length a)) = be_bytes (of_nat (length b))" and "a @ r = b @ r'"
    by (simp_all add: append_eq_append_conv)
  with assms(1,2) show ?thesis
    by (simp add: be_length_inject append_eq_append_conv)
qed

lemma hash_message_inject:
  assumes "hash_message i p c = hash_message i' p' c'"
    and "fits i" "fits p" "fits c" "fits i'" "fits p'" "fits c'"
  shows "i = i' \<and> p = p' \<and> c = c'"
proof -
  have a: "be_bytes (of_nat (length i)) @ i @ (be_bytes (of_nat (length p)) @ p @ be_bytes (of_nat (length c)) @ c) =
      be_bytes (of_nat (length i')) @ i' @ (be_bytes (of_nat (length p')) @ p' @ be_bytes (of_nat (length c')) @ c')"
    using assms(1) by (simp add: hash_message_def)
  note 1 = prefixed_inject [OF assms(2,5) a]
  from 1 prefixed_inject [OF assms(3,6)]
  have 2: "p = p' \<and> be_bytes (of_nat (length c)) @ c = be_bytes (of_nat (length c')) @ c'" by blast
  with prefixed_inject [OF assms(4,7), of "[]" "[]"] have "c = c'" by simp
  with 1 2 show ?thesis by simp
qed

text \<open>A SHA-256 collision between two hashed messages.\<close>

definition collides :: "(bytes \<Rightarrow> bytes) \<Rightarrow> bool" where
  "collides sha256 \<longleftrightarrow> (\<exists>m m'. m \<noteq> m' \<and> sha256 m = sha256 m')"

text \<open>A message whose hash renders as the 64 zeros of \<open>GENESIS_PREV_HASH\<close>.\<close>

definition genesis_preimage :: "(bytes \<Rightarrow> bytes) \<Rightarrow> bool" where
  "genesis_preimage sha256 \<longleftrightarrow> (\<exists>m. hex_encode (sha256 m) = GENESIS_PREV_HASH)"

definition envelope_fits :: "envelope \<Rightarrow> bool" where
  "envelope_fits e \<longleftrightarrow> fits (env_id e) \<and> fits (prev_hash e) \<and> fits (canonical_json e)"

lemma same_hash_same_envelope:
  assumes "verify sha256 a" "verify sha256 b" "envelope_fits a" "envelope_fits b"
    and "env_hash a = env_hash b" and "\<not> collides sha256"
  shows "a = b"
proof -
  have "hex_encode (sha256 (hash_message (env_id a) (prev_hash a) (canonical_json a))) =
      hex_encode (sha256 (hash_message (env_id b) (prev_hash b) (canonical_json b)))"
    using assms(1,2,5) unfolding verify_def compute_hash_def by metis
  then have "sha256 (hash_message (env_id a) (prev_hash a) (canonical_json a)) =
      sha256 (hash_message (env_id b) (prev_hash b) (canonical_json b))"
    by (simp only: hex_encode_inject)
  with assms(6) have "hash_message (env_id a) (prev_hash a) (canonical_json a) =
      hash_message (env_id b) (prev_hash b) (canonical_json b)"
    by (auto simp: collides_def)
  with assms(3,4) have "env_id a = env_id b \<and> prev_hash a = prev_hash b \<and> canonical_json a = canonical_json b"
    by (intro hash_message_inject) (auto simp: envelope_fits_def)
  with assms(5) show ?thesis by (cases a, cases b) simp
qed

section \<open>Linked chains\<close>

fun head_hash :: "string \<Rightarrow> envelope list \<Rightarrow> string" where
  "head_hash p [] = p"
| "head_hash p (e # es) = head_hash (env_hash e) es"

lemma head_hash_snoc [simp]: "head_hash p (es @ [e]) = env_hash e"
  by (induction es arbitrary: p) auto

lemma head_hash_last: "es \<noteq> [] \<Longrightarrow> head_hash p es = env_hash (last es)"
  by (induction es arbitrary: p) auto

lemma verify_from_append:
  "verify_from sha256 p n (es @ fs) = Inr () \<longleftrightarrow>
    verify_from sha256 p n es = Inr () \<and> verify_from sha256 (head_hash p es) (n + length es) fs = Inr ()"
  by (induction es arbitrary: p n) auto

lemma verify_from_index: "verify_from sha256 p n es = Inr () \<longleftrightarrow> verify_from sha256 p m es = Inr ()"
  by (induction es arbitrary: p n m) auto

lemma verify_chain_snoc:
  "verify_chain sha256 (es @ [e]) = Inr () \<longleftrightarrow>
    verify_chain sha256 es = Inr () \<and> prev_hash e = head_hash GENESIS_PREV_HASH es \<and> verify sha256 e"
  by (auto simp: verify_chain_def verify_from_append)

lemma seal_result:
  "seal sha256 canon nanos prev payload = Inr e \<Longrightarrow>
    verify sha256 e \<and> prev_hash e = prev \<and> env_id e = gen_id nanos \<and> canon payload = Some (canonical_json e)"
  by (auto simp: seal_def verify_def Let_def split: option.splits)

lemma verify_hash_hex: "verify sha256 e \<Longrightarrow> \<exists>m. env_hash e = hex_encode (sha256 m)"
  unfolding verify_def compute_hash_def by metis

text \<open>Sealing on the head of a valid chain extends it to a valid chain.\<close>

theorem seal_extends_chain:
  assumes "verify_chain sha256 chain = Inr ()"
    and "seal sha256 canon nanos (head_hash GENESIS_PREV_HASH chain) payload = Inr e"
  shows "verify_chain sha256 (chain @ [e]) = Inr ()"
  using assms seal_result [OF assms(2)] by (simp add: verify_chain_snoc)

theorem seal_extends_chain_witness:
  "\<exists>e. seal (\<lambda>b. b) (\<lambda>_. Some ''{}'') 5 GENESIS_PREV_HASH JNull = Inr e \<and> verify_chain (\<lambda>b. b) [e] = Inr ()"
proof -
  have "verify_chain (\<lambda>b. b) [] = Inr ()" by (simp add: verify_chain_def)
  moreover obtain e where "seal (\<lambda>b. b) (\<lambda>_. Some ''{}'') 5 (head_hash GENESIS_PREV_HASH []) JNull = Inr e"
    by (simp add: seal_def Let_def)
  ultimately show ?thesis
    using seal_extends_chain [of "\<lambda>b. b" "[]" "\<lambda>_. Some ''{}''" 5 JNull e] by auto
qed



end
