(* ===== verification/SqliteStore.thy ===== *)
theory SqliteStore
  imports Provenance "HOL-Library.Product_Lexorder"
begin

text \<open>
  The observation store of \<open>crates/amore-core/src/sqlite_store.rs\<close> with the compaction queries
  of \<open>sqlite_compaction.rs\<close>: the two tables as row lists in insertion order, each SQL statement
  as the list function it denotes, each transaction as one state change.  Timestamps are the
  signed milliseconds of \<open>now_unix_ms\<close>; row ids compare bytewise (SQLite's BINARY collation).
  FTS5 matching and ranking are a parameter.
\<close>

record row =
  row_id :: string
  ts :: int
  source :: string
  payload :: string
  row_prev_hash :: string
  row_hash :: string

record sqlite_store =
  observations :: "row list"
  observations_fts :: "(string \<times> string) list"

definition empty_store :: sqlite_store where
  "empty_store = \<lparr>observations = [], observations_fts = []\<rparr>"

text \<open>\<open>ORDER BY ts ASC, id ASC\<close>; \<open>ORDER BY ts DESC, id DESC LIMIT 1\<close> is its last row.\<close>

definition ord_key :: "row \<Rightarrow> int \<times> string" where
  "ord_key r = (ts r, row_id r)"

definition order_asc :: "row list \<Rightarrow> row list" where
  "order_asc rows = sort_key ord_key rows"

definition newest :: "row list \<Rightarrow> row option" where
  "newest rows = (if rows = [] then None else Some (last (order_asc rows)))"

definition last_observation_hash :: "sqlite_store \<Rightarrow> string option" where
  "last_observation_hash S = map_option row_hash (newest (observations S))"

definition count_observations :: "sqlite_store \<Rightarrow> nat" where
  "count_observations S = length (observations S)"

definition extract_indexable_text :: "json \<Rightarrow> string \<Rightarrow> string" where
  "extract_indexable_text v canonical =
     (case get_str ''text'' v of Some t \<Rightarrow> t | None \<Rightarrow> canonical)"

text \<open>
  \<open>nanos\<close> and \<open>now\<close> are the two clock readings of the call (in \<open>gen_id\<close> and in
  \<open>now_unix_ms\<close>); \<open>db_fault\<close> says whether a statement of the transaction fails, in which case
  it rolls back.  A duplicate primary key fails the first insert.
\<close>

definition insert_observation ::
  "(bytes \<Rightarrow> bytes) \<Rightarrow> (json \<Rightarrow> string option) \<Rightarrow> bool \<Rightarrow> nat \<Rightarrow> int \<Rightarrow> string \<Rightarrow> json
    \<Rightarrow> sqlite_store \<Rightarrow> (string + envelope) \<times> sqlite_store" where
  "insert_observation sha256 canon db_fault nanos now src v S =
     (let prev = (case last_observation_hash S of Some h \<Rightarrow> h | None \<Rightarrow> GENESIS_PREV_HASH) in
      case seal sha256 canon nanos prev v of
        Inl e \<Rightarrow> (Inl e, S)
      | Inr env \<Rightarrow>
          if db_fault \<or> env_id env \<in> row_id ` set (observations S) then (Inl ''sqlite error'', S)
          else (Inr env,
            \<lparr>observations = observations S @
               [\<lparr>row_id = env_id env, ts = now, source = src, payload = canonical_json env,
                 row_prev_hash = prev_hash env, row_hash = env_hash env\<rparr>],
             observations_fts = observations_fts S @
               [(env_id env, extract_indexable_text v (canonical_json env))]\<rparr>))"

definition row_envelope :: "row \<Rightarrow> envelope" where
  "row_envelope r = \<lparr>env_id = row_id r, prev_hash = row_prev_hash r, canonical_json = payload r,
     env_hash = row_hash r\<rparr>"

definition verify_full_chain :: "(bytes \<Rightarrow> bytes) \<Rightarrow> sqlite_store \<Rightarrow> chain_error + unit" where
  "verify_full_chain sha256 S = verify_chain sha256 (map row_envelope (order_asc (observations S)))"

section \<open>BM25 search\<close>

definition sanitize :: "string \<Rightarrow> string" where
  "sanitize query =
     join_with '' '' (filter (\<lambda>t. t \<noteq> []) (map (filter is_alnum) (split_whitespace query)))"

record bm25_hit =
  bm_id :: string
  bm_score :: rat
  bm_source :: string
  bm_text :: string

text \<open>
  \<open>fts\<close> is FTS5: for the index content and a match expression, the matching entries with their
  (negative) rank, best first, or an error.  The join keeps entries that have an observation
  row; a limit of \<open>2^63\<close> or more becomes a negative SQL integer, which SQLite reads as no
  limit.
\<close>

type_synonym fts5 = "(string \<times> string) list \<Rightarrow> string \<Rightarrow> string + ((string \<times> string) \<times> rat) list"

definition sql_limit :: "u64 \<Rightarrow> 'a list \<Rightarrow> 'a list" where
  "sql_limit n xs = (if sint n < 0 then xs else take (unat n) xs)"

definition bm25_search :: "fts5 \<Rightarrow> string \<Rightarrow> u64 \<Rightarrow> sqlite_store \<Rightarrow> string + bm25_hit list" where
  "bm25_search fts query top_k S =
     (let q = sanitize query in
      if q = [] then Inr []
      else case fts (observations_fts S) q of
        Inl e \<Rightarrow> Inl e
      | Inr ms \<Rightarrow> Inr (sql_limit top_k
          (List.map_filter (\<lambda>((i, content), rank).
             case find (\<lambda>r. row_id r = i) (observations S) of
               None \<Rightarrow> None
             | Some r \<Rightarrow> Some \<lparr>bm_id = row_id r, bm_score = - rank, bm_source = source r, bm_text = content\<rparr>)
           ms)))"

section \<open>Compaction queries\<close>

text \<open>The cutoffs are \<open>i64\<close> arithmetic, which wraps in a release build.\<close>

definition stale_cutoff :: "int \<Rightarrow> u64 \<Rightarrow> int" where
  "stale_cutoff now window_secs = sint (word_of_int now - window_secs * 1000 :: i64)"

definition age_cutoff :: "int \<Rightarrow> nat \<Rightarrow> int" where
  "age_cutoff now max_age_ms = sint (word_of_int now - word_of_nat max_age_ms :: i64)"

definition compaction_find_stale_duplicates :: "int \<Rightarrow> u64 \<Rightarrow> sqlite_store \<Rightarrow> string list" where
  "compaction_find_stale_duplicates now window_secs S =
     (let cutoff_ms = stale_cutoff now window_secs;
          rows = observations S;
          recent = filter (\<lambda>r. cutoff_ms \<le> ts r) rows
      in map row_id (filter (\<lambda>o1.
           cutoff_ms \<le> ts o1
           \<and> 1 < length (filter (\<lambda>r. row_hash r = row_hash o1) recent)
           \<and> (\<exists>o2 \<in> set rows. row_hash o2 = row_hash o1 \<and> ts o1 < ts o2)) rows))"

definition compaction_find_aged_rows :: "int \<Rightarrow> nat \<Rightarrow> sqlite_store \<Rightarrow> string list" where
  "compaction_find_aged_rows now max_age_ms S =
     (let cutoff_ms = age_cutoff now max_age_ms in
      map row_id (filter (\<lambda>r. ts r < cutoff_ms) (observations S)))"

definition delete_id :: "string \<Rightarrow> sqlite_store \<Rightarrow> sqlite_store" where
  "delete_id i S = \<lparr>observations = filter (\<lambda>r. row_id r \<noteq> i) (observations S),
     observations_fts = filter (\<lambda>f. fst f \<noteq> i) (observations_fts S)\<rparr>"

definition compaction_delete_by_ids ::
  "bool \<Rightarrow> string list \<Rightarrow> sqlite_store \<Rightarrow> (string + unit) \<times> sqlite_store" where
  "compaction_delete_by_ids db_fault ids S =
     (if ids = [] then (Inr (), S)
      else if db_fault then (Inl ''sqlite error'', S)
      else (Inr (), fold delete_id ids S))"

text \<open>\<open>freelist_before\<close>, \<open>freelist_after\<close> and \<open>page_size\<close> are what the PRAGMAs report.\<close>

definition compaction_incremental_vacuum :: "int \<Rightarrow> int \<Rightarrow> int \<Rightarrow> nat" where
  "compaction_incremental_vacuum page_size freelist_before freelist_after =
     nat (max (freelist_before - freelist_after) 0 * page_size)"

section \<open>Lemmas\<close>

lemma set_order_asc [simp]: "set (order_asc rows) = set rows"
  by (simp add: order_asc_def)

lemma order_asc_Nil [simp]: "order_asc [] = []"
  by (simp add: order_asc_def)

lemma order_asc_eq_Nil [simp]: "order_asc rows = [] \<longleftrightarrow> rows = []"
  by (metis set_empty set_order_asc)

text \<open>A row above all others in the \<open>(ts, id)\<close> order is appended by the sort.\<close>

lemma order_asc_snoc:
  assumes "\<And>r. r \<in> set rows \<Longrightarrow> ord_key r \<le> ord_key n"
  shows "order_asc (rows @ [n]) = order_asc rows @ [n]"
proof -
  have stable: "sort_key ord_key (xs @ [n]) = sort_key ord_key xs @ [n]"
    if "\<forall>r \<in> set xs. ord_key r \<le> ord_key n" for xs
    using that
  proof (induction xs)
    case (Cons x xs)
    have ins: "insort_key ord_key x (ys @ [n]) = insort_key ord_key x ys @ [n]"
      if "ord_key x \<le> ord_key n" for ys
      using that by (induction ys) auto
    from Cons show ?case by (simp add: ins)
  qed simp
  show ?thesis unfolding order_asc_def by (rule stable) (use assms in blast)
qed

lemma last_observation_hash_head:
  "(case last_observation_hash S of Some h \<Rightarrow> h | None \<Rightarrow> GENESIS_PREV_HASH) =
    head_hash GENESIS_PREV_HASH (map row_envelope (order_asc (observations S)))"
proof (cases "observations S = []")
  case False
  then have "map row_envelope (order_asc (observations S)) \<noteq> []" by simp
  then have "head_hash GENESIS_PREV_HASH (map row_envelope (order_asc (observations S))) =
      row_hash (last (order_asc (observations S)))"
    using False by (simp add: head_hash_last last_map row_envelope_def)
  with False show ?thesis by (simp add: last_observation_hash_def newest_def)
qed (simp add: last_observation_hash_def newest_def)

lemma insert_observation_cases:
  obtains (fails) e where "insert_observation sha256 canon db_fault nanos now src v S = (Inl e, S)"
  | (inserts) env n where
      "insert_observation sha256 canon db_fault nanos now src v S =
        (Inr env, \<lparr>observations = observations S @ [n],
          observations_fts = observations_fts S @ [(env_id env, extract_indexable_text v (canonical_json env))]\<rparr>)"
      "row_envelope n = env" "ts n = now" "row_id n = gen_id nanos" "source n = src"
      "gen_id nanos \<notin> row_id ` set (observations S)"
      "seal sha256 canon nanos (head_hash GENESIS_PREV_HASH (map row_envelope (order_asc (observations S)))) v = Inr env"
proof -
  let ?prev = "head_hash GENESIS_PREV_HASH (map row_envelope (order_asc (observations S)))"
  show thesis
  proof (cases "seal sha256 canon nanos ?prev v")
    case (Inl e)
    then show ?thesis
      by (intro fails) (simp add: insert_observation_def last_observation_hash_head)
  next
    case (Inr env)
    note env = seal_result [OF Inr]
    show ?thesis
    proof (cases "db_fault \<or> env_id env \<in> row_id ` set (observations S)")
      case True
      then show ?thesis
        by (intro fails) (simp add: insert_observation_def last_observation_hash_head Inr)
    next
      case False
      let ?n = "\<lparr>row_id = env_id env, ts = now, source = src, payload = canonical_json env,
                 row_prev_hash = prev_hash env, row_hash = env_hash env\<rparr>"
      show ?thesis
        by (rule inserts [of env ?n])
          (use False Inr env in \<open>simp_all add: insert_observation_def last_observation_hash_head row_envelope_def\<close>)
    qed
  qed
qed

lemma insert_observation_mono:
  assumes "insert_observation sha256 canon db_fault nanos now src v S = (res, S')"
  shows "set (observations S) \<subseteq> set (observations S')"
  by (rule insert_observation_cases [of sha256 canon db_fault nanos now src v S])
    (use assms in auto)

lemma verify_chain_link:
  "verify_chain sha256 (es @ e # fs) = Inr () \<Longrightarrow> prev_hash e = head_hash GENESIS_PREV_HASH es"
  by (auto simp: verify_chain_def verify_from_append split: if_splits)

lemma order_asc_filter: "order_asc (filter P rows) = filter P (order_asc rows)"
  by (simp add: order_asc_def filter_sort)

lemma order_asc_sorted: "sorted (map ord_key (order_asc rows))"
  by (simp add: order_asc_def)

lemma gen_id_less:
  "length (hex_nat m) = length (hex_nat n) \<Longrightarrow> gen_id m < gen_id n \<longleftrightarrow> m < n"
  by (simp add: gen_id_def hex_nat_less)

section \<open>Histories of insertions\<close>

record insert_call =
  c_fault :: bool
  c_nanos :: nat
  c_now :: int
  c_source :: string
  c_payload :: json

fun insert_all :: "(bytes \<Rightarrow> bytes) \<Rightarrow> (json \<Rightarrow> string option) \<Rightarrow> insert_call list \<Rightarrow> sqlite_store \<Rightarrow> sqlite_store" where
  "insert_all sha256 canon [] S = S"
| "insert_all sha256 canon (c # cs) S = insert_all sha256 canon cs
     (snd (insert_observation sha256 canon (c_fault c) (c_nanos c) (c_now c) (c_source c) (c_payload c) S))"

definition call_key :: "insert_call \<Rightarrow> int \<times> string" where
  "call_key c = (c_now c, gen_id (c_nanos c))"

text \<open>A clock that never steps back: both readings grow along the calls, and the nanosecond
  readings have the same number of hexadecimal digits (16 from 2006 to 2554).\<close>

definition monotone_clock :: "insert_call list \<Rightarrow> bool" where
  "monotone_clock cs \<longleftrightarrow>
     sorted_wrt (\<lambda>a b. c_nanos a \<le> c_nanos b \<and> c_now a \<le> c_now b) cs
     \<and> (\<forall>a \<in> set cs. \<forall>b \<in> set cs. length (hex_nat (c_nanos a)) = length (hex_nat (c_nanos b)))"

lemma monotone_call_keys:
  assumes "monotone_clock (c # cs)" and "d \<in> set cs"
  shows "call_key c \<le> call_key d"
proof -
  have n: "c_nanos c \<le> c_nanos d" and t: "c_now c \<le> c_now d"
    using assms unfolding monotone_clock_def by auto
  have len: "length (hex_nat (c_nanos c)) = length (hex_nat (c_nanos d))"
    using assms unfolding monotone_clock_def by (meson list.set_intros)
  have "gen_id (c_nanos c) \<le> gen_id (c_nanos d)"
    using gen_id_less [OF len] n by (cases "c_nanos c = c_nanos d") auto
  with t show ?thesis by (auto simp: call_key_def)
qed

text \<open>In such a history the rows stay in insertion order and form a valid chain.\<close>

definition intact :: "(bytes \<Rightarrow> bytes) \<Rightarrow> sqlite_store \<Rightarrow> bool" where
  "intact sha256 S \<longleftrightarrow> order_asc (observations S) = observations S \<and> verify_full_chain sha256 S = Inr ()"

lemma intact_insert:
  assumes "intact sha256 S" and below: "\<And>r. r \<in> set (observations S) \<Longrightarrow> ord_key r \<le> (now, gen_id nanos)"
    and ins: "insert_observation sha256 canon db_fault nanos now src v S = (res, S')"
  shows "intact sha256 S' \<and> (\<forall>r \<in> set (observations S'). r \<in> set (observations S) \<or> ord_key r = (now, gen_id nanos))"
proof (cases rule: insert_observation_cases [of sha256 canon db_fault nanos now src v S, case_names fails inserts])
  case (fails e)
  with ins assms show ?thesis by auto
next
  case (inserts env n)
  have key: "ord_key n = (now, gen_id nanos)"
    using inserts by (simp add: ord_key_def)
  have asc: "order_asc (observations S @ [n]) = observations S @ [n]"
    using order_asc_snoc [of "observations S" n] below key assms(1) by (simp add: intact_def)
  have asc0: "order_asc (observations S) = observations S"
    and v: "verify_full_chain sha256 S = Inr ()"
    using assms(1) by (simp_all add: intact_def)
  have "verify_chain sha256 (map row_envelope (observations S)) = Inr ()"
    using v unfolding verify_full_chain_def asc0 .
  then have "verify_chain sha256 (map row_envelope (observations S) @ [env]) = Inr ()"
    using seal_result [OF inserts(7)] asc0 by (simp add: verify_chain_snoc)
  with inserts asc key ins show ?thesis
    by (auto simp: intact_def verify_full_chain_def)
qed

lemma intact_insert_all:
  assumes "intact sha256 S" and "monotone_clock cs"
    and "\<And>r c. r \<in> set (observations S) \<Longrightarrow> c \<in> set cs \<Longrightarrow> ord_key r \<le> call_key c"
  shows "intact sha256 (insert_all sha256 canon cs S)"
  using assms
proof (induction cs arbitrary: S)
  case (Cons c cs)
  obtain res S' where S': "insert_observation sha256 canon (c_fault c) (c_nanos c) (c_now c)
      (c_source c) (c_payload c) S = (res, S')" by fastforce
  have key: "ord_key r \<le> (c_now c, gen_id (c_nanos c))" if "r \<in> set (observations S)" for r
    using Cons.prems(3) [OF that, of c] by (simp add: call_key_def)
  note step = intact_insert [OF Cons.prems(1) key S']
  then have "intact sha256 S'" by blast
  moreover have rows: "\<forall>r \<in> set (observations S').
      r \<in> set (observations S) \<or> ord_key r = call_key c"
    using step by (simp add: call_key_def)
  moreover have "monotone_clock cs"
    using Cons.prems(2) unfolding monotone_clock_def sorted_wrt.simps
    by (metis list.set_intros(2))
  moreover have "ord_key r \<le> call_key d" if "r \<in> set (observations S')" "d \<in> set cs" for r d
  proof (cases "r \<in> set (observations S)")
    case True
    with that Cons.prems(3) show ?thesis by simp
  next
    case False
    with that rows have "ord_key r = call_key c" by blast
    with that monotone_call_keys [OF Cons.prems(2)] show ?thesis by simp
  qed
  ultimately show ?case
    using Cons.IH S' by simp
qed simp

section \<open>Properties\<close>

text \<open>C5: whatever is inserted, and whichever insertions fail, a store filled under a clock that
  never steps back passes the full chain check.\<close>

theorem store_chain_intact:
  assumes "monotone_clock cs"
  shows "verify_full_chain sha256 (insert_all sha256 canon cs empty_store) = Inr ()"
proof -
  have "intact sha256 empty_store"
    by (simp add: intact_def empty_store_def verify_full_chain_def verify_chain_def)
  then have "intact sha256 (insert_all sha256 canon cs empty_store)"
    using assms by (rule intact_insert_all) (simp add: empty_store_def)
  then show ?thesis by (simp add: intact_def)
qed

definition toy_call :: "nat \<Rightarrow> int \<Rightarrow> insert_call" where
  "toy_call n t = \<lparr>c_fault = False, c_nanos = n, c_now = t, c_source = ''s'', c_payload = JNull\<rparr>"

theorem store_chain_intact_witness:
  "verify_full_chain (\<lambda>b. b) (insert_all (\<lambda>b. b) (\<lambda>_. Some ''{}'') [toy_call 1 5, toy_call 1 5, toy_call 2 5] empty_store) = Inr ()"
proof -
  have "monotone_clock [toy_call 1 5, toy_call 1 5, toy_call 2 5]"
    by (simp add: monotone_clock_def toy_call_def hex_nat.simps)
  then show ?thesis by (rule store_chain_intact)
qed

text \<open>An insertion while the clock reads less than the newest row breaks the chain for good:
  the full check fails afterwards, although every row is exactly what the store wrote.\<close>

theorem clock_skew_breaks_chain:
  assumes "insert_observation sha256 canon db_fault nanos now src v S = (Inr env, S')"
    and "newest (observations S) = Some h" and "(now, gen_id nanos) < ord_key h"
    and "distinct (map row_hash (observations S))"
    and "\<forall>r \<in> set (observations S). row_hash r \<noteq> GENESIS_PREV_HASH"
  shows "verify_full_chain sha256 S' \<noteq> Inr ()"
proof
  assume ok: "verify_full_chain sha256 S' = Inr ()"
  let ?xs = "order_asc (observations S)"
  have ne: "?xs \<noteq> []" and h: "h = last ?xs"
    using assms(2) by (auto simp: newest_def split: if_splits)
  then have hin: "h \<in> set (observations S)" by (metis last_in_set set_order_asc)
  obtain n where n: "observations S' = observations S @ [n]" "ord_key n = (now, gen_id nanos)"
      "row_prev_hash n = row_hash h"
  proof (cases rule: insert_observation_cases [of sha256 canon db_fault nanos now src v S, case_names fails inserts])
    case (fails e)
    with assms(1) show ?thesis by simp
  next
    case (inserts env' n)
    have "prev_hash (row_envelope n) = row_hash h"
      using inserts(2) seal_result [OF inserts(7)] ne h
      by (simp add: head_hash_last last_map row_envelope_def)
    then have "row_prev_hash n = row_hash h"
      using inserts(2) by (simp add: row_envelope_def)
    with inserts assms(1) that [of n] show ?thesis by (simp add: ord_key_def)
  qed
  obtain as bs where split: "order_asc (observations S') = as @ n # bs"
    using n(1) by (metis in_set_conv_decomp list.set_intros(1) set_append set_order_asc UnI2)
  have link: "row_hash h = head_hash GENESIS_PREV_HASH (map row_envelope as)"
    using verify_chain_link [of sha256 "map row_envelope as" "row_envelope n" "map row_envelope bs"] ok n(3) split
    by (simp add: verify_full_chain_def row_envelope_def)
  show False
  proof (cases "as = []")
    case True
    with link hin assms(5) show ?thesis by auto
  next
    case False
    let ?p = "last as"
    have hash: "row_hash ?p = row_hash h"
      using link False by (simp add: head_hash_last last_map row_envelope_def)
    have le: "ord_key ?p \<le> ord_key n"
      using order_asc_sorted [of "observations S'"] False split by (simp add: sorted_append)
    have "mset (as @ n # bs) = mset (observations S @ [n])"
      using split n(1) by (metis mset_sort order_asc_def)
    then have "mset (as @ bs) = mset (observations S)" by simp
    then have "set (as @ bs) = set (observations S)" by (rule mset_eq_setD)
    then have "?p \<in> set (observations S)" by (metis False Un_iff last_in_set set_append)
    with hash hin assms(4) have "?p = h"
      by (metis distinct_map inj_onD)
    with le assms(3) n(2) show ?thesis by simp
  qed
qed

definition toy_row :: row where
  "toy_row = \<lparr>row_id = gen_id 7, ts = 10, source = ''s'', payload = ''{}'',
     row_prev_hash = GENESIS_PREV_HASH, row_hash = compute_hash (\<lambda>b. b) (gen_id 7) GENESIS_PREV_HASH ''{}''\<rparr>"

definition toy_store :: sqlite_store where
  "toy_store = \<lparr>observations = [toy_row], observations_fts = [(gen_id 7, ''{}'')]\<rparr>"

lemma toy_hash_not_genesis: "compute_hash (\<lambda>b. b) (gen_id n) GENESIS_PREV_HASH c \<noteq> GENESIS_PREV_HASH"
proof
  assume "compute_hash (\<lambda>b. b) (gen_id n) GENESIS_PREV_HASH c = GENESIS_PREV_HASH"
  then have "length (compute_hash (\<lambda>b. b) (gen_id n) GENESIS_PREV_HASH c) = length GENESIS_PREV_HASH" by simp
  then show False by (simp add: compute_hash_def hash_message_def GENESIS_PREV_HASH_def)
qed

theorem clock_skew_breaks_chain_witness:
  "verify_full_chain (\<lambda>b. b) (snd (insert_observation (\<lambda>b. b) (\<lambda>_. Some ''{}'') False 8 5 ''s'' JNull toy_store))
     \<noteq> Inr ()"
proof -
  let ?r = "insert_observation (\<lambda>b. b) (\<lambda>_. Some ''{}'') False 8 5 ''s'' JNull toy_store"
  obtain env where a: "?r = (Inr env, snd ?r)"
    by (simp add: insert_observation_def seal_def Let_def toy_store_def toy_row_def)
  have b: "newest (observations toy_store) = Some toy_row"
    by (simp add: newest_def toy_store_def order_asc_def)
  have c: "(5, gen_id 8) < ord_key toy_row"
    by (simp add: ord_key_def toy_row_def)
  have d: "distinct (map row_hash (observations toy_store))"
    by (simp add: toy_store_def)
  have e: "\<forall>r \<in> set (observations toy_store). row_hash r \<noteq> GENESIS_PREV_HASH"
    using toy_hash_not_genesis [of 7 "''{}''"] by (simp add: toy_store_def toy_row_def)
  show ?thesis by (rule clock_skew_breaks_chain [OF a b c d e])
qed

lemma insert_keeps_sync:
  "map row_id (observations S) = map fst (observations_fts S) \<Longrightarrow>
    insert_observation sha256 canon db_fault nanos now src v S = (res, S') \<Longrightarrow>
    map row_id (observations S') = map fst (observations_fts S')"
  by (cases rule: insert_observation_cases [of sha256 canon db_fault nanos now src v S, case_names fails inserts])
    (auto simp: row_envelope_def)

lemma delete_id_sync:
  assumes "map row_id (observations S) = map fst (observations_fts S)"
  shows "map row_id (observations (delete_id i S)) = map fst (observations_fts (delete_id i S))"
proof -
  have "map row_id (filter (\<lambda>r. row_id r \<noteq> i) xs) = filter (\<lambda>j. j \<noteq> i) (map row_id xs)" for xs
    by (induction xs) auto
  moreover have "map fst (filter (\<lambda>f. fst f \<noteq> i) ys) = filter (\<lambda>j. j \<noteq> i) (map fst ys)"
    for ys :: "(string \<times> string) list"
    by (induction ys) auto
  ultimately show ?thesis unfolding delete_id_def sqlite_store.simps by (metis assms)
qed

lemma fold_delete_sync:
  "map row_id (observations S) = map fst (observations_fts S) \<Longrightarrow>
    map row_id (observations (fold delete_id ids S)) = map fst (observations_fts (fold delete_id ids S))"
  by (induction ids arbitrary: S) (simp_all add: delete_id_sync)

lemma fold_delete_observations:
  "observations (fold delete_id ids S) = filter (\<lambda>r. row_id r \<notin> set ids) (observations S)"
  by (induction ids arbitrary: S) (auto simp: delete_id_def intro: filter_cong)

lemma join_with_chars:
  "c \<in> set (join_with sep ws) \<Longrightarrow> c \<in> set sep \<or> (\<exists>w \<in> set ws. c \<in> set w)"
  by (induction sep ws rule: join_with.induct) auto

text \<open>The expression handed to FTS5 consists of alphanumeric tokens separated by spaces,
  whatever the query: no quote, column filter, prefix star or parenthesis reaches the matcher.\<close>

theorem sanitize_only_tokens:
  "list_all (\<lambda>c. is_alnum c \<or> c = CHR '' '') (sanitize query)"
  unfolding list_all_iff
proof
  fix c assume "c \<in> set (sanitize query)"
  then have "c \<in> set '' '' \<or> (\<exists>w \<in> set (filter (\<lambda>t. t \<noteq> []) (map (filter is_alnum) (split_whitespace query))). c \<in> set w)"
    unfolding sanitize_def by (rule join_with_chars)
  then show "is_alnum c \<or> c = CHR '' ''" by auto
qed

theorem sanitize_only_tokens_witness:
  "sanitize ''cat* OR (dog:x)'' = ''cat OR dogx'' \<and> list_all (\<lambda>c. is_alnum c \<or> c = CHR '' '') (sanitize ''cat* OR (dog:x)'')"
proof -
  have "sanitize ''cat* OR (dog:x)'' = ''cat OR dogx''"
    by (simp add: sanitize_def split_whitespace_def is_ws_def is_alnum_def is_alpha_def is_upper_def
        is_lower_def is_digit_def Let_def)
  with sanitize_only_tokens [of "''cat* OR (dog:x)''"] show ?thesis by simp
qed

end
