(* ===== verification/CircuitBreaker.thy ===== *)
theory CircuitBreaker
  imports Prelude
begin

text \<open>
  The circuit breaker of \<open>crates/amore-core/src/circuit_breaker.rs\<close>.  \<open>call\<close> holds the state
  lock twice: before the inner future runs (\<open>begin_call\<close>) and after it (\<open>end_call\<close>); between
  the two any other call may run.  A sequential call is the composition, a concurrent run is a
  list of begin and end events.  Time is an \<open>Instant\<close> in nanoseconds, an input of both halves.
\<close>

datatype breaker_state = Closed | Open nat | HalfOpen u32

datatype 'e breaker_error = BreakerOpen string nat | Inner 'e

record circuit_breaker =
  dep :: string
  state :: breaker_state
  consecutive_failures :: u32
  threshold_failures :: u32
  reset_after :: nat
  close_after_successes :: u32

definition with_config :: "string \<Rightarrow> u32 \<Rightarrow> nat \<Rightarrow> u32 \<Rightarrow> circuit_breaker" where
  "with_config d t r c = \<lparr>dep = d, state = Closed, consecutive_failures = 0,
     threshold_failures = t, reset_after = r, close_after_successes = c\<rparr>"

definition new_breaker :: "string \<Rightarrow> circuit_breaker" where
  "new_breaker d = with_config d 5 (30 * 10 ^ 9) 3"

text \<open>Phase 1: inspect the state, decide whether to run.  \<open>Some open_for\<close> is the refusal.\<close>

definition begin_call :: "nat \<Rightarrow> circuit_breaker \<Rightarrow> nat option \<times> circuit_breaker" where
  "begin_call now b =
     (case state b of
        Closed \<Rightarrow> (None, b)
      | Open opened_at \<Rightarrow>
          (let open_for = now - opened_at in
           if reset_after b \<le> open_for then (None, b\<lparr>state := HalfOpen 0\<rparr>)
           else (Some open_for, b))
      | HalfOpen _ \<Rightarrow> (None, b))"

text \<open>Phase 3: update the state from the outcome of the inner future.\<close>

definition end_success :: "circuit_breaker \<Rightarrow> circuit_breaker" where
  "end_success b =
     (let b' = (case state b of
                  HalfOpen successes \<Rightarrow>
                    (let nxt = successes + 1 in
                     if close_after_successes b \<le> nxt then b\<lparr>state := Closed\<rparr>
                     else b\<lparr>state := HalfOpen nxt\<rparr>)
                | Closed \<Rightarrow> b
                | Open _ \<Rightarrow> b\<lparr>state := Closed\<rparr>)
      in b'\<lparr>consecutive_failures := 0\<rparr>)"

definition end_failure :: "nat \<Rightarrow> circuit_breaker \<Rightarrow> circuit_breaker" where
  "end_failure now b =
     (case state b of
        Closed \<Rightarrow>
          (let f = consecutive_failures b + 1 in
           if threshold_failures b \<le> f then b\<lparr>state := Open now, consecutive_failures := 0\<rparr>
           else b\<lparr>consecutive_failures := f\<rparr>)
      | HalfOpen _ \<Rightarrow> b\<lparr>state := Open now, consecutive_failures := 0\<rparr>
      | Open _ \<Rightarrow> b)"

definition end_call :: "nat \<Rightarrow> 'e + 't \<Rightarrow> circuit_breaker \<Rightarrow> ('e breaker_error + 't) \<times> circuit_breaker" where
  "end_call now outcome b =
     (case outcome of
        Inr v \<Rightarrow> (Inr v, end_success b)
      | Inl e \<Rightarrow> (Inl (Inner e), end_failure now b))"

text \<open>A call whose inner future, run between the instants \<open>t0\<close> and \<open>t1\<close>, gives \<open>outcome\<close>.\<close>

definition breaker_call ::
  "nat \<Rightarrow> nat \<Rightarrow> 'e + 't \<Rightarrow> circuit_breaker \<Rightarrow> ('e breaker_error + 't) \<times> circuit_breaker" where
  "breaker_call t0 t1 outcome b =
     (case begin_call t0 b of
        (Some open_for, b') \<Rightarrow> (Inl (BreakerOpen (dep b') open_for), b')
      | (None, b') \<Rightarrow> end_call t1 outcome b')"

lemmas breaker_defs = breaker_call_def begin_call_def end_call_def end_success_def end_failure_def

section \<open>Configuration and counters\<close>

definition same_config :: "circuit_breaker \<Rightarrow> circuit_breaker \<Rightarrow> bool" where
  "same_config a b \<longleftrightarrow> dep a = dep b \<and> threshold_failures a = threshold_failures b
     \<and> reset_after a = reset_after b \<and> close_after_successes a = close_after_successes b"

text \<open>Between calls the failure counter of a positive threshold stays below it, a probing
  breaker still needs successes, and only a closed breaker counts failures.\<close>

definition breaker_ok :: "circuit_breaker \<Rightarrow> bool" where
  "breaker_ok b \<longleftrightarrow>
     (consecutive_failures b < threshold_failures b \<or> consecutive_failures b = 0)
     \<and> (case state b of
          Closed \<Rightarrow> True
        | Open _ \<Rightarrow> consecutive_failures b = 0
        | HalfOpen n \<Rightarrow> consecutive_failures b = 0 \<and> (n < close_after_successes b \<or> n = 0))"

lemma begin_call_ok: "breaker_ok b \<Longrightarrow> breaker_ok (snd (begin_call now b))"
  by (auto simp: breaker_ok_def begin_call_def Let_def split: breaker_state.splits)

lemma end_success_ok: "breaker_ok b \<Longrightarrow> breaker_ok (end_success b)"
  by (auto simp: breaker_ok_def end_success_def Let_def not_le split: breaker_state.splits)

lemma end_failure_ok: "breaker_ok b \<Longrightarrow> breaker_ok (end_failure now b)"
  by (auto simp: breaker_ok_def end_failure_def Let_def not_le split: breaker_state.splits)

lemma begin_call_config: "same_config (snd (begin_call now b)) b"
  by (auto simp: same_config_def begin_call_def Let_def split: breaker_state.splits)

lemma end_success_config: "same_config (end_success b) b"
  by (auto simp: same_config_def end_success_def Let_def split: breaker_state.splits)

lemma end_failure_config: "same_config (end_failure now b) b"
  by (auto simp: same_config_def end_failure_def Let_def split: breaker_state.splits)

section \<open>Concurrent runs\<close>

datatype event = Begin nat | EndOk | EndErr nat

text \<open>\<open>running\<close> counts the calls that passed phase 1 and have not reached phase 3.\<close>

record concurrent =
  breaker :: circuit_breaker
  running :: nat
  refused :: nat

inductive cstep :: "concurrent \<Rightarrow> event \<Rightarrow> concurrent \<Rightarrow> bool" where
  admit: "begin_call now (breaker s) = (None, b) \<Longrightarrow>
    cstep s (Begin now) (s\<lparr>breaker := b, running := Suc (running s)\<rparr>)"
| refuse: "begin_call now (breaker s) = (Some d, b) \<Longrightarrow>
    cstep s (Begin now) (s\<lparr>breaker := b, refused := Suc (refused s)\<rparr>)"
| success: "0 < running s \<Longrightarrow>
    cstep s EndOk (s\<lparr>breaker := end_success (breaker s), running := running s - 1\<rparr>)"
| failure: "0 < running s \<Longrightarrow>
    cstep s (EndErr now) (s\<lparr>breaker := end_failure now (breaker s), running := running s - 1\<rparr>)"

inductive_cases cstep_beginE: "cstep s (Begin now) s'"
inductive_cases cstep_okE: "cstep s EndOk s'"
inductive_cases cstep_errE: "cstep s (EndErr now) s'"

inductive creach :: "circuit_breaker \<Rightarrow> concurrent \<Rightarrow> bool" for b0 where
  start: "creach b0 \<lparr>breaker = b0, running = 0, refused = 0\<rparr>"
| step: "creach b0 s \<Longrightarrow> cstep s e s' \<Longrightarrow> creach b0 s'"

lemma cstep_ok: "cstep s e s' \<Longrightarrow> breaker_ok (breaker s) \<Longrightarrow> breaker_ok (breaker s')"
  by (induction rule: cstep.induct)
    (auto simp: end_success_ok end_failure_ok, (metis begin_call_ok snd_conv)+)

lemma cstep_config: "cstep s e s' \<Longrightarrow> same_config (breaker s') (breaker s)"
  by (induction rule: cstep.induct)
    (auto simp: end_success_config end_failure_config, (metis begin_call_config snd_conv)+)

text \<open>C8: in every interleaving of any number of calls the failure counter stays below the
  threshold, an open or probing breaker has no counted failures, a probing breaker still needs
  successes, and the configuration never changes.\<close>

theorem breaker_invariant:
  assumes "creach (with_config d t r c) s"
  shows "breaker_ok (breaker s) \<and> same_config (breaker s) (with_config d t r c)"
  using assms
proof (induction rule: creach.induct)
  case start
  show ?case by (simp add: breaker_ok_def with_config_def same_config_def)
next
  case (step s e s')
  with cstep_ok [OF step(2)] cstep_config [OF step(2)] show ?case
    by (simp add: same_config_def)
qed

theorem breaker_invariant_witness:
  "breaker_ok ((with_config ''q'' 1 10 2)\<lparr>state := Open 4\<rparr>)"
proof -
  let ?b = "with_config ''q'' 1 10 2"
  have 1: "creach ?b \<lparr>breaker = ?b, running = 1, refused = 0\<rparr>"
    using creach.step [OF creach.start cstep.admit, of 3 ?b ?b]
    by (simp add: begin_call_def with_config_def)
  have "creach ?b \<lparr>breaker = ?b\<lparr>state := Open 4\<rparr>, running = 0, refused = 0\<rparr>"
    using creach.step [OF 1 cstep.failure [of _ 4]]
    by (simp add: end_failure_def with_config_def Let_def)
  from breaker_invariant [OF this] show ?thesis by simp
qed

section \<open>Sequential behaviour\<close>

fun failing_calls :: "(nat \<times> nat) list \<Rightarrow> circuit_breaker \<Rightarrow> circuit_breaker" where
  "failing_calls [] b = b"
| "failing_calls ((t0, t1) # ts) b = failing_calls ts (snd (breaker_call t0 t1 (Inl () :: unit + unit) b))"

lemma failing_calls_count:
  "state b = Closed \<Longrightarrow> unat (consecutive_failures b) + length ts < unat (threshold_failures b) \<Longrightarrow>
    state (failing_calls ts b) = Closed
    \<and> unat (consecutive_failures (failing_calls ts b)) = unat (consecutive_failures b) + length ts
    \<and> same_config (failing_calls ts b) b"
proof (induction ts arbitrary: b)
  case (Cons p ts)
  obtain t0 t1 where p: "p = (t0, t1)" by (cases p)
  have lt: "unat (consecutive_failures b) + 1 < 2 ^ 32"
    using Cons.prems(2) unsigned_less [of "threshold_failures b", where ?'a = nat] by simp
  then have unat: "unat (consecutive_failures b + 1) = unat (consecutive_failures b) + 1"
    by (simp add: unat_word_ariths)
  then have call: "snd (breaker_call t0 t1 (Inl () :: unit + unit) b) = b\<lparr>consecutive_failures := consecutive_failures b + 1\<rparr>"
    using Cons.prems by (simp add: breaker_defs Let_def word_le_nat_alt)
  from Cons.IH [of "b\<lparr>consecutive_failures := consecutive_failures b + 1\<rparr>"] Cons.prems unat
  show ?case by (simp add: p call same_config_def)
qed (simp add: same_config_def)

text \<open>Exactly the configured number of consecutive failures opens a fresh breaker: after
  fewer it is closed, and the last one opens it at the instant it ends.\<close>

theorem opens_at_threshold:
  assumes "0 < t" and "length ts = unat t - 1"
  shows "state (failing_calls ts (with_config d t r c)) = Closed
    \<and> state (failing_calls (ts @ [(t0, t1)]) (with_config d t r c)) = Open t1"
proof -
  let ?b = "failing_calls ts (with_config d t r c)"
  have pos: "0 < unat t" using assms(1) by (simp add: word_less_nat_alt)
  have b: "state ?b = Closed" "unat (consecutive_failures ?b) = unat t - 1"
      "same_config ?b (with_config d t r c)"
    using failing_calls_count [of "with_config d t r c" ts] assms(2) pos by (simp_all add: with_config_def)
  have "unat (consecutive_failures ?b + 1) = unat t"
  proof -
    have "consecutive_failures ?b + 1 = of_nat (unat (consecutive_failures ?b) + 1)" by simp
    also have "\<dots> = t" using b(2) pos by simp
    finally show ?thesis by simp
  qed
  moreover have "failing_calls (ts @ [(t0, t1)]) x = snd (breaker_call t0 t1 (Inl () :: unit + unit) (failing_calls ts x))" for x
    by (induction ts x rule: failing_calls.induct) auto
  ultimately show ?thesis
    using b by (simp add: breaker_defs Let_def same_config_def with_config_def word_le_nat_alt)
qed

theorem opens_at_threshold_witness:
  "state (failing_calls [(1, 2), (3, 4), (5, 6), (7, 8)] (new_breaker ''ollama'')) = Closed
   \<and> state (failing_calls [(1, 2), (3, 4), (5, 6), (7, 8), (9, 10)] (new_breaker ''ollama'')) = Open 10"
  using opens_at_threshold [of 5 "[(1, 2), (3, 4), (5, 6), (7, 8)]" "''ollama''" "30 * 10 ^ 9" 3 9 10]
  by (simp add: new_breaker_def)

text \<open>C30: an open breaker refuses without running the inner future and without changing, for
  exactly the reset time; from then on one call runs, and its failure opens the breaker again
  from the instant it ends.\<close>

theorem open_breaker_lifecycle:
  assumes "state b = Open t"
  shows "(now - t < reset_after b \<longrightarrow>
      breaker_call now t1 outcome b = (Inl (BreakerOpen (dep b) (now - t)), b))
    \<and> (reset_after b \<le> now - t \<longrightarrow>
      breaker_call now t1 (Inl e) b = (Inl (Inner e), b\<lparr>state := Open t1, consecutive_failures := 0\<rparr>)
      \<and> fst (breaker_call now t1 (Inr v) b) = Inr v)"
  using assms by (auto simp: breaker_defs Let_def)

theorem open_breaker_lifecycle_witness:
  "breaker_call 5 6 (Inr ()) ((new_breaker ''q'')\<lparr>state := Open 2\<rparr>) =
     (Inl (BreakerOpen ''q'' 3) :: nat breaker_error + unit, (new_breaker ''q'')\<lparr>state := Open 2\<rparr>)"
  using open_breaker_lifecycle [of "(new_breaker ''q'')\<lparr>state := Open 2\<rparr>" 2 5 6 "Inr () :: nat + unit"]
  by (simp add: new_breaker_def with_config_def)

text \<open>A call admitted before the breaker opened closes it again when it succeeds later,
  with no probe and before the reset time: two overlapping calls are enough.\<close>

theorem late_success_closes_open_breaker:
  assumes "state b = Closed" and "threshold_failures b \<le> consecutive_failures b + 1"
  shows "\<exists>s1 s2 s3 s4.
      cstep \<lparr>breaker = b, running = 0, refused = 0\<rparr> (Begin t0) s1 \<and> cstep s1 (Begin t1) s2
    \<and> cstep s2 (EndErr t2) s3 \<and> state (breaker s3) = Open t2
    \<and> cstep s3 EndOk s4 \<and> state (breaker s4) = Closed"
proof (intro exI conjI)
  let ?s1 = "\<lparr>breaker = b, running = 1, refused = 0\<rparr>"
  let ?s2 = "\<lparr>breaker = b, running = 2, refused = 0\<rparr>"
  let ?b3 = "b\<lparr>state := Open t2, consecutive_failures := 0\<rparr>"
  let ?s3 = "\<lparr>breaker = ?b3, running = 1, refused = 0\<rparr>"
  let ?s4 = "\<lparr>breaker = b\<lparr>state := Closed, consecutive_failures := 0\<rparr>, running = 0, refused = 0\<rparr>"
  show "cstep \<lparr>breaker = b, running = 0, refused = 0\<rparr> (Begin t0) ?s1"
    using cstep.admit [of t0 "\<lparr>breaker = b, running = 0, refused = 0\<rparr>" b] assms by (simp add: begin_call_def)
  show "cstep ?s1 (Begin t1) ?s2"
    using cstep.admit [of t1 ?s1 b] assms by (simp add: begin_call_def numeral_2_eq_2)
  show "cstep ?s2 (EndErr t2) ?s3"
    using cstep.failure [of ?s2 t2] assms by (simp add: end_failure_def Let_def numeral_2_eq_2)
  show "cstep ?s3 EndOk ?s4"
    using cstep.success [of ?s3] by (simp add: end_success_def)
qed simp_all

theorem late_success_closes_open_breaker_witness:
  "\<exists>s1 s2 s3 s4.
      cstep \<lparr>breaker = with_config ''q'' 1 10 2, running = 0, refused = 0\<rparr> (Begin 1) s1 \<and> cstep s1 (Begin 2) s2
    \<and> cstep s2 (EndErr 3) s3 \<and> state (breaker s3) = Open 3
    \<and> cstep s3 EndOk s4 \<and> state (breaker s4) = Closed"
  by (rule late_success_closes_open_breaker) (simp_all add: with_config_def)

end
