(* ===== verification/Config.thy ===== *)
theory Config
  imports Prelude CircuitBreaker Complex_Main
begin

text \<open>
  Configuration read from the process environment: the dependency timeout (\<open>timeout.rs\<close>), the
  runtime feature flags (\<open>flags.rs\<close>), the Qdrant connection pool (\<open>qdrant_pool.rs\<close>), the HTTP
  client timeout (\<open>http.rs\<close>) and the Ollama client's settings (\<open>ollama.rs\<close>), all in
  \<open>crates/amore-core/src\<close>.  The environment is the list of variables in the order
  \<open>env::vars\<close> yields them, names unique; durations are milliseconds.
\<close>

type_synonym environ = "(string \<times> string) list"

definition env_var :: "string \<Rightarrow> environ \<Rightarrow> string option" where
  "env_var name env = map_of env name"

section \<open>Timeouts\<close>

definition DEFAULT_TIMEOUT_MS :: u64 where
  "DEFAULT_TIMEOUT_MS = 4000"

definition parse_timeout :: "string option \<Rightarrow> u64" where
  "parse_timeout raw =
     (let ms = (case Option.bind raw parse_u64 of Some n \<Rightarrow> n | None \<Rightarrow> DEFAULT_TIMEOUT_MS)
      in max ms 100)"

definition resolve_timeout :: "environ \<Rightarrow> u64" where
  "resolve_timeout env =
     (case env_var ''AMORE_TIMEOUT_MS'' env of
        Some v \<Rightarrow> parse_timeout (Some v)
      | None \<Rightarrow> (case env_var ''OBELION_TIMEOUT_MS'' env of
          Some v \<Rightarrow> parse_timeout (Some v)
        | None \<Rightarrow> parse_timeout None))"

text \<open>A future is what it would return and how long it takes (\<open>None\<close>: it never completes).\<close>

definition with_timeout :: "u64 \<Rightarrow> nat option \<times> (string + 'a) \<Rightarrow> string + 'a" where
  "with_timeout d fut =
     (case fst fut of
        Some ms \<Rightarrow> if ms \<le> unat d then snd fut else Inl ''timeout''
      | None \<Rightarrow> Inl ''timeout'')"

lemma parse_timeout_floor: "100 \<le> parse_timeout raw"
  by (simp add: parse_timeout_def Let_def)

section \<open>Feature flags\<close>

definition is_on :: "string \<Rightarrow> bool" where
  "is_on v \<longleftrightarrow> v = ''on'' \<or> v = ''true''"

definition env_flags :: "environ \<Rightarrow> (string \<times> bool) list" where
  "env_flags env = List.map_filter (\<lambda>(k, v).
     map_option (\<lambda>name. (to_lowercase name, is_on v)) (strip_prefix k ''AMORE_FLAG_'')) env"

text \<open>\<open>file\<close> is the parsed JSON map of \<open>$AMORE_FLAGS_FILE\<close> in the iteration order of its
  \<open>HashMap\<close>, or nothing when the variable is unset, or the file unreadable or malformed.  An
  insertion replaces an earlier one under the same name.\<close>

definition load_flags :: "(string \<times> string) list option \<Rightarrow> environ \<Rightarrow> (string \<rightharpoonup> bool)" where
  "load_flags file env =
     (let from_file = (case file of None \<Rightarrow> [] | Some m \<Rightarrow> map (\<lambda>(k, v). (to_lowercase k, is_on v)) m)
      in fold (\<lambda>(k, v) m. m(k \<mapsto> v)) (from_file @ env_flags env) Map.empty)"

definition is_enabled :: "(string \<rightharpoonup> bool) \<Rightarrow> string \<Rightarrow> bool" where
  "is_enabled flags name = (case flags (to_lowercase name) of Some b \<Rightarrow> b | None \<Rightarrow> False)"

text \<open>The compile-time features; \<open>enabled\<close>: the ones of this build.\<close>

definition compile_time_features :: "string set \<Rightarrow> (string \<times> bool) list" where
  "compile_time_features enabled =
     map (\<lambda>f. (f, f \<in> enabled))
       [''rerank-onnx'', ''tantivy-bm25'', ''compaction-worker'', ''wal-sync'', ''metrics-exporter'']"

text \<open>\<open>names\<close> is the domain of the map in its iteration order.\<close>

definition list_flags :: "string list \<Rightarrow> (string \<rightharpoonup> bool) \<Rightarrow> (string \<times> bool) list" where
  "list_flags names flags = sort_key fst (map (\<lambda>k. (k, the (flags k))) names)"

lemma fold_upd_map_of: "fold (\<lambda>(k, v) m. m(k \<mapsto> v)) kvs m = m ++ map_of (rev kvs)"
  by (induction kvs arbitrary: m) (auto simp: map_add_def fun_eq_iff split: option.split)

lemma load_flags_alt:
  "load_flags file env = map_of (case file of None \<Rightarrow> [] | Some m \<Rightarrow> rev (map (\<lambda>(k, v). (to_lowercase k, is_on v)) m))
     ++ map_of (rev (env_flags env))"
  by (simp add: load_flags_def fold_upd_map_of Let_def split: option.split)

text \<open>A flag set in the environment has the value set there, whatever the flags file says; a
  flag set nowhere is off.\<close>

theorem env_overrides_file:
  "is_enabled (load_flags file env) name =
    (case map_of (rev (env_flags env)) (to_lowercase name) of
       Some b \<Rightarrow> b
     | None \<Rightarrow> is_enabled (load_flags file []) name)
   \<and> \<not> is_enabled (load_flags None []) name"
  by (auto simp: is_enabled_def load_flags_alt env_flags_def List.map_filter_simps map_add_def split: option.split)

section \<open>The Qdrant connection pool\<close>

record pool_config =
  max_size :: u32
  min_idle :: "u32 option"
  idle_timeout_secs :: "u64 option"

definition parse_u32 :: "string \<Rightarrow> u32 option" where
  "parse_u32 s = map_option word_of_nat (parse_uint 32 s)"

definition pool_config_from_env :: "environ \<Rightarrow> pool_config" where
  "pool_config_from_env env =
     \<lparr>max_size = (case Option.bind (env_var ''AMORE_POOL_MAX_SIZE'' env) parse_u32 of Some n \<Rightarrow> n | None \<Rightarrow> 16),
      min_idle = (case Option.bind (env_var ''AMORE_POOL_MIN_IDLE'' env) parse_u32 of Some n \<Rightarrow> Some n | None \<Rightarrow> Some 4),
      idle_timeout_secs = (case Option.bind (env_var ''AMORE_POOL_IDLE_TIMEOUT_SEC'' env) parse_u64 of
        Some n \<Rightarrow> Some n | None \<Rightarrow> Some 600)\<rparr>"

text \<open>The manager that \<open>bb8\<close> asks for connections: \<open>connect\<close> builds a client, \<open>health\<close> is its health check.\<close>

record qdrant_manager =
  qm_url :: string

definition new_manager :: "string \<Rightarrow> qdrant_manager" where
  "new_manager url = \<lparr>qm_url = url\<rparr>"

definition manager_connect :: "(string \<Rightarrow> string + 'c) \<Rightarrow> qdrant_manager \<Rightarrow> string + 'c" where
  "manager_connect connect m =
     (case connect (qm_url m) of
        Inl e \<Rightarrow> Inl (''qdrant_pool: connect to '' @ qm_url m @ '' failed: '' @ e)
      | Inr c \<Rightarrow> Inr c)"

definition manager_is_valid :: "('c \<Rightarrow> string + unit) \<Rightarrow> 'c \<Rightarrow> string + unit" where
  "manager_is_valid health c =
     (case health c of Inl e \<Rightarrow> Inl (''qdrant_pool: health_check failed: '' @ e) | Inr _ \<Rightarrow> Inr ())"

definition manager_has_broken :: "'c \<Rightarrow> bool" where
  "manager_has_broken c = False"

text \<open>The builder of the crate \<open>bb8\<close>; \<^const>\<open>None\<close> is a panic of one of its assertions.\<close>

record ('b, 'p) pool_builder =
  pb_new :: 'b
  pb_max_size :: "u32 \<Rightarrow> 'b \<Rightarrow> 'b option"
  pb_min_idle :: "u32 option \<Rightarrow> 'b \<Rightarrow> 'b option"
  pb_idle_timeout :: "u64 option \<Rightarrow> 'b \<Rightarrow> 'b option"
  pb_build :: "qdrant_manager \<Rightarrow> 'b \<Rightarrow> (string + 'p) option"

definition pool_result :: "string \<Rightarrow> string + 'p \<Rightarrow> string + 'p" where
  "pool_result msg r = (case r of Inl e \<Rightarrow> Inl (msg @ e) | Inr p \<Rightarrow> Inr p)"

definition build_pool :: "('b, 'p) pool_builder \<Rightarrow> string \<Rightarrow> u32 \<Rightarrow> (string + 'p) option" where
  "build_pool B url n =
     Option.bind (pb_max_size B n (pb_new B)) (\<lambda>b.
       map_option (pool_result ''qdrant_pool: pool build failed: '') (pb_build B (new_manager url) b))"

definition build_pool_from_env :: "('b, 'p) pool_builder \<Rightarrow> environ \<Rightarrow> string \<Rightarrow> (string + 'p) option" where
  "build_pool_from_env B env url =
     (let cfg = pool_config_from_env env in
      Option.bind (pb_max_size B (max_size cfg) (pb_new B)) (\<lambda>b.
      Option.bind (case min_idle cfg of Some n \<Rightarrow> pb_min_idle B (Some n) b | None \<Rightarrow> Some b) (\<lambda>b.
      Option.bind (case idle_timeout_secs cfg of Some s \<Rightarrow> pb_idle_timeout B (Some s) b | None \<Rightarrow> Some b) (\<lambda>b.
        map_option (pool_result ''qdrant_pool: pool build (env) failed: '') (pb_build B (new_manager url) b)))))"

text \<open>Both settings are always given, whatever the environment says; a maximum below four without a minimum asks for
  more idle connections than connections.\<close>

lemma pool_config_complete:
  "min_idle (pool_config_from_env env) \<noteq> None \<and> idle_timeout_secs (pool_config_from_env env) \<noteq> None"
  by (simp add: pool_config_from_env_def split: option.split)

lemma small_pool_conflicts:
  assumes "Option.bind (env_var ''AMORE_POOL_MAX_SIZE'' env) parse_u32 = Some n" and "n < 4"
    and "env_var ''AMORE_POOL_MIN_IDLE'' env = None"
  shows "\<exists>m. min_idle (pool_config_from_env env) = Some m \<and> max_size (pool_config_from_env env) < m"
  using assms by (simp add: pool_config_from_env_def)

definition default_pool_size :: "nat option \<Rightarrow> nat" where
  "default_pool_size parallelism = min (case parallelism of Some n \<Rightarrow> n * 2 | None \<Rightarrow> 8) 16"

lemma default_pool_size_bounds:
  "(\<forall>n. parallelism = Some n \<longrightarrow> 0 < n) \<Longrightarrow> 0 < default_pool_size parallelism \<and> default_pool_size parallelism \<le> 16"
  by (auto simp: default_pool_size_def split: option.split)

section \<open>The HTTP client and the Ollama client\<close>

text \<open>The per-request timeout in seconds, if one is set.\<close>

definition build_client :: "u64 \<Rightarrow> u64 option" where
  "build_client timeout_secs = (if timeout_secs > 0 then Some timeout_secs else None)"

record ollama_client =
  base_url :: string
  embed_model :: string
  llm_model :: string
  http_timeout :: "u64 option"
  ollama_breaker :: "circuit_breaker option"

definition DEFAULT_BASE_URL :: string where
  "DEFAULT_BASE_URL = ''http://127.0.0.1:11434''"

definition trim_end_matches :: "char \<Rightarrow> string \<Rightarrow> string" where
  "trim_end_matches c s = rev (dropWhile (\<lambda>x. x = c) (rev s))"

definition new_ollama :: "string \<Rightarrow> ollama_client" where
  "new_ollama url = \<lparr>base_url = (if url = [] then DEFAULT_BASE_URL else trim_end_matches (CHR ''/'') url),
     embed_model = ''nomic-embed-text'', llm_model = ''qwen3:8b'',
     http_timeout = build_client 30, ollama_breaker = None\<rparr>"

definition with_models :: "string \<Rightarrow> string \<Rightarrow> ollama_client \<Rightarrow> ollama_client" where
  "with_models em llm c = c\<lparr>embed_model := em, llm_model := llm\<rparr>"

definition with_ollama_breaker :: "circuit_breaker \<Rightarrow> ollama_client \<Rightarrow> ollama_client" where
  "with_ollama_breaker b c = c\<lparr>ollama_breaker := Some b\<rparr>"

text \<open>The server's answer to one POST: no connection, or a status and a decoded body (\<open>None\<close>:
  the body does not decode).  \<open>post\<close> is the HTTP exchange at a URL with a model and a prompt.\<close>

datatype 'a response = NoConnection | Response nat "'a option"

definition embed_inner ::
  "(string \<Rightarrow> string \<Rightarrow> string \<Rightarrow> rat list response) \<Rightarrow> ollama_client \<Rightarrow> string \<Rightarrow> string + rat list" where
  "embed_inner post c prompt =
     (case post (base_url c @ ''/api/embeddings'') (embed_model c) prompt of
        NoConnection \<Rightarrow> Inl ''POST''
      | Response status body \<Rightarrow>
          if \<not> (200 \<le> status \<and> status < 300) then Inl ''Ollama embed failed''
          else case body of
            None \<Rightarrow> Inl ''decoding /api/embeddings''
          | Some e \<Rightarrow> if e = [] then Inl ''Ollama empty embedding'' else Inr e)"

text \<open>The translation of a breaker's error into the caller's.\<close>

fun unwrap_breaker :: "string breaker_error + 'a \<Rightarrow> string + 'a" where
  "unwrap_breaker (Inr v) = Inr v"
| "unwrap_breaker (Inl (BreakerOpen d open_for)) = Inl (''circuit breaker open dep='' @ d)"
| "unwrap_breaker (Inl (Inner e)) = Inl e"

definition ollama_embed ::
  "(string \<Rightarrow> string \<Rightarrow> string \<Rightarrow> rat list response) \<Rightarrow> nat \<Rightarrow> nat \<Rightarrow> string \<Rightarrow> ollama_client
    \<Rightarrow> (string + rat list) \<times> ollama_client" where
  "ollama_embed post t0 t1 prompt c =
     (case ollama_breaker c of
        Some b \<Rightarrow> (let (res, b') = breaker_call t0 t1 (embed_inner post c prompt) b
                   in (unwrap_breaker res, c\<lparr>ollama_breaker := Some b'\<rparr>))
      | None \<Rightarrow> (embed_inner post c prompt, c))"

definition generate ::
  "(string \<Rightarrow> string \<Rightarrow> string option \<Rightarrow> string \<Rightarrow> string response) \<Rightarrow> ollama_client
    \<Rightarrow> string option \<Rightarrow> string \<Rightarrow> string + string" where
  "generate post c system prompt =
     (case post (base_url c @ ''/api/generate'') (llm_model c) system prompt of
        NoConnection \<Rightarrow> Inl ''POST''
      | Response status body \<Rightarrow>
          if \<not> (200 \<le> status \<and> status < 300) then Inl ''Ollama generate failed''
          else (case body of None \<Rightarrow> Inl ''decoding /api/generate'' | Some r \<Rightarrow> Inr r))"

definition extract_facts :: "string \<Rightarrow> string + string list" where
  "extract_facts observation = Inr []"

lemma embed_nonempty: "ollama_embed post t0 t1 prompt c = (Inr v, c') \<Longrightarrow> v \<noteq> []"
  by (auto simp: ollama_embed_def embed_inner_def breaker_call_def end_call_def
      split: option.splits response.splits if_splits prod.splits sum.splits)

end
