(* ===== verification/QdrantStore.thy ===== *)
theory QdrantStore
  imports Json Config
begin

text \<open>
  The vector store client of \<open>crates/amore-core/src/qdrant_store.rs\<close>.  The Qdrant server is a
  parameter: a record of its operations on its own state, each of which may fail.  The client
  adds the collection, the payload conversion, the circuit breaker around \<open>upsert\<close> and
  \<open>search\<close>, and the reading of point ids and payloads.  The connection, direct or pooled, is a server around the
  server; the pool is asked for a connection before each operation and may have none.
\<close>

datatype point_id = PointNum u64 | PointUuid string

definition to_point_id :: "string \<Rightarrow> point_id" where
  "to_point_id s = (case parse_u64 s of Some n \<Rightarrow> PointNum n | None \<Rightarrow> PointUuid s)"

record 'q qdrant_server =
  srv_exists :: "string \<Rightarrow> 'q \<Rightarrow> string + bool"
  srv_create :: "string \<Rightarrow> u64 \<Rightarrow> 'q \<Rightarrow> (string + unit) \<times> 'q"
  srv_upsert :: "string \<Rightarrow> point_id \<Rightarrow> rat list \<Rightarrow> json \<Rightarrow> 'q \<Rightarrow> (string + unit) \<times> 'q"
  srv_search :: "string \<Rightarrow> rat list \<Rightarrow> u64 \<Rightarrow> 'q \<Rightarrow> string + (point_id option \<times> rat \<times> json) list"
  srv_delete :: "string \<Rightarrow> point_id list \<Rightarrow> 'q \<Rightarrow> (string + unit) \<times> 'q"
  srv_drop :: "string \<Rightarrow> 'q \<Rightarrow> (string + unit) \<times> 'q"

text \<open>The connection.  \<open>Pooled get\<close>: the error \<open>pool.get\<close> ends in, if any; a connection goes back to the pool
  when the operation is over.  An error shows the context of the operation before its cause.\<close>

datatype 'q conn = Direct | Pooled "'q \<Rightarrow> string option"

definition with_ctx :: "string \<Rightarrow> string + 'a \<Rightarrow> string + 'a" where
  "with_ctx ctx r = (case r of Inl e \<Rightarrow> Inl (ctx @ '': '' @ e) | Inr x \<Rightarrow> Inr x)"

definition no_connection :: "'q conn \<Rightarrow> 'q \<Rightarrow> string option" where
  "no_connection c q =
     (case c of Direct \<Rightarrow> None | Pooled get \<Rightarrow> map_option (\<lambda>e. ''pool.get: '' @ e) (get q))"

definition read_via :: "'q conn \<Rightarrow> string \<Rightarrow> ('q \<Rightarrow> string + 'a) \<Rightarrow> 'q \<Rightarrow> string + 'a" where
  "read_via c ctx f q = (case no_connection c q of Some e \<Rightarrow> Inl e | None \<Rightarrow> with_ctx ctx (f q))"

definition call_via :: "'q conn \<Rightarrow> string \<Rightarrow> ('q \<Rightarrow> (string + 'a) \<times> 'q) \<Rightarrow> 'q \<Rightarrow> (string + 'a) \<times> 'q" where
  "call_via c ctx f q =
     (case no_connection c q of
        Some e \<Rightarrow> (Inl e, q)
      | None \<Rightarrow> (case f q of (r, q') \<Rightarrow> (with_ctx ctx r, q')))"

definition over_conn :: "'q conn \<Rightarrow> 'q qdrant_server \<Rightarrow> 'q qdrant_server" where
  "over_conn c srv =
     \<lparr>srv_exists = (\<lambda>coll. read_via c (''checking '' @ coll) (srv_exists srv coll)),
      srv_create = (\<lambda>coll sz. call_via c (''creating '' @ coll) (srv_create srv coll sz)),
      srv_upsert = (\<lambda>coll pid v payload. call_via c (''upsert into '' @ coll) (srv_upsert srv coll pid v payload)),
      srv_search = (\<lambda>coll query k. read_via c (''search in '' @ coll) (srv_search srv coll query k)),
      srv_delete = (\<lambda>coll pids. call_via c (''delete_by_ids from '' @ coll) (srv_delete srv coll pids)),
      srv_drop = (\<lambda>coll. call_via c (''dropping '' @ coll) (srv_drop srv coll))\<rparr>"

record qdrant_store =
  collection :: string
  vector_size :: u64
  q_breaker :: "circuit_breaker option"

record search_hit =
  sh_id :: string
  sh_score :: rat
  sh_payload :: json

type_synonym 'q qstate = "qdrant_store \<times> 'q"

definition DEFAULT_VECTOR_SIZE :: u64 where
  "DEFAULT_VECTOR_SIZE = 768"

definition new_lazy :: "string \<Rightarrow> u64 \<Rightarrow> qdrant_store" where
  "new_lazy coll sz = \<lparr>collection = coll, vector_size = sz, q_breaker = None\<rparr>"

definition open_lazy :: "string \<Rightarrow> qdrant_store" where
  "open_lazy coll = new_lazy coll DEFAULT_VECTOR_SIZE"

definition with_qdrant_breaker :: "circuit_breaker \<Rightarrow> qdrant_store \<Rightarrow> qdrant_store" where
  "with_qdrant_breaker b s = s\<lparr>q_breaker := Some b\<rparr>"

definition ensure_collection :: "'q qdrant_server \<Rightarrow> qdrant_store \<Rightarrow> 'q \<Rightarrow> (string + unit) \<times> 'q" where
  "ensure_collection srv s q =
     (case srv_exists srv (collection s) q of
        Inl e \<Rightarrow> (Inl e, q)
      | Inr True \<Rightarrow> (Inr (), q)
      | Inr False \<Rightarrow> srv_create srv (collection s) (vector_size s) q)"

definition new_qdrant :: "'q qdrant_server \<Rightarrow> string \<Rightarrow> u64 \<Rightarrow> 'q \<Rightarrow> (string + qdrant_store) \<times> 'q" where
  "new_qdrant srv coll sz q =
     (let s = new_lazy coll sz in
      case ensure_collection srv s q of
        (Inl e, q') \<Rightarrow> (Inl e, q')
      | (Inr _, q') \<Rightarrow> (Inr s, q'))"

text \<open>A server operation behind the optional breaker, run between the instants \<open>t0\<close> and
  \<open>t1\<close>: an open breaker refuses it without touching the server.\<close>

definition guarded :: "nat \<Rightarrow> nat \<Rightarrow> ('q \<Rightarrow> (string + 'a) \<times> 'q) \<Rightarrow> 'q qstate \<Rightarrow> (string + 'a) \<times> 'q qstate" where
  "guarded t0 t1 oper st =
     (let (s, q) = st in
      case q_breaker s of
        None \<Rightarrow> (let (r, q') = oper q in (r, s, q'))
      | Some b \<Rightarrow>
          (case begin_call t0 b of
             (Some open_for, b') \<Rightarrow>
               (unwrap_breaker (Inl (BreakerOpen (dep b') open_for)), s\<lparr>q_breaker := Some b'\<rparr>, q)
           | (None, b') \<Rightarrow>
               (let (r, q') = oper q; (r', b'') = end_call t1 r b'
                in (unwrap_breaker r', s\<lparr>q_breaker := Some b''\<rparr>, q'))))"

text \<open>\<open>Payload::try_from(Value)\<close> accepts objects only.\<close>

definition upsert ::
  "'q qdrant_server \<Rightarrow> nat \<Rightarrow> nat \<Rightarrow> u64 \<Rightarrow> rat list \<Rightarrow> json \<Rightarrow> 'q qstate \<Rightarrow> (string + unit) \<times> 'q qstate" where
  "upsert srv t0 t1 i vector payload st =
     (case as_object payload of
        None \<Rightarrow> (Inl ''converting serde_json::Value into Qdrant Payload'', st)
      | Some _ \<Rightarrow> guarded t0 t1 (srv_upsert srv (collection (fst st)) (PointNum i) vector payload) st)"

text \<open>\<open>debug\<close> is the \<open>Debug\<close> rendering of a point id.\<close>

definition search_raw ::
  "'q qdrant_server \<Rightarrow> (point_id \<Rightarrow> string) \<Rightarrow> qdrant_store \<Rightarrow> rat list \<Rightarrow> u64 \<Rightarrow> 'q \<Rightarrow> (string + search_hit list) \<times> 'q" where
  "search_raw srv debug s query top_k q =
     (case srv_search srv (collection s) query top_k q of
        Inl e \<Rightarrow> (Inl e, q)
      | Inr ps \<Rightarrow> (Inr (map (\<lambda>(pid, score, payload).
          \<lparr>sh_id = (case pid of Some p \<Rightarrow> debug p | None \<Rightarrow> []), sh_score = score, sh_payload = payload\<rparr>) ps), q))"

definition qdrant_search ::
  "'q qdrant_server \<Rightarrow> (point_id \<Rightarrow> string) \<Rightarrow> nat \<Rightarrow> nat \<Rightarrow> rat list \<Rightarrow> u64 \<Rightarrow> 'q qstate
    \<Rightarrow> (string + search_hit list) \<times> 'q qstate" where
  "qdrant_search srv debug t0 t1 query top_k st =
     guarded t0 t1 (search_raw srv debug (fst st) query top_k) st"

definition drop_collection :: "'q qdrant_server \<Rightarrow> 'q qstate \<Rightarrow> (string + unit) \<times> 'q qstate" where
  "drop_collection srv st =
     (let (s, q) = st; (r, q') = srv_drop srv (collection s) q in (r, s, q'))"

definition delete_by_ids :: "'q qdrant_server \<Rightarrow> string list \<Rightarrow> 'q qstate \<Rightarrow> (string + unit) \<times> 'q qstate" where
  "delete_by_ids srv ids st =
     (if ids = [] then (Inr (), st)
      else let (s, q) = st; (r, q') = srv_delete srv (collection s) (map to_point_id ids) q in (r, s, q'))"

lemmas qdrant_defs = guarded_def upsert_def search_raw_def qdrant_search_def

lemma guarded_store:
  "guarded t0 t1 oper (s, q) = (r, s', q') \<Longrightarrow>
    collection s' = collection s \<and> vector_size s' = vector_size s
    \<and> ((q_breaker s' = None) = (q_breaker s = None))"
  by (auto simp: guarded_def Let_def split: option.splits prod.splits)

text \<open>A pool that always has a connection is as good as a direct one.  One that has none keeps every operation from the
  server and is a failure to the breaker.\<close>

lemma ready_pool:
  "read_via (Pooled (\<lambda>_. None)) ctx f = read_via Direct ctx f" "call_via (Pooled (\<lambda>_. None)) ctx g = call_via Direct ctx g"
  by (intro ext; simp add: read_via_def call_via_def no_connection_def)+

lemma ready_pool_is_direct: "over_conn (Pooled (\<lambda>_. None)) srv = over_conn Direct srv"
  by (simp add: over_conn_def ready_pool)

lemma exhausted_pool_shields_server:
  assumes "get q = Some e" and "as_object payload \<noteq> None"
  shows "snd (snd (upsert (over_conn (Pooled get) srv) t0 t1 i v payload (s, q))) = q"
    and "q_breaker s = None \<Longrightarrow>
      upsert (over_conn (Pooled get) srv) t0 t1 i v payload (s, q) = (Inl (''pool.get: '' @ e), s, q)"
    and "\<lbrakk>q_breaker s = Some b; state b = Closed; threshold_failures b \<le> consecutive_failures b + 1\<rbrakk> \<Longrightarrow>
      \<exists>b'. q_breaker (fst (snd (upsert (over_conn (Pooled get) srv) t0 t1 i v payload (s, q)))) = Some b'
        \<and> (\<exists>opened. state b' = Open opened)"
  using assms
  by (auto simp: qdrant_defs over_conn_def call_via_def no_connection_def begin_call_def end_call_def end_failure_def Let_def
      split: option.splits prod.splits)

text \<open>While the breaker is open and its reset time has not passed, neither an upsert nor a
  search reaches the Qdrant server: the caller gets the breaker's error and nothing changes.\<close>

theorem open_breaker_shields_server:
  assumes "q_breaker s = Some b" and "state b = Open opened" and "t0 - opened < reset_after b"
    and "as_object payload \<noteq> None"
  shows "upsert srv t0 t1 i v payload (s, q) = (Inl (''circuit breaker open dep='' @ dep b), s, q)
    \<and> qdrant_search srv debug t0 t1 v k (s, q) = (Inl (''circuit breaker open dep='' @ dep b), s, q)"
proof -
  have "s\<lparr>q_breaker := Some b\<rparr> = s" using assms(1) by simp
  with assms show ?thesis
    by (auto simp: qdrant_defs begin_call_def Let_def split: option.splits)
qed

text \<open>A server that only counts its upserts, and an open breaker in front of it.\<close>

definition toy_server :: "nat qdrant_server" where
  "toy_server = \<lparr>srv_exists = (\<lambda>_ _. Inr True), srv_create = (\<lambda>_ _ q. (Inr (), q)),
     srv_upsert = (\<lambda>_ _ _ _ q. (Inr (), Suc q)), srv_search = (\<lambda>_ _ _ _. Inr []),
     srv_delete = (\<lambda>_ _ q. (Inr (), q)), srv_drop = (\<lambda>_ q. (Inr (), q))\<rparr>"

definition toy_open :: circuit_breaker where
  "toy_open = (with_config ''qdrant'' 3 10 2)\<lparr>state := Open 2\<rparr>"

theorem open_breaker_shields_server_witness:
  "upsert toy_server 5 6 9 [0] (JObj []) (with_qdrant_breaker toy_open (open_lazy ''c''), 0) =
    (Inl ''circuit breaker open dep=qdrant'', with_qdrant_breaker toy_open (open_lazy ''c''), 0)"
proof -
  have "q_breaker (with_qdrant_breaker toy_open (open_lazy ''c'')) = Some toy_open"
    "state toy_open = Open 2" "5 - 2 < reset_after toy_open" "as_object (JObj []) \<noteq> None"
    by (simp_all add: with_qdrant_breaker_def toy_open_def with_config_def)
  from open_breaker_shields_server [OF this, THEN conjunct1] show ?thesis
    by (simp add: toy_open_def with_config_def)
qed

end
