(* ===== verification/Compaction.thy ===== *)
theory Compaction
  imports SqliteStore QdrantStore
begin

text \<open>
  The compaction pass of \<open>crates/amore-core/src/compaction.rs\<close> over the two stores: duplicates,
  optional age eviction, vacuum, each Qdrant deletion before the SQLite one.  The vector side
  is the client of \<open>QdrantStore\<close> over its server parameter.
\<close>

record compaction_opts =
  interval_ms :: nat
  dedup_window_secs :: u64
  max_age_ms :: "nat option"

definition default_compaction_opts :: compaction_opts where
  "default_compaction_opts = \<lparr>interval_ms = 3600 * 1000, dedup_window_secs = 86400, max_age_ms = None\<rparr>"

record compaction_stats =
  docs_deduped :: nat
  bytes_freed :: nat
  rows_evicted :: nat

text \<open>What the environment does during one pass: the clock readings of the two queries, the
  failures of the two SQLite deletions, the page counts around the vacuum (\<open>None\<close>: a PRAGMA
  fails).\<close>

record pass_env =
  now_dedup :: int
  now_evict :: int
  fault_dedup :: bool
  fault_evict :: bool
  vacuum_pages :: "(int \<times> int \<times> int) option"

definition do_evict :: "'q qdrant_server \<Rightarrow> pass_env \<Rightarrow> nat option \<Rightarrow> sqlite_store \<times> 'q qstate
    \<Rightarrow> (string + nat) \<times> sqlite_store \<times> 'q qstate" where
  "do_evict srv E max_age st =
     (case max_age of
        None \<Rightarrow> (Inr 0, st)
      | Some age \<Rightarrow>
          (let evict_ids = compaction_find_aged_rows (now_evict E) age (fst st) in
           if evict_ids = [] then (Inr 0, st)
           else case delete_by_ids srv evict_ids (snd st) of
             (Inl e, q') \<Rightarrow> (Inl e, fst st, q')
           | (Inr _, q') \<Rightarrow>
               (case compaction_delete_by_ids (fault_evict E) evict_ids (fst st) of
                  (Inl e, S') \<Rightarrow> (Inl e, S', q')
                | (Inr _, S') \<Rightarrow> (Inr (length evict_ids), S', q'))))"

definition do_dedup :: "'q qdrant_server \<Rightarrow> pass_env \<Rightarrow> u64 \<Rightarrow> sqlite_store \<times> 'q qstate
    \<Rightarrow> (string + nat) \<times> sqlite_store \<times> 'q qstate" where
  "do_dedup srv E window st =
     (let stale_ids = compaction_find_stale_duplicates (now_dedup E) window (fst st) in
      if stale_ids = [] then (Inr 0, st)
      else case delete_by_ids srv stale_ids (snd st) of
        (Inl e, q') \<Rightarrow> (Inl e, fst st, q')
      | (Inr _, q') \<Rightarrow>
          (case compaction_delete_by_ids (fault_dedup E) stale_ids (fst st) of
             (Inl e, S') \<Rightarrow> (Inl e, S', q')
           | (Inr _, S') \<Rightarrow> (Inr (length stale_ids), S', q')))"

definition do_compact :: "'q qdrant_server \<Rightarrow> pass_env \<Rightarrow> compaction_opts \<Rightarrow> sqlite_store \<times> 'q qstate
    \<Rightarrow> (string + compaction_stats) \<times> sqlite_store \<times> 'q qstate" where
  "do_compact srv E opts st =
     (case do_dedup srv E (dedup_window_secs opts) st of
        (Inl e, st1) \<Rightarrow> (Inl e, st1)
      | (Inr deduped, st1) \<Rightarrow>
          (case do_evict srv E (max_age_ms opts) st1 of
             (Inl e, st2) \<Rightarrow> (Inl e, st2)
           | (Inr evicted, st2) \<Rightarrow>
               (case vacuum_pages E of
                  None \<Rightarrow> (Inl ''running SQLite incremental_vacuum'', st2)
                | Some (page_size, before, after) \<Rightarrow>
                    (Inr \<lparr>docs_deduped = deduped,
                          bytes_freed = compaction_incremental_vacuum page_size before after,
                          rows_evicted = evicted\<rparr>, st2))))"

section \<open>The worker\<close>

text \<open>\<open>tasks\<close> are the spawned background tasks that have not been aborted, \<open>spawned\<close> the number
  spawned so far, which names the next one.\<close>

record compaction_worker =
  worker_opts :: compaction_opts
  handle :: "nat option"
  tasks :: "nat set"
  spawned :: nat

definition worker_new :: "compaction_opts \<Rightarrow> compaction_worker" where
  "worker_new opts = \<lparr>worker_opts = opts, handle = None, tasks = {}, spawned = 0\<rparr>"

definition abort_handle :: "compaction_worker \<Rightarrow> compaction_worker" where
  "abort_handle w = (case handle w of None \<Rightarrow> w | Some h \<Rightarrow> w\<lparr>handle := None, tasks := tasks w - {h}\<rparr>)"

definition worker_start :: "compaction_worker \<Rightarrow> compaction_worker" where
  "worker_start w0 = (let w = abort_handle w0 in
     w\<lparr>handle := Some (spawned w), tasks := insert (spawned w) (tasks w), spawned := spawned w + 1\<rparr>)"

definition worker_stop :: "compaction_worker \<Rightarrow> compaction_worker" where
  "worker_stop w = abort_handle w"

text \<open>One turn of a task's loop: the result is only logged, the loop goes on.\<close>

definition worker_tick ::
  "'q qdrant_server \<Rightarrow> pass_env \<Rightarrow> compaction_worker \<Rightarrow> sqlite_store \<times> 'q qstate \<Rightarrow> sqlite_store \<times> 'q qstate" where
  "worker_tick srv E w st =
     (if tasks w = {} then st else snd (do_compact srv E (worker_opts w) st))"

definition compact_once ::
  "'q qdrant_server \<Rightarrow> pass_env \<Rightarrow> compaction_worker \<Rightarrow> sqlite_store \<times> 'q qstate
    \<Rightarrow> (string + compaction_stats) \<times> sqlite_store \<times> 'q qstate" where
  "compact_once srv E w st = do_compact srv E (worker_opts w) st"

text \<open>However often it is started and stopped, at most one task runs, the one of the handle.\<close>

definition worker_ok :: "compaction_worker \<Rightarrow> bool" where
  "worker_ok w = (tasks w = set_option (handle w) \<and> (\<forall>h \<in> tasks w. h < spawned w))"

lemma worker_ok_new: "worker_ok (worker_new opts)"
  by (simp add: worker_ok_def worker_new_def)

lemma worker_ok_abort: "worker_ok w \<Longrightarrow> worker_ok (abort_handle w)"
  by (auto simp: worker_ok_def abort_handle_def split: option.split)

lemma worker_ok_start: "worker_ok w \<Longrightarrow> worker_ok (worker_start w)"
  by (auto simp: worker_ok_def worker_start_def abort_handle_def Let_def split: option.splits)

lemma worker_stop_all: "worker_ok w \<Longrightarrow> tasks (worker_stop w) = {}"
  by (auto simp: worker_ok_def worker_stop_def abort_handle_def split: option.split)

section \<open>What a pass does to the stores\<close>

lemma fst_delete_rows:
  "compaction_delete_by_ids f ids S = (r, S') \<Longrightarrow>
    S' = S \<or> (observations S' = filter (\<lambda>x. row_id x \<notin> set ids) (observations S) \<and> S' = fold delete_id ids S)"
  by (auto simp: compaction_delete_by_ids_def fold_delete_observations split: if_splits)

lemma do_dedup_store:
  "do_dedup qd E w st = (r, st') \<Longrightarrow> fst st' = fst st \<or>
    fst st' = fold delete_id (compaction_find_stale_duplicates (now_dedup E) w (fst st)) (fst st)"
  by (auto simp: do_dedup_def Let_def split: if_splits sum.splits prod.splits dest!: fst_delete_rows)

lemma do_evict_store:
  "do_evict qd E a st = (r, st') \<Longrightarrow> fst st' = fst st \<or>
    (\<exists>age. a = Some age \<and> fst st' = fold delete_id (compaction_find_aged_rows (now_evict E) age (fst st)) (fst st))"
  by (auto simp: do_evict_def Let_def split: if_splits sum.splits prod.splits option.splits dest!: fst_delete_rows)

text \<open>A compaction pass, failing at any point or not, keeps the observation table and the
  full-text index row for row in step.\<close>

theorem compaction_keeps_fts_in_sync:
  assumes "map row_id (observations (fst st)) = map fst (observations_fts (fst st))"
    and "do_compact srv E opts st = (res, st')"
  shows "map row_id (observations (fst st')) = map fst (observations_fts (fst st'))"
proof -
  obtain r1 st1 where 1: "do_dedup srv E (dedup_window_secs opts) st = (r1, st1)" by (rule prod.exhaust)
  obtain r2 st2 where 2: "do_evict srv E (max_age_ms opts) st1 = (r2, st2)" by (rule prod.exhaust)
  have s1: "map row_id (observations (fst st1)) = map fst (observations_fts (fst st1))"
    using do_dedup_store [OF 1] assms(1) fold_delete_sync by metis
  have s2: "map row_id (observations (fst st2)) = map fst (observations_fts (fst st2))"
    using do_evict_store [OF 2] s1 fold_delete_sync by metis
  from assms(2) 1 2 have "st' = st1 \<or> st' = st2"
    by (auto simp: do_compact_def split: sum.splits option.splits prod.splits)
  with s1 s2 show ?thesis by blast
qed

section \<open>Deduplication never finds a duplicate\<close>

lemma unique_hash_filter:
  "distinct (map row_hash rows) \<Longrightarrow> o1 \<in> set rows \<Longrightarrow> length (filter (\<lambda>r. row_hash r = row_hash o1) rows) = 1"
  by (induction rows) (auto simp: filter_empty_conv, metis image_eqI)

lemma no_stale_duplicates:
  assumes "distinct (map row_hash (observations S))"
  shows "compaction_find_stale_duplicates now w S = []"
proof -
  have "\<not> 1 < length (filter (\<lambda>r. row_hash r = row_hash o1) (filter P (observations S)))"
    if "o1 \<in> set (observations S)" for o1 P
  proof -
    have "filter (\<lambda>r. row_hash r = row_hash o1) (filter P (observations S)) =
        filter P (filter (\<lambda>r. row_hash r = row_hash o1) (observations S))"
      by (simp add: conj_commute)
    then have "length (filter (\<lambda>r. row_hash r = row_hash o1) (filter P (observations S)))
        \<le> length (filter (\<lambda>r. row_hash r = row_hash o1) (observations S))"
      by (metis length_filter_le)
    then show ?thesis using unique_hash_filter [OF assms that] by simp
  qed
  then show ?thesis
    by (auto simp: compaction_find_stale_duplicates_def Let_def filter_empty_conv)
qed

text \<open>The hash of a row binds its unique id, so two rows share a hash only by a collision.\<close>

lemma sealed_hashes_distinct:
  assumes "distinct (map row_id rows)"
    and "\<forall>r \<in> set rows. verify sha256 (row_envelope r) \<and> envelope_fits (row_envelope r)"
    and "\<not> collides sha256"
  shows "distinct (map row_hash rows)"
  using assms
proof (induction rows)
  case (Cons r rows)
  have "row_hash r \<noteq> row_hash q" if "q \<in> set rows" for q
  proof
    assume "row_hash r = row_hash q"
    then have "row_envelope r = row_envelope q"
      using Cons.prems that by (intro same_hash_same_envelope) (auto simp: row_envelope_def)
    then have "row_id r = row_id q" by (simp add: row_envelope_def)
    with Cons.prems(1) that show False by auto
  qed
  with Cons show ?case by auto
qed simp

text \<open>On a store whose rows the code sealed, the duplicate query returns nothing, however
  many observations carry the same payload, unless SHA-256 collides: the stored hash covers the
  unique row id and the predecessor, not only the payload.\<close>

theorem dedup_is_vacuous:
  assumes "distinct (map row_id (observations S))"
    and "\<forall>r \<in> set (observations S). verify sha256 (row_envelope r) \<and> envelope_fits (row_envelope r)"
  shows "compaction_find_stale_duplicates now w S = [] \<or> collides sha256"
  using no_stale_duplicates sealed_hashes_distinct [OF assms] by blast

theorem dedup_is_vacuous_witness:
  "compaction_find_stale_duplicates 20 86400 toy_store = [] \<or> collides (\<lambda>b. b)"
proof -
  have a: "distinct (map row_id (observations toy_store))" by (simp add: toy_store_def)
  have "length (hex_nat 7) = 1" by (simp add: hex_nat.simps)
  then have b: "\<forall>r \<in> set (observations toy_store). verify (\<lambda>b. b) (row_envelope r) \<and> envelope_fits (row_envelope r)"
    by (simp add: toy_store_def toy_row_def verify_def row_envelope_def envelope_fits_def fits_def
        gen_id_def GENESIS_PREV_HASH_def)
  show ?thesis by (rule dedup_is_vacuous [OF a b])
qed

theorem compaction_keeps_fts_in_sync_witness:
  "let st' = snd (do_compact toy_server \<lparr>now_dedup = 100, now_evict = 100,
       fault_dedup = False, fault_evict = False, vacuum_pages = None\<rparr>
       \<lparr>interval_ms = 1, dedup_window_secs = 1, max_age_ms = Some 50\<rparr> (toy_store, open_lazy ''c'', 0))
   in map row_id (observations (fst st')) = map fst (observations_fts (fst st'))"
proof -
  let ?r = "do_compact toy_server \<lparr>now_dedup = 100, now_evict = 100,
       fault_dedup = False, fault_evict = False, vacuum_pages = None\<rparr>
       \<lparr>interval_ms = 1, dedup_window_secs = 1, max_age_ms = Some 50\<rparr> (toy_store, open_lazy ''c'', 0)"
  have a: "map row_id (observations (fst (toy_store, open_lazy ''c'', 0))) =
      map fst (observations_fts (fst (toy_store, open_lazy ''c'', 0)))"
    by (simp add: toy_store_def toy_row_def)
  have "?r = (fst ?r, snd ?r)" by simp
  from compaction_keeps_fts_in_sync [OF a this] show ?thesis by (simp add: Let_def)
qed

section \<open>Age eviction breaks the chain\<close>

text \<open>Once age eviction removes the old part of a valid chain and keeps a newer part, the
  full chain check fails: the oldest kept row no longer starts from the genesis hash.\<close>

theorem eviction_breaks_chain:
  assumes "verify_full_chain sha256 S = Inr ()"
    and "\<forall>r \<in> set (observations S). row_hash r \<noteq> GENESIS_PREV_HASH"
    and "compaction_find_aged_rows now age S \<noteq> []"
    and "compaction_delete_by_ids False (compaction_find_aged_rows now age S) S = (Inr (), S')"
    and "observations S' \<noteq> []"
    and "distinct (map row_id (observations S))"
  shows "verify_full_chain sha256 S' = Inl (BrokenLink 0)"
proof -
  let ?c = "age_cutoff now age"
  have ids: "row_id r \<in> set (compaction_find_aged_rows now age S) \<longleftrightarrow> ts r < ?c"
    if "r \<in> set (observations S)" for r
    using that assms(6) by (auto simp: compaction_find_aged_rows_def Let_def distinct_map inj_on_def)
  have S': "observations S' = filter (\<lambda>r. \<not> ts r < ?c) (observations S)"
    using assms(3,4) ids
    by (auto simp: compaction_delete_by_ids_def fold_delete_observations intro!: filter_cong)
  let ?xs = "order_asc (observations S)"
  have ys: "order_asc (observations S') = filter (\<lambda>r. \<not> ts r < ?c) ?xs"
    by (simp add: S' order_asc_filter)
  then obtain e fs where efs: "order_asc (observations S') = e # fs"
    using assms(5) by (metis list.exhaust order_asc_eq_Nil)
  then obtain as bs where split: "?xs = as @ e # bs" "\<forall>r \<in> set as. ts r < ?c" "\<not> ts e < ?c"
    unfolding ys by (auto simp: filter_eq_Cons_iff)
  have "as \<noteq> []"
  proof
    assume "as = []"
    obtain r where r: "r \<in> set (observations S)" "ts r < ?c"
      using assms(3) by (auto simp: compaction_find_aged_rows_def Let_def filter_empty_conv)
    have "sorted (map ord_key (e # bs))"
      using order_asc_sorted [of "observations S"] split(1) \<open>as = []\<close> by simp
    moreover have "r \<in> set (e # bs)"
      using r(1) split(1) \<open>as = []\<close> by (metis append_Nil set_order_asc)
    ultimately have "ord_key e \<le> ord_key r" by auto
    then have "ts e \<le> ts r" by (auto simp: ord_key_def)
    with r split show False by simp
  qed
  have "row_prev_hash e = row_hash (last as)"
    using verify_chain_link [of sha256 "map row_envelope as" "row_envelope e" "map row_envelope bs"]
      assms(1) split(1) \<open>as \<noteq> []\<close>
    by (simp add: verify_full_chain_def head_hash_last last_map row_envelope_def)
  moreover have "last as \<in> set (observations S)"
    using split(1) \<open>as \<noteq> []\<close> by (metis UnI1 last_in_set set_append set_order_asc)
  ultimately have "row_prev_hash e \<noteq> GENESIS_PREV_HASH" using assms(2) by simp
  then show ?thesis
    using efs by (simp add: verify_full_chain_def verify_chain_def row_envelope_def)
qed

definition toy_row2 :: row where
  "toy_row2 = \<lparr>row_id = gen_id 8, ts = 60, source = ''s'', payload = ''{}'',
     row_prev_hash = row_hash toy_row, row_hash = compute_hash (\<lambda>b. b) (gen_id 8) (row_hash toy_row) ''{}''\<rparr>"

theorem eviction_breaks_chain_witness:
  "verify_full_chain (\<lambda>b. b) (snd (compaction_delete_by_ids False [gen_id 7]
     \<lparr>observations = [toy_row, toy_row2], observations_fts = []\<rparr>)) = Inl (BrokenLink 0)"
proof -
  let ?S = "\<lparr>observations = [toy_row, toy_row2], observations_fts = []\<rparr>"
  have asc: "order_asc (observations ?S) = [toy_row, toy_row2]"
    by (simp add: order_asc_def ord_key_def toy_row_def toy_row2_def)
  have aged: "compaction_find_aged_rows 100 50 ?S = [gen_id 7]"
    by (simp add: compaction_find_aged_rows_def Let_def toy_row_def toy_row2_def age_cutoff_def)
  have a: "verify_full_chain (\<lambda>b. b) ?S = Inr ()"
    unfolding verify_full_chain_def asc
    by (simp add: verify_chain_def verify_def row_envelope_def toy_row_def toy_row2_def)
  have len: "length (row_hash toy_row) \<noteq> 64" "length (row_hash toy_row2) \<noteq> 64"
    by (simp_all add: toy_row_def toy_row2_def compute_hash_def hash_message_def GENESIS_PREV_HASH_def)
  have b: "\<forall>r \<in> set (observations ?S). row_hash r \<noteq> GENESIS_PREV_HASH"
    using len by (auto simp: GENESIS_PREV_HASH_def)
  have c: "compaction_find_aged_rows 100 50 ?S \<noteq> []" by (simp add: aged)
  have d: "compaction_delete_by_ids False (compaction_find_aged_rows 100 50 ?S) ?S =
      (Inr (), fold delete_id [gen_id 7] ?S)"
    by (simp add: aged compaction_delete_by_ids_def)
  have e: "observations (fold delete_id [gen_id 7] ?S) \<noteq> []"
    by (simp add: delete_id_def toy_row_def toy_row2_def)
  have f: "distinct (map row_id (observations ?S))"
    by (simp add: toy_row_def toy_row2_def)
  from eviction_breaks_chain [OF a b c d e f] show ?thesis
    by (simp add: compaction_delete_by_ids_def)
qed

end
