(* ===== verification/Porter1.thy ===== *)
theory Porter1
  imports Prelude "HOL-Library.Monad_Syntax"
begin

text \<open>
  The Porter stemmer of \<open>crates/amore-core/src/porter1.rs\<close>.  The Rust code edits a byte buffer
  in place and passes the current word length \<open>end\<close> along; a step here takes the buffer and the
  length and returns both.  \<^const>\<open>None\<close> is a panic: a slice \<open>w[..end]\<close> past the buffer or a write
  out of range.  Reads are at positions below \<open>end\<close>, which the slice has checked.
\<close>

fun is_c :: "string \<Rightarrow> nat \<Rightarrow> bool" where
  "is_c w 0 = (w ! 0 \<notin> set ''aeiou'')"
| "is_c w (Suc i) =
     (if w ! Suc i \<in> set ''aeiou'' then False
      else if w ! Suc i = CHR ''y'' then \<not> is_c w i
      else True)"

text \<open>\<open>while i < end && p(i) { i += 1; }\<close>\<close>

function skip_while :: "(nat \<Rightarrow> bool) \<Rightarrow> nat \<Rightarrow> nat \<Rightarrow> nat" where
  "skip_while p e i = (if i < e \<and> p i then skip_while p e (Suc i) else i)"
  by pat_completeness auto
termination
  by (relation "measure (\<lambda>(p, e, i). e - i)") auto

declare skip_while.simps [simp del]

lemma skip_while_ge: "i \<le> skip_while p e i"
proof (induction p e i rule: skip_while.induct)
  case (1 p e i)
  then show ?case by (subst skip_while.simps) auto
qed

lemma skip_while_stop: "skip_while p e i < e \<Longrightarrow> \<not> p (skip_while p e i)"
proof (induction p e i rule: skip_while.induct)
  case (1 p e i)
  then show ?case by (cases "i < e \<and> p i") (auto simp: skip_while.simps [of p e i])
qed

lemma skip_while_all: "i \<le> j \<Longrightarrow> j < skip_while p e i \<Longrightarrow> j < e \<and> p j"
proof (induction p e i rule: skip_while.induct)
  case (1 p e i)
  show ?case
  proof (cases "i < e \<and> p i")
    case True
    then have "skip_while p e i = skip_while p e (Suc i)" by (subst skip_while.simps) simp
    with 1 True show ?thesis by (cases "i = j") auto
  next
    case False
    then have "skip_while p e i = i" by (subst skip_while.simps) (rule if_not_P)
    with 1 show ?thesis by simp
  qed
qed

lemma skip_while_progress: "i < e \<Longrightarrow> p i \<Longrightarrow> i < skip_while p e i"
  using skip_while_ge [of "Suc i" p e] by (simp add: skip_while.simps [of p e i])

function measure_loop :: "string \<Rightarrow> nat \<Rightarrow> nat \<Rightarrow> nat \<Rightarrow> nat" where
  "measure_loop w e i n =
     (let i1 = skip_while (\<lambda>j. \<not> is_c w j) e i in
      if e \<le> i1 then n
      else measure_loop w e (skip_while (is_c w) e i1) (Suc n))"
  by pat_completeness auto
termination
proof (relation "Wellfounded.measure (\<lambda>(w, e, i, n). e - i)")
  fix w e i n i1
  assume i1: "i1 = skip_while (\<lambda>j. \<not> is_c w j) e i" and lt: "\<not> e \<le> i1"
  then have "is_c w i1" using skip_while_stop [of "\<lambda>j. \<not> is_c w j" e i] by simp
  with lt have "i1 < skip_while (is_c w) e i1" by (intro skip_while_progress) simp_all
  moreover have "i \<le> i1" unfolding i1 by (rule skip_while_ge)
  ultimately show "((w, e, skip_while (is_c w) e i1, Suc n), w, e, i, n)
      \<in> Wellfounded.measure (\<lambda>(w, e, i, n). e - i)"
    using lt by simp
qed simp

declare measure_loop.simps [simp del]

definition porter_measure :: "string \<Rightarrow> nat \<Rightarrow> nat" where
  "porter_measure w e = measure_loop w e (skip_while (is_c w) e 0) 0"

definition vowel_in :: "string \<Rightarrow> nat \<Rightarrow> bool" where
  "vowel_in w e = list_ex (\<lambda>i. \<not> is_c w i) [0..<e]"

definition double_c :: "string \<Rightarrow> nat \<Rightarrow> bool" where
  "double_c w e = (2 \<le> e \<and> w ! (e - 1) = w ! (e - 2) \<and> is_c w (e - 1))"

definition cvc :: "string \<Rightarrow> nat \<Rightarrow> bool" where
  "cvc w e = (if e < 3 then False
     else let c = w ! (e - 1) in
       c \<noteq> CHR ''w'' \<and> c \<noteq> CHR ''x'' \<and> c \<noteq> CHR ''y''
       \<and> is_c w (e - 1) \<and> \<not> is_c w (e - 2) \<and> is_c w (e - 3))"

section \<open>The steps\<close>

type_synonym buffer = "string \<times> nat"

text \<open>\<open>w[..end].ends_with(suf)\<close> and the two kinds of write.\<close>

definition tail_is :: "string \<Rightarrow> nat \<Rightarrow> string \<Rightarrow> bool" where
  "tail_is w e suf = ends_with (take e w) suf"

definition write_at :: "string \<Rightarrow> nat \<Rightarrow> char \<Rightarrow> string option" where
  "write_at w i c = (if i < length w then Some (w[i := c]) else None)"

definition copy_at :: "string \<Rightarrow> nat \<Rightarrow> string \<Rightarrow> string option" where
  "copy_at w b r =
     (if b + length r \<le> length w then Some (take b w @ r @ drop (b + length r) w) else None)"

definition checked :: "(string \<Rightarrow> nat \<Rightarrow> buffer option) \<Rightarrow> buffer \<Rightarrow> buffer option" where
  "checked step b = (if snd b \<le> length (fst b) then step (fst b) (snd b) else None)"

definition s1a :: "string \<Rightarrow> nat \<Rightarrow> buffer option" where
  "s1a w e =
     (if tail_is w e ''sses'' then Some (w, e - 2)
      else if tail_is w e ''ies'' then do { w' \<leftarrow> write_at w (e - 3) (CHR ''i''); Some (w', e - 2) }
      else if tail_is w e ''ss'' then Some (w, e)
      else if tail_is w e ''s'' then Some (w, e - 1)
      else Some (w, e))"

definition s1b2 :: "string \<Rightarrow> nat \<Rightarrow> buffer option" where
  "s1b2 w e =
     (if tail_is w e ''at'' \<or> tail_is w e ''bl'' \<or> tail_is w e ''iz''
      then do { w' \<leftarrow> write_at w e (CHR ''e''); Some (w', e + 1) }
      else if double_c w e \<and> w ! (e - 1) \<notin> set ''lsz'' then Some (w, e - 1)
      else if porter_measure w e = 1 \<and> cvc w e
      then do { w' \<leftarrow> write_at w e (CHR ''e''); Some (w', e + 1) }
      else Some (w, e))"

definition s1b :: "string \<Rightarrow> nat \<Rightarrow> buffer option" where
  "s1b w e =
     (if tail_is w e ''eed'' then
        (let b = e - 3 in Some (w, if porter_measure w b > 0 then e - 1 else e))
      else if tail_is w e ''ed'' then
        (let b = e - 2 in if vowel_in w b then s1b2 w b else Some (w, e))
      else if tail_is w e ''ing'' then
        (let b = e - 3 in if vowel_in w b then s1b2 w b else Some (w, e))
      else Some (w, e))"

definition s1c :: "string \<Rightarrow> nat \<Rightarrow> buffer option" where
  "s1c w e =
     (if tail_is w e ''y'' \<and> vowel_in w (e - 1)
      then do { w' \<leftarrow> write_at w (e - 1) (CHR ''i''); Some (w', e) }
      else Some (w, e))"

text \<open>The \<open>rep!\<close> macro: the first suffix of the table that matches decides.\<close>

fun rep :: "(string \<times> string) list \<Rightarrow> string \<Rightarrow> nat \<Rightarrow> buffer option" where
  "rep [] w e = Some (w, e)"
| "rep ((suf, r) # table) w e =
     (if tail_is w e suf then
        (let b = e - length suf in
         if porter_measure w b > 0 then do { w' \<leftarrow> copy_at w b r; Some (w', b + length r) }
         else Some (w, e))
      else rep table w e)"

definition s2_table :: "(string \<times> string) list" where
  "s2_table = [(''ational'', ''ate''), (''tional'', ''tion''), (''enci'', ''ence''),
     (''anci'', ''ance''), (''izer'', ''ize''), (''abli'', ''able''), (''alli'', ''al''),
     (''entli'', ''ent''), (''eli'', ''e''), (''ousli'', ''ous''), (''ization'', ''ize''),
     (''ation'', ''ate''), (''ator'', ''ate''), (''alism'', ''al''), (''iveness'', ''ive''),
     (''fulness'', ''ful''), (''ousness'', ''ous''), (''aliti'', ''al''), (''iviti'', ''ive''),
     (''biliti'', ''ble'')]"

definition s2 :: "string \<Rightarrow> nat \<Rightarrow> buffer option" where
  "s2 w e = rep s2_table w e"

text \<open>\<open>m3rep!\<close> with one argument removes the suffix: its replacement is empty.\<close>

definition s3_table :: "(string \<times> string) list" where
  "s3_table = [(''icate'', ''ic''), (''ative'', []), (''alize'', ''al''), (''iciti'', ''ic''),
     (''ical'', ''ic''), (''ful'', []), (''ness'', [])]"

definition s3 :: "string \<Rightarrow> nat \<Rightarrow> buffer option" where
  "s3 w e = rep s3_table w e"

text \<open>The \<open>strip!\<close> macro: \<^const>\<open>None\<close> here means that no suffix of the list matched.\<close>

fun strip :: "string list \<Rightarrow> string \<Rightarrow> nat \<Rightarrow> nat option" where
  "strip [] w e = None"
| "strip (suf # sufs) w e =
     (if tail_is w e suf then
        (let b = e - length suf in Some (if porter_measure w b > 1 then b else e))
      else strip sufs w e)"

definition s4 :: "string \<Rightarrow> nat \<Rightarrow> buffer option" where
  "s4 w e =
     (case strip [''al'', ''ance'', ''ence'', ''er'', ''ic'', ''able'', ''ible'', ''ant'',
                  ''ement'', ''ment'', ''ent''] w e of
        Some n \<Rightarrow> Some (w, n)
      | None \<Rightarrow>
          if tail_is w e ''ion'' then
            (let b = e - 3 in
             Some (w, if 0 < b \<and> porter_measure w b > 1 \<and> w ! (b - 1) \<in> set ''st'' then b else e))
          else case strip [''ou'', ''ism'', ''ate'', ''iti'', ''ous'', ''ive'', ''ize''] w e of
            Some n \<Rightarrow> Some (w, n)
          | None \<Rightarrow> Some (w, e))"

definition s5a :: "string \<Rightarrow> nat \<Rightarrow> buffer option" where
  "s5a w e =
     (if tail_is w e ''e'' then
        (let b = e - 1 in
         Some (w, if porter_measure w b > 1 then b
                  else if porter_measure w b = 1 \<and> \<not> cvc w b then b
                  else e))
      else Some (w, e))"

definition s5b :: "string \<Rightarrow> nat \<Rightarrow> buffer option" where
  "s5b w e = Some (w, if tail_is w e ''ll'' \<and> porter_measure w e > 1 then e - 1 else e)"

definition stem :: "string \<Rightarrow> string option" where
  "stem s =
     (if length s \<le> 2 then Some s
      else do {
        b1 \<leftarrow> checked s1a (s, length s);
        b2 \<leftarrow> checked s1b b1;
        b3 \<leftarrow> checked s1c b2;
        b4 \<leftarrow> checked s2 b3;
        b5 \<leftarrow> checked s3 b4;
        b6 \<leftarrow> checked s4 b5;
        b7 \<leftarrow> checked s5a b6;
        b8 \<leftarrow> checked s5b b7;
        Some (take (snd b8) (fst b8)) })"

text \<open>\<open>Porter1Stream::advance\<close> on the text of one token.\<close>

definition stem_token :: "string \<Rightarrow> string option" where
  "stem_token text = (if list_all is_alpha text then stem text else Some text)"

text \<open>The stream over the tokens of the inner tokenizer; \<^const>\<open>None\<close> is a panic.\<close>

fun porter1_stream :: "string list \<Rightarrow> string list option" where
  "porter1_stream [] = Some []"
| "porter1_stream (tok # toks) =
     (case stem_token tok of
        None \<Rightarrow> None
      | Some t \<Rightarrow> (case porter1_stream toks of None \<Rightarrow> None | Some ts \<Rightarrow> Some (t # ts)))"

section \<open>The measure counts vowel-consonant boundaries\<close>

definition vc_boundaries :: "string \<Rightarrow> nat \<Rightarrow> nat \<Rightarrow> nat" where
  "vc_boundaries w e i = card {j. i \<le> j \<and> j < e \<and> 0 < j \<and> \<not> is_c w (j - 1) \<and> is_c w j}"

lemma vc_finite: "finite {j. i \<le> j \<and> j < e \<and> 0 < j \<and> \<not> is_c w (j - 1) \<and> is_c w j}"
  by (rule finite_subset [of _ "{..<e}"]) auto

text \<open>A stretch of consonants, or of vowels, holds no boundary beyond its first position.\<close>

lemma vc_skip:
  assumes "i \<le> m" and "\<And>j. i \<le> j \<Longrightarrow> j < m \<Longrightarrow> \<not> (0 < j \<and> \<not> is_c w (j - 1) \<and> is_c w j)"
  shows "vc_boundaries w e i = vc_boundaries w e m"
proof -
  have "{j. i \<le> j \<and> j < e \<and> 0 < j \<and> \<not> is_c w (j - 1) \<and> is_c w j} =
      {j. m \<le> j \<and> j < e \<and> 0 < j \<and> \<not> is_c w (j - 1) \<and> is_c w j}"
    using assms by (intro Collect_cong) (metis le_trans not_less)
  then show ?thesis by (simp add: vc_boundaries_def)
qed

lemma vc_at:
  assumes "i < e" "0 < i" "\<not> is_c w (i - 1)" "is_c w i"
  shows "vc_boundaries w e i = Suc (vc_boundaries w e (Suc i))"
proof -
  have "{j. i \<le> j \<and> j < e \<and> 0 < j \<and> \<not> is_c w (j - 1) \<and> is_c w j} =
      insert i {j. Suc i \<le> j \<and> j < e \<and> 0 < j \<and> \<not> is_c w (j - 1) \<and> is_c w j}"
    using assms by (auto simp: Suc_le_eq le_less)
  then show ?thesis by (simp add: vc_boundaries_def vc_finite)
qed

lemma vc_end: "e \<le> i \<Longrightarrow> vc_boundaries w e i = 0"
  by (auto simp: vc_boundaries_def)

text \<open>The loop invariant: at its head \<open>i\<close> is past a stretch of consonants.\<close>

lemma measure_loop_counts:
  "(i < e \<longrightarrow> \<not> is_c w i) \<Longrightarrow> measure_loop w e i n = n + vc_boundaries w e i"
proof (induction w e i n rule: measure_loop.induct)
  case (1 w e i n)
  define i1 where "i1 = skip_while (\<lambda>j. \<not> is_c w j) e i"
  have ge: "i \<le> i1" unfolding i1_def by (rule skip_while_ge)
  have vowels: "\<not> is_c w j" if "i \<le> j" "j < i1" for j
    using that skip_while_all unfolding i1_def by blast
  show ?case
  proof (cases "e \<le> i1")
    case True
    have "vc_boundaries w e i = vc_boundaries w e i1"
      using vowels by (intro vc_skip [OF ge]) auto
    with True show ?thesis
      by (simp add: measure_loop.simps [of w e i] vc_end flip: i1_def)
  next
    case False
    define i2 where "i2 = skip_while (is_c w) e i1"
    have c: "is_c w i1"
      using skip_while_stop [of "\<lambda>j. \<not> is_c w j" e i] False by (simp add: i1_def)
    have lt: "i < i1"
      using "1.prems" c False ge by (cases "i = i1") auto
    have "vc_boundaries w e i = vc_boundaries w e i1"
      using vowels by (intro vc_skip [OF ge]) auto
    also have "\<dots> = Suc (vc_boundaries w e (Suc i1))"
      using lt False c vowels [of "i1 - 1"] by (intro vc_at) auto
    also have "vc_boundaries w e (Suc i1) = vc_boundaries w e i2"
    proof (rule vc_skip)
      show "Suc i1 \<le> i2"
        using skip_while_progress [of i1 e "is_c w"] c False by (simp add: i2_def)
      show "\<not> (0 < j \<and> \<not> is_c w (j - 1) \<and> is_c w j)" if "Suc i1 \<le> j" "j < i2" for j
        using that skip_while_all [of i1 "j - 1" "is_c w" e] by (auto simp: i2_def)
    qed
    finally have "vc_boundaries w e i = Suc (vc_boundaries w e i2)" .
    moreover have "i2 < e \<longrightarrow> \<not> is_c w i2"
      unfolding i2_def by (auto dest: skip_while_stop)
    ultimately show ?thesis
      using "1.IH" [OF i1_def] False
      by (simp add: measure_loop.simps [of w e i] flip: i1_def i2_def)
  qed
qed

text \<open>The measure \<open>m\<close> of a prefix, computed by the nested \<open>while\<close> loops, is the number of
  positions at which a consonant follows a vowel, Porter's definition.\<close>

theorem porter_measure_correct:
  "porter_measure w e = card {j. 0 < j \<and> j < e \<and> \<not> is_c w (j - 1) \<and> is_c w j}"
proof -
  define i0 where "i0 = skip_while (is_c w) e 0"
  have c: "is_c w j" if "j < i0" for j
    using that skip_while_all [of 0 j "is_c w" e] by (simp add: i0_def)
  have "porter_measure w e = vc_boundaries w e i0"
    unfolding porter_measure_def i0_def [symmetric]
    by (subst measure_loop_counts) (auto simp: i0_def dest: skip_while_stop)
  also have "\<dots> = vc_boundaries w e 0"
    using c by (intro vc_skip [symmetric]) auto
  finally show ?thesis by (simp add: vc_boundaries_def conj_ac)
qed

section \<open>No step panics or leaves ASCII letters\<close>

text \<open>What a step keeps: the buffer's size, letters only, and a length that does not grow.\<close>

definition step_ok :: "string \<Rightarrow> nat \<Rightarrow> buffer option \<Rightarrow> bool" where
  "step_ok w e r = (case r of None \<Rightarrow> False
     | Some (w', e') \<Rightarrow> length w' = length w \<and> e' \<le> e \<and> (list_all is_alpha w \<longrightarrow> list_all is_alpha w'))"

lemma step_okI: "e' \<le> e \<Longrightarrow> step_ok w e (Some (w, e'))"
  by (simp add: step_ok_def)

lemma write_ok:
  "i < length w \<Longrightarrow> is_alpha c \<Longrightarrow> e' \<le> e \<Longrightarrow>
   step_ok w e (do { w' \<leftarrow> write_at w i c; Some (w', e') })"
  by (auto simp: step_ok_def write_at_def list_all_iff dest: set_update_subset_insert [THEN subsetD])

lemma copy_ok:
  "b + length r \<le> e \<Longrightarrow> e \<le> length w \<Longrightarrow> list_all is_alpha r \<Longrightarrow>
   step_ok w e (do { w' \<leftarrow> copy_at w b r; Some (w', b + length r) })"
  by (auto simp: step_ok_def copy_at_def list_all_iff dest: in_set_takeD in_set_dropD)

lemma step_ok_weaken: "step_ok w b r \<Longrightarrow> b \<le> e \<Longrightarrow> step_ok w e r"
  by (auto simp: step_ok_def split: option.splits)

lemma tail_is_length: "tail_is w e suf \<Longrightarrow> length suf \<le> e"
  by (cases "e \<le> length w")
     (auto simp: tail_is_def ends_with_def starts_with_def dest!: suffix_length_le prefix_length_le)

lemma s1a_ok: "e \<le> length w \<Longrightarrow> step_ok w e (s1a w e)"
  by (auto simp: s1a_def is_alpha_def is_lower_def is_upper_def
      dest!: tail_is_length intro!: step_okI write_ok)

lemma s1b2_ok: "b < e \<Longrightarrow> e \<le> length w \<Longrightarrow> step_ok w e (s1b2 w b)"
  by (auto simp: s1b2_def is_alpha_def is_lower_def is_upper_def intro!: step_okI write_ok)

lemma s1b_ok: "e \<le> length w \<Longrightarrow> step_ok w e (s1b w e)"
  by (auto simp: s1b_def Let_def dest!: tail_is_length intro!: step_okI s1b2_ok)

lemma s1c_ok: "e \<le> length w \<Longrightarrow> step_ok w e (s1c w e)"
  by (auto simp: s1c_def is_alpha_def is_lower_def is_upper_def
      dest!: tail_is_length intro!: step_okI write_ok)

lemma rep_ok:
  "e \<le> length w \<Longrightarrow>
   list_all (\<lambda>(suf, r). length r \<le> length suf \<and> list_all is_alpha r) table \<Longrightarrow>
   step_ok w e (rep table w e)"
proof (induction table)
  case (Cons a table)
  obtain suf r where a: "a = (suf, r)" by (rule prod.exhaust)
  show ?case
    using Cons tail_is_length [of w e suf] copy_ok [of "e - length suf" r e w]
    by (auto simp: a Let_def intro!: step_okI)
qed (simp add: step_okI)

lemma s2_ok: "e \<le> length w \<Longrightarrow> step_ok w e (s2 w e)"
  unfolding s2_def by (rule rep_ok) (simp_all add: s2_table_def is_alpha_def is_lower_def)

lemma s3_ok: "e \<le> length w \<Longrightarrow> step_ok w e (s3 w e)"
  unfolding s3_def by (rule rep_ok) (simp_all add: s3_table_def is_alpha_def is_lower_def)

lemma strip_le: "strip sufs w e = Some n \<Longrightarrow> n \<le> e"
  by (induction sufs) (auto simp: Let_def split: if_splits)

lemma s4_ok: "e \<le> length w \<Longrightarrow> step_ok w e (s4 w e)"
  by (auto simp: s4_def Let_def simp del: strip.simps split: option.split
      intro!: step_okI dest: strip_le)

lemma s5a_ok: "e \<le> length w \<Longrightarrow> step_ok w e (s5a w e)"
  by (auto simp: s5a_def Let_def intro!: step_okI)

lemma s5b_ok: "e \<le> length w \<Longrightarrow> step_ok w e (s5b w e)"
  by (auto simp: s5b_def intro!: step_okI)

text \<open>Steps compose.\<close>

definition sound_step :: "(string \<Rightarrow> nat \<Rightarrow> buffer option) \<Rightarrow> bool" where
  "sound_step step = (\<forall>w e. e \<le> length w \<longrightarrow> step_ok w e (step w e))"

definition then_step ::
  "(string \<Rightarrow> nat \<Rightarrow> buffer option) \<Rightarrow> (string \<Rightarrow> nat \<Rightarrow> buffer option) \<Rightarrow> string \<Rightarrow> nat \<Rightarrow> buffer option"
where
  "then_step f g w e = do { b \<leftarrow> checked f (w, e); checked g b }"

lemma sound_checkedD:
  assumes "sound_step f" "e \<le> length w"
  obtains w' e' where "checked f (w, e) = Some (w', e')" "length w' = length w" "e' \<le> e"
    "list_all is_alpha w \<longrightarrow> list_all is_alpha w'"
proof -
  have "step_ok w e (f w e)" using assms by (simp add: sound_step_def)
  with assms(2) that show thesis
    by (cases "f w e") (auto simp: checked_def step_ok_def)
qed

lemma sound_then [intro]:
  assumes "sound_step f" "sound_step g"
  shows "sound_step (then_step f g)"
  unfolding sound_step_def
proof (intro allI impI)
  fix w e assume e: "e \<le> length (w :: string)"
  obtain w1 e1 where 1: "checked f (w, e) = Some (w1, e1)" "length w1 = length w" "e1 \<le> e"
      "list_all is_alpha w \<longrightarrow> list_all is_alpha w1"
    using assms(1) e by (rule sound_checkedD)
  then have "e1 \<le> length w1" using e by simp
  obtain w2 e2 where 2: "checked g (w1, e1) = Some (w2, e2)" "length w2 = length w1" "e2 \<le> e1"
      "list_all is_alpha w1 \<longrightarrow> list_all is_alpha w2"
    using assms(2) \<open>e1 \<le> length w1\<close> by (rule sound_checkedD)
  from 1 2 show "step_ok w e (then_step f g w e)"
    by (simp add: then_step_def step_ok_def)
qed

lemma sound_steps:
  "sound_step s1a" "sound_step s1b" "sound_step s1c" "sound_step s2" "sound_step s3"
  "sound_step s4" "sound_step s5a" "sound_step s5b"
  by (simp_all add: sound_step_def s1a_ok s1b_ok s1c_ok s2_ok s3_ok s4_ok s5a_ok s5b_ok)

lemma checked_then: "checked (then_step f g) b = do { b' \<leftarrow> checked f b; checked g b' }"
  by (cases b) (simp add: checked_def [of "then_step f g"] then_step_def, simp add: checked_def)

definition all_steps :: "string \<Rightarrow> nat \<Rightarrow> buffer option" where
  "all_steps = then_step s1a (then_step s1b (then_step s1c (then_step s2 (then_step s3
     (then_step s4 (then_step s5a s5b))))))"

lemma stem_pipeline:
  "stem s = (if length s \<le> 2 then Some s
     else do { b \<leftarrow> checked all_steps (s, length s); Some (take (snd b) (fst b)) })"
  by (simp add: stem_def all_steps_def checked_then)

lemma sound_pipeline: "sound_step all_steps"
  unfolding all_steps_def by (intro sound_then sound_steps)

lemma stem_result:
  "\<exists>t. stem s = Some t \<and> length t \<le> length s \<and> (list_all is_alpha s \<longrightarrow> list_all is_alpha t)"
proof (cases "length s \<le> 2")
  case False
  obtain w e where "checked all_steps (s, length s) = Some (w, e)" "length w = length s"
      "e \<le> length s" "list_all is_alpha s \<longrightarrow> list_all is_alpha w"
    using sound_pipeline order_refl by (rule sound_checkedD)
  with False show ?thesis
    by (auto simp: stem_pipeline list_all_iff dest: in_set_takeD)
qed (simp add: stem_def)

text \<open>A text goes through the stream token by token: none is lost or added, tokens with other characters than ASCII
  letters pass unchanged, and no token grows.\<close>

lemma porter1_stream_result:
  "\<exists>ts. porter1_stream toks = Some ts
    \<and> list_all2 (\<lambda>tok t. length t \<le> length tok \<and> (\<not> list_all is_alpha tok \<longrightarrow> t = tok)) toks ts"
proof (induction toks)
  case (Cons tok toks)
  obtain t where "stem_token tok = Some t" "length t \<le> length tok" "\<not> list_all is_alpha tok \<longrightarrow> t = tok"
    using stem_result [of tok] by (cases "list_all is_alpha tok") (auto simp: stem_token_def)
  with Cons show ?case by auto
qed simp



text \<open>The module's own example is wrong: \<open>deployment\<close>, said to keep its suffix because
  \<open>m("deploy")\<close> is 1, has measure 2 before it (the \<open>y\<close> after a vowel is a consonant) and is
  stemmed to \<open>deploy\<close>.\<close>

theorem deployment_is_stemmed:
  "porter_measure ''deployment'' 6 = 2 \<and> stem ''deployment'' = Some ''deploy''"
  by code_simp

end
