(* ===== verification/StreamingIngest.thy ===== *)
theory StreamingIngest
  imports Wal SqliteStore QdrantStore
begin

text \<open>
  The streaming ingest pipeline of \<open>crates/amore-core/src/streaming_ingest.rs\<close>: a bounded queue,
  a consumer task that appends each record to the write-ahead log and flushes batches to the
  downstream stores, acknowledgement after a flush, and recovery at startup.  The interleaving of
  the producers, the consumer, its ticker and crashes is an explicit list of events.  The locale
  \<open>downstream_flush\<close> is the contract of the \<open>DownstreamFlush\<close> trait; \<open>ProductionFlush\<close>
  interprets it.
\<close>

record ingest_opts =
  queue_depth :: nat
  flush_interval_ns :: nat
  batch_size :: nat

definition default_ingest_opts :: ingest_opts where
  "default_ingest_opts = \<lparr>queue_depth = 1024, flush_interval_ns = 100 * 10 ^ 6, batch_size = 64\<rparr>"

datatype ingest_error = Backpressure | Shutdown | IngestOther string

type_synonym 'd flush = "wal_record list \<Rightarrow> 'd \<Rightarrow> (string + unit) \<times> 'd"

section \<open>The pipeline\<close>

record ('v, 'd) pipeline =
  p_opts :: ingest_opts
  p_queue :: "wal_record list"
  p_open :: bool
  p_running :: bool
  p_pending :: "(u64 \<times> wal_record) list"
  p_wal :: "'v wal"
  p_down :: 'd

text \<open>\<open>StreamingIngest::new\<close> on an opened log: a queue of depth zero panics; a zero flush
  interval makes the consumer task panic at once, which closes the channel.\<close>

definition new_pipeline :: "ingest_opts \<Rightarrow> 'v wal \<Rightarrow> 'd \<Rightarrow> (string + ('v, 'd) pipeline)" where
  "new_pipeline opts w d =
     (if queue_depth opts = 0 then Inl ''mpsc bounded channel requires buffer > 0''
      else Inr \<lparr>p_opts = opts, p_queue = [], p_open = True, p_running = (flush_interval_ns opts \<noteq> 0),
                p_pending = [], p_wal = w, p_down = d\<rparr>)"

definition submit :: "wal_record \<Rightarrow> ('v, 'd) pipeline \<Rightarrow> (ingest_error + unit) \<times> ('v, 'd) pipeline" where
  "submit rec p =
     (if \<not> p_running p then (Inl Shutdown, p)
      else if queue_depth (p_opts p) \<le> length (p_queue p) then (Inl Backpressure, p)
      else (Inr (), p\<lparr>p_queue := p_queue p @ [rec]\<rparr>))"

text \<open>The acknowledgements of a flushed batch; \<open>ios\<close> says which of them fail, and a failure is
  only logged.\<close>

fun ack_all :: "'v wal_codec \<Rightarrow> io_fault list \<Rightarrow> u64 list \<Rightarrow> 'v wal \<Rightarrow> 'v wal" where
  "ack_all X ios [] w = w"
| "ack_all X ios (s # ss) w =
     ack_all X (tl ios) ss (snd (ack X (case ios of [] \<Rightarrow> IoOk | io # _ \<Rightarrow> io) s w))"

definition flush_pending ::
  "'d flush \<Rightarrow> 'v wal_codec \<Rightarrow> io_fault list \<Rightarrow> ('v, 'd) pipeline \<Rightarrow> ('v, 'd) pipeline" where
  "flush_pending flush X ios p =
     (case flush (map snd (p_pending p)) (p_down p) of
        (Inr _, d') \<Rightarrow> p\<lparr>p_down := d', p_wal := ack_all X ios (map fst (p_pending p)) (p_wal p), p_pending := []\<rparr>
      | (Inl e, d') \<Rightarrow> p\<lparr>p_down := d', p_pending := []\<rparr>)"

text \<open>The two arms of the consumer's \<open>select!\<close>.\<close>

definition consumer_recv ::
  "'d flush \<Rightarrow> 'v wal_codec \<Rightarrow> io_fault \<Rightarrow> io_fault list \<Rightarrow> ('v, 'd) pipeline \<Rightarrow> ('v, 'd) pipeline" where
  "consumer_recv flush X io ios p =
     (if \<not> p_running p then p
      else case p_queue p of
        [] \<Rightarrow> if p_open p then p
               else (if p_pending p \<noteq> [] then flush_pending flush X ios p else p)\<lparr>p_running := False\<rparr>
      | rec # rest \<Rightarrow>
          (let p1 = p\<lparr>p_queue := rest\<rparr>;
               p2 = (case wal_append X io rec (p_wal p1) of
                       (Inr s, w') \<Rightarrow> p1\<lparr>p_wal := w', p_pending := p_pending p1 @ [(s, rec)]\<rparr>
                     | (Inl e, w') \<Rightarrow> p1\<lparr>p_wal := w'\<rparr>)
           in if batch_size (p_opts p2) \<le> length (p_pending p2) then flush_pending flush X ios p2 else p2))"

definition consumer_tick ::
  "'d flush \<Rightarrow> 'v wal_codec \<Rightarrow> io_fault list \<Rightarrow> ('v, 'd) pipeline \<Rightarrow> ('v, 'd) pipeline" where
  "consumer_tick flush X ios p =
     (if p_running p \<and> p_pending p \<noteq> [] then flush_pending flush X ios p else p)"

text \<open>\<open>flush\<close> returns once the channel is empty or closed.\<close>

definition flush_returns :: "('v, 'd) pipeline \<Rightarrow> bool" where
  "flush_returns p \<longleftrightarrow> \<not> p_running p \<or> p_queue p = []"

fun ack_each :: "'v wal_codec \<Rightarrow> io_fault list \<Rightarrow> u64 list \<Rightarrow> 'v wal \<Rightarrow> (string + unit) \<times> 'v wal" where
  "ack_each X ios [] w = (Inr (), w)"
| "ack_each X ios (s # ss) w =
     (case ack X (case ios of [] \<Rightarrow> IoOk | io # _ \<Rightarrow> io) s w of
        (Inl e, w') \<Rightarrow> (Inl e, w')
      | (Inr _, w') \<Rightarrow> ack_each X (tl ios) ss w')"

definition recover_on_startup ::
  "'d flush \<Rightarrow> 'v wal_codec \<Rightarrow> io_fault list \<Rightarrow> ('v, 'd) pipeline \<Rightarrow> (string + unit) \<times> ('v, 'd) pipeline" where
  "recover_on_startup flush X ios p =
     (case unacked X (p_wal p) of
        Inl e \<Rightarrow> (Inl e, p)
      | Inr todo \<Rightarrow>
          if todo = [] then (Inr (), p)
          else (case flush (map snd todo) (p_down p) of
            (Inl e, d') \<Rightarrow> (Inl e, p\<lparr>p_down := d'\<rparr>)
          | (Inr _, d') \<Rightarrow>
              (let (res, w') = ack_each X ios (map fst todo) (p_wal p)
               in (res, p\<lparr>p_down := d', p_wal := w'\<rparr>))))"

text \<open>A kill and restart: queue and batch are gone, the log is reopened.\<close>

definition restart :: "('v, 'd) pipeline \<Rightarrow> ('v, 'd) pipeline" where
  "restart p = p\<lparr>p_queue := [], p_open := True, p_running := (flush_interval_ns (p_opts p) \<noteq> 0), p_pending := [],
     p_wal := open_with_key (wal_db (p_wal p)) (machine_key (p_wal p))\<rparr>"

datatype ingest_event =
    Submit wal_record
  | Recv io_fault "io_fault list"
  | Tick "io_fault list"
  | CloseSenders
  | Restart
  | Recover "io_fault list"

fun pipe_step :: "'d flush \<Rightarrow> 'v wal_codec \<Rightarrow> ingest_event \<Rightarrow> ('v, 'd) pipeline \<Rightarrow> ('v, 'd) pipeline" where
  "pipe_step flush X (Submit rec) p = snd (submit rec p)"
| "pipe_step flush X (Recv io ios) p = consumer_recv flush X io ios p"
| "pipe_step flush X (Tick ios) p = consumer_tick flush X ios p"
| "pipe_step flush X CloseSenders p = p\<lparr>p_open := False\<rparr>"
| "pipe_step flush X Restart p = restart p"
| "pipe_step flush X (Recover ios) p = snd (recover_on_startup flush X ios p)"

fun pipe_run :: "'d flush \<Rightarrow> 'v wal_codec \<Rightarrow> ingest_event list \<Rightarrow> ('v, 'd) pipeline \<Rightarrow> ('v, 'd) pipeline" where
  "pipe_run flush X [] p = p"
| "pipe_run flush X (e # es) p = pipe_run flush X es (pipe_step flush X e p)"

text \<open>The sequence counter is not exhausted when a record is received.\<close>

fun seqs_left :: "'d flush \<Rightarrow> 'v wal_codec \<Rightarrow> ingest_event list \<Rightarrow> ('v, 'd) pipeline \<Rightarrow> bool" where
  "seqs_left flush X [] p = True"
| "seqs_left flush X (e # es) p =
     ((case e of Recv _ _ \<Rightarrow> wal_seq (p_wal p) \<noteq> - 1 | _ \<Rightarrow> True) \<and> seqs_left flush X es (pipe_step flush X e p))"

section \<open>The production stores\<close>

text \<open>The downstream state: the two stores, and how many insertions were made so far, which
  indexes the environment: for each insertion whether SQLite fails and the two clock readings,
  and the instants of the Qdrant call.\<close>

record 'q prod_state =
  d_sqlite :: sqlite_store
  d_qdrant :: "'q qstate"
  d_count :: nat

record insert_env =
  ie_fault :: bool
  ie_nanos :: nat
  ie_now :: int
  ie_t0 :: nat
  ie_t1 :: nat

record 'q prod_deps =
  pd_sha256 :: "bytes \<Rightarrow> bytes"
  pd_canon :: "json \<Rightarrow> string option"
  pd_parse :: "string \<Rightarrow> json option"
  pd_server :: "'q qdrant_server"
  pd_env :: "nat \<Rightarrow> insert_env"

definition ingest_source :: "wal_record \<Rightarrow> string" where
  "ingest_source rec = ''streaming_ingest:doc_'' @ dec_nat (unat (doc_id rec))"

definition flush_record :: "'q prod_deps \<Rightarrow> wal_record \<Rightarrow> 'q prod_state \<Rightarrow> (string + unit) \<times> 'q prod_state" where
  "flush_record D rec d =
     (case pd_parse D (payload_json rec) of
        None \<Rightarrow> (Inl ''parsing payload'', d)
      | Some v \<Rightarrow>
          (let E = pd_env D (d_count d) in
           case insert_observation (pd_sha256 D) (pd_canon D) (ie_fault E) (ie_nanos E) (ie_now E)
                  (ingest_source rec) v (d_sqlite d) of
             (Inl e, S') \<Rightarrow> (Inl ''sqlite insert'', d\<lparr>d_sqlite := S', d_count := Suc (d_count d)\<rparr>)
           | (Inr _, S') \<Rightarrow>
               (let vec = replicate (unat (vector_size (fst (d_qdrant d)))) 0;
                    (r, q') = upsert (pd_server D) (ie_t0 E) (ie_t1 E) (doc_id rec) vec v (d_qdrant d)
                in (r, \<lparr>d_sqlite = S', d_qdrant = q', d_count = Suc (d_count d)\<rparr>))))"

fun production_flush :: "'q prod_deps \<Rightarrow> 'q prod_state flush" where
  "production_flush D [] d = (Inr (), d)"
| "production_flush D (rec # recs) d =
     (case flush_record D rec d of
        (Inl e, d') \<Rightarrow> (Inl e, d')
      | (Inr _, d') \<Rightarrow> production_flush D recs d')"

text \<open>A record has reached SQLite: a row of its source holds its canonical payload.\<close>

definition in_sqlite :: "'q prod_deps \<Rightarrow> 'q prod_state \<Rightarrow> wal_record \<Rightarrow> bool" where
  "in_sqlite D d rec \<longleftrightarrow> (\<exists>v. pd_parse D (payload_json rec) = Some v \<and>
     (\<exists>r \<in> set (observations (d_sqlite d)). source r = ingest_source rec \<and> pd_canon D v = Some (payload r)))"

section \<open>The log's specification under acknowledgements\<close>

lemma items_keys:
  assumes "List.map_filter (wal_item X key) xs = map Inr L" and "distinct (map fst xs)"
    and "\<forall>p \<in> set xs. \<exists>s. fst p = rec_key s"
  shows "distinct (map fst L) \<and> (\<forall>p \<in> set L. rec_key (fst p) \<in> fst ` set xs)"
  using assms
proof (induction xs arbitrary: L)
  case (Cons x xs)
  then obtain s v where x: "x = (rec_key s, v)" by (cases x) auto
  show ?case
  proof (cases "wal_item X key x")
    case None
    with Cons.prems have "List.map_filter (wal_item X key) xs = map Inr L"
      by (simp add: List.map_filter_simps)
    with Cons.IH Cons.prems show ?thesis by simp
  next
    case (Some i)
    with Cons.prems(1) obtain p L' where L: "L = p # L'" "i = Inr p"
        "List.map_filter (wal_item X key) xs = map Inr L'"
      by (cases L) (auto simp: List.map_filter_simps)
    have "fst p = s"
      using Some L(2) by (auto simp: x wal_item_def split: if_splits option.splits)
    moreover have "distinct (map fst L') \<and> (\<forall>p \<in> set L'. rec_key (fst p) \<in> fst ` set xs)"
      using Cons.IH [OF L(3)] Cons.prems by simp
    moreover have "rec_key s \<notin> fst ` set xs" using Cons.prems(2) by (simp add: x)
    ultimately have "fst p \<notin> fst ` set L'" by (metis imageE)
    with \<open>fst p = s\<close> \<open>distinct (map fst L') \<and> _\<close> show ?thesis using L(1) by (auto simp: x)
  qed
qed (simp add: List.map_filter_simps)

lemma sim_log_keys:
  assumes "wal_sim X w A"
  shows "distinct (map fst (spec_log A))"
    and "(s, r) \<in> set (spec_log A) \<Longrightarrow> kv_contains (rec_key s) (wal_db w)"
proof -
  have ok: "wal_ok w" and items: "List.map_filter (wal_item X (machine_key w)) (wal_recs w) = map Inr (spec_log A)"
    using assms by (simp_all add: wal_sim_def)
  have "distinct (map fst (wal_db w))"
    using ok kv.entries_distinct by (auto simp: wal_ok_def)
  then have d: "distinct (map fst (wal_recs w))" by (simp add: wal_recs_def distinct_map_filter)
  have k: "\<forall>p \<in> set (wal_recs w). \<exists>s. fst p = rec_key s"
    using ok by (fastforce simp: wal_ok_def wal_recs_def)
  note ks = items_keys [OF items d k]
  then show "distinct (map fst (spec_log A))" by simp
  assume "(s, r) \<in> set (spec_log A)"
  from bspec [OF conjunct2 [OF ks] this] have "rec_key s \<in> fst ` set (wal_recs w)" by simp
  then have "rec_key s \<in> fst ` set (wal_db w)" unfolding wal_recs_def by auto
  then show "kv_contains (rec_key s) (wal_db w)"
    by (simp add: kv_contains_def domD flip: dom_map_of_conv_image_fst)
qed

lemma ack_sim:
  assumes "wal_sim X w A" and "s \<in> fst ` set (spec_log A)"
  shows "\<exists>A'. wal_sim X (snd (ack X io s w)) A' \<and> spec_log A' = spec_log A
    \<and> spec_acked A \<subseteq> spec_acked A' \<and> spec_acked A' \<subseteq> insert s (spec_acked A)
    \<and> (fst (ack X io s w) = Inr () \<longrightarrow> s \<in> spec_acked A')"
proof -
  have "kv_contains (rec_key s) (wal_db w)"
    using assms(2) sim_log_keys(2) [OF assms(1)] by fastforce
  from wal_sim_ack [OF assms(1) this, of io 0] show ?thesis
    by (intro exI [of _ "spec_step (OpAck io s) 0 A"]) (auto simp: ack_def split: io_fault.splits)
qed

lemma ack_all_sim:
  assumes "wal_sim X w A" and "set ss \<subseteq> fst ` set (spec_log A)"
  shows "\<exists>A'. wal_sim X (ack_all X ios ss w) A' \<and> spec_log A' = spec_log A
    \<and> spec_acked A' \<subseteq> set ss \<union> spec_acked A"
  using assms
proof (induction ss arbitrary: ios w A)
  case (Cons s ss)
  let ?io = "case ios of [] \<Rightarrow> IoOk | io # _ \<Rightarrow> io"
  obtain A1 where A1: "wal_sim X (snd (ack X ?io s w)) A1" "spec_log A1 = spec_log A"
      "spec_acked A1 \<subseteq> insert s (spec_acked A)"
    using ack_sim [of X w A s ?io] Cons.prems by auto
  obtain A2 where "wal_sim X (ack_all X (tl ios) ss (snd (ack X ?io s w))) A2" "spec_log A2 = spec_log A1"
      "spec_acked A2 \<subseteq> set ss \<union> spec_acked A1"
    using Cons.IH [OF A1(1), of "tl ios"] Cons.prems(2) A1(2) by auto
  with A1 show ?case by (intro exI [of _ A2]) auto
qed auto

lemma ack_each_sim:
  assumes "wal_sim X w A" and "set ss \<subseteq> fst ` set (spec_log A)"
  shows "\<exists>A'. wal_sim X (snd (ack_each X ios ss w)) A' \<and> spec_log A' = spec_log A
    \<and> spec_acked A \<subseteq> spec_acked A' \<and> spec_acked A' \<subseteq> set ss \<union> spec_acked A
    \<and> (fst (ack_each X ios ss w) = Inr () \<longrightarrow> set ss \<subseteq> spec_acked A')"
  using assms
proof (induction ss arbitrary: ios w A)
  case (Cons s ss)
  let ?io = "case ios of [] \<Rightarrow> IoOk | io # _ \<Rightarrow> io"
  obtain res w1 where ack: "ack X ?io s w = (res, w1)" by (rule prod.exhaust)
  obtain A1 where A1: "wal_sim X w1 A1" "spec_log A1 = spec_log A" "spec_acked A \<subseteq> spec_acked A1"
      "spec_acked A1 \<subseteq> insert s (spec_acked A)" "res = Inr () \<longrightarrow> s \<in> spec_acked A1"
    using ack_sim [of X w A s ?io] Cons.prems ack by auto
  show ?case
  proof (cases res)
    case (Inl e)
    with A1 ack show ?thesis by (intro exI [of _ A1]) auto
  next
    case (Inr u)
    obtain A2 where "wal_sim X (snd (ack_each X (tl ios) ss w1)) A2" "spec_log A2 = spec_log A1"
        "spec_acked A1 \<subseteq> spec_acked A2" "spec_acked A2 \<subseteq> set ss \<union> spec_acked A1"
        "fst (ack_each X (tl ios) ss w1) = Inr () \<longrightarrow> set ss \<subseteq> spec_acked A2"
      using Cons.IH [OF A1(1), of "tl ios"] Cons.prems(2) A1(2) by auto
    with A1 ack Inr show ?thesis by (intro exI [of _ A2]) auto
  qed
qed auto

section \<open>The contract of the downstream stores\<close>

locale downstream_flush =
  fixes flush :: "'d flush"
    and stored :: "'d \<Rightarrow> wal_record \<Rightarrow> bool"
  assumes flush_stores: "flush rs d = (Inr (), d') \<Longrightarrow> r \<in> set rs \<Longrightarrow> stored d' r"
    and flush_keeps: "stored d r \<Longrightarrow> stored (snd (flush rs d)) r"
begin

text \<open>The invariant: the log refines its specification, the batch is in the log, and only stored
  records are acknowledged.\<close>

definition pinv :: "'v wal_codec \<Rightarrow> log_spec \<Rightarrow> ('v, 'd) pipeline \<Rightarrow> bool" where
  "pinv X A p \<longleftrightarrow> wal_sim X (p_wal p) A \<and> set (p_pending p) \<subseteq> set (spec_log A)
     \<and> (\<forall>s r. (s, r) \<in> set (spec_log A) \<longrightarrow> s \<in> spec_acked A \<longrightarrow> stored (p_down p) r)"

lemma log_unique:
  "wal_sim X w A \<Longrightarrow> (s, r) \<in> set (spec_log A) \<Longrightarrow> (s, r') \<in> set (spec_log A) \<Longrightarrow> r = r'"
  by (meson eq_key_imp_eq_value sim_log_keys(1))

lemma keeps: "flush rs d = (res, d') \<Longrightarrow> stored d r \<Longrightarrow> stored d' r"
  using flush_keeps [of d r rs] by simp

text \<open>Acknowledging logged records that are stored keeps the invariant.\<close>

lemma acked_stored:
  assumes "wal_sim X w A" and "wal_sim X w' A'" and "spec_log A' = spec_log A"
    and "spec_acked A' \<subseteq> fst ` set ps \<union> spec_acked A" and "set ps \<subseteq> set (spec_log A)"
    and "\<And>s r. (s, r) \<in> set (spec_log A) \<Longrightarrow> s \<in> spec_acked A \<Longrightarrow> stored d r"
    and "\<And>p. p \<in> set ps \<Longrightarrow> stored d (snd p)"
    and "(s, r) \<in> set (spec_log A')" and "s \<in> spec_acked A'"
  shows "stored d r"
proof (cases "s \<in> spec_acked A")
  case False
  have "s \<in> fst ` set ps" using False assms(4,9) by blast
  then obtain p where p: "p \<in> set ps" "fst p = s" by auto
  then have "(s, snd p) \<in> set (spec_log A)" using assms(5) by auto
  then have "snd p = r" using log_unique [OF assms(1)] assms(3,8) by simp
  with p assms(7) [of p] show ?thesis by simp
next
  case True
  show ?thesis using assms(3,8) by (intro assms(6) [OF _ True]) simp
qed

lemma flush_pending_inv:
  assumes "pinv X A p"
  shows "\<exists>A'. pinv X A' (flush_pending flush X ios p) \<and> spec_log A' = spec_log A"
proof -
  obtain res d' where f: "flush (map snd (p_pending p)) (p_down p) = (res, d')" by (rule prod.exhaust)
  have sim: "wal_sim X (p_wal p) A" and sub: "set (p_pending p) \<subseteq> set (spec_log A)"
    using assms by (simp_all add: pinv_def)
  have old: "stored d' r" if "(s, r) \<in> set (spec_log A)" "s \<in> spec_acked A" for s r
    using that assms keeps [OF f] by (auto simp: pinv_def)
  show ?thesis
  proof (cases res)
    case (Inl e)
    with f sim old show ?thesis by (intro exI [of _ A]) (auto simp: flush_pending_def pinv_def)
  next
    case (Inr u)
    obtain A' where A': "wal_sim X (ack_all X ios (map fst (p_pending p)) (p_wal p)) A'"
        "spec_log A' = spec_log A" "spec_acked A' \<subseteq> set (map fst (p_pending p)) \<union> spec_acked A"
      using ack_all_sim [OF sim, of "map fst (p_pending p)" ios] sub by auto
    have new: "stored d' (snd q)" if "q \<in> set (p_pending p)" for q
      using flush_stores [of "map snd (p_pending p)" "p_down p" d' "snd q"] f Inr that by simp
    have "stored d' r" if "(s, r) \<in> set (spec_log A')" "s \<in> spec_acked A'" for s r
      using acked_stored [OF sim A'(1,2) _ sub, of d' s r] A'(3) old new that by simp
    with f Inr A' show ?thesis by (intro exI [of _ A']) (auto simp: flush_pending_def pinv_def)
  qed
qed

lemma recv_inv:
  assumes inv: "pinv X A p" and X: "serde_ok X" and left: "wal_seq (p_wal p) \<noteq> - 1"
  shows "\<exists>A'. pinv X A' (consumer_recv flush X io ios p) \<and> set (spec_log A) \<subseteq> set (spec_log A')
    \<and> (p_running p \<longrightarrow> io = IoOk \<longrightarrow> (\<forall>rec rest. p_queue p = rec # rest \<longrightarrow>
         length (payload_json rec) \<le> MAX_WAL_PAYLOAD_BYTES \<longrightarrow> rec \<in> snd ` set (spec_log A')))"
proof (cases "p_running p \<and> p_queue p \<noteq> []")
  case False
  show ?thesis
  proof (cases "p_running p \<and> \<not> p_open p \<and> p_pending p \<noteq> []")
    case True
    obtain A' where "pinv X A' (flush_pending flush X ios p)" "spec_log A' = spec_log A"
      using flush_pending_inv [OF inv] by blast
    with False True show ?thesis
      by (intro exI [of _ A']) (auto simp: consumer_recv_def pinv_def)
  next
    case no: False
    with False inv show ?thesis
      by (intro exI [of _ A]) (auto simp: consumer_recv_def pinv_def split: list.split)
  qed
next
  case True
  then obtain rec rest where q: "p_queue p = rec # rest" by (cases "p_queue p") auto
  define A1 where "A1 = spec_step (OpAppend io rec) (wal_seq (p_wal p)) A"
  define p1 where "p1 = (case wal_append X io rec (p_wal p) of
      (Inr s, w') \<Rightarrow> p\<lparr>p_queue := rest, p_wal := w', p_pending := p_pending p @ [(s, rec)]\<rparr>
    | (Inl e, w') \<Rightarrow> p\<lparr>p_queue := rest, p_wal := w'\<rparr>)"
  have sim: "wal_sim X (p_wal p) A" using inv by (simp add: pinv_def)
  have sub: "set (spec_log A) \<subseteq> set (spec_log A1)" "spec_acked A1 = spec_acked A"
    by (auto simp: A1_def)
  obtain res w1 where app: "wal_append X io rec (p_wal p) = (res, w1)" by (rule prod.exhaust)
  have logged: "s = wal_seq (p_wal p) \<and> spec_log A1 = spec_log A @ [(s, rec)]" if "res = Inr s" for s
    using that app by (auto simp: A1_def wal_append_def Let_def split: if_splits option.splits io_fault.splits)
  have new_unacked: "wal_seq (p_wal p) \<notin> spec_acked A"
    using sim wal_ok_fresh(2) [of "p_wal p"] by (auto simp: wal_sim_def)
  have sim1: "wal_sim X w1 A1"
    using wal_sim_append [OF sim X left, of io rec] by (simp add: app A1_def)
  have "stored (p_down p) r" if "(s, r) \<in> set (spec_log A1)" "s \<in> spec_acked A1" for s r
    using that inv new_unacked sub(2) by (auto simp: A1_def pinv_def split: if_splits)
  then have inv1: "pinv X A1 p1"
    using inv sim1 sub logged by (cases res) (auto simp: p1_def app pinv_def)
  have got: "rec \<in> snd ` set (spec_log A1)"
    if "io = IoOk" "length (payload_json rec) \<le> MAX_WAL_PAYLOAD_BYTES"
    using that by (auto simp: A1_def)
  have recv: "consumer_recv flush X io ios p =
      (if batch_size (p_opts p1) \<le> length (p_pending p1) then flush_pending flush X ios p1 else p1)"
    using True q by (simp add: consumer_recv_def p1_def Let_def app split: sum.split)
  obtain A2 where A2: "pinv X A2 (consumer_recv flush X io ios p)" "spec_log A2 = spec_log A1"
    using flush_pending_inv [OF inv1] inv1 by (cases "batch_size (p_opts p1) \<le> length (p_pending p1)") (auto simp: recv)
  with sub got q show ?thesis by (intro exI [of _ A2]) auto
qed

lemma recover_inv:
  assumes inv: "pinv X A p"
  shows "\<exists>A'. pinv X A' (snd (recover_on_startup flush X ios p)) \<and> spec_log A' = spec_log A
    \<and> (fst (recover_on_startup flush X ios p) = Inr () \<longrightarrow> fst ` set (spec_log A') \<subseteq> spec_acked A')"
proof -
  have sim: "wal_sim X (p_wal p) A" using inv by (simp add: pinv_def)
  note un = wal_sim_unacked [OF sim]
  have all: "fst ` set (spec_log A) \<subseteq> fst ` set (unacked_spec A) \<union> spec_acked A"
    by (auto simp: unacked_spec_def image_iff)
  have sub: "set (unacked_spec A) \<subseteq> set (spec_log A)" by (auto simp: unacked_spec_def)
  then have keys: "set (map fst (unacked_spec A)) \<subseteq> fst ` set (spec_log A)" by auto
  show ?thesis
  proof (cases "unacked_spec A = []")
    case True
    with un inv all show ?thesis by (intro exI [of _ A]) (simp add: recover_on_startup_def)
  next
    case False
    obtain res d' where f: "flush (map snd (unacked_spec A)) (p_down p) = (res, d')" by (rule prod.exhaust)
    have old: "stored d' r" if "(s, r) \<in> set (spec_log A)" "s \<in> spec_acked A" for s r
      using that inv keeps [OF f] by (auto simp: pinv_def)
    show ?thesis
    proof (cases res)
      case (Inl e)
      with f un inv old False show ?thesis
        by (intro exI [of _ A]) (auto simp: recover_on_startup_def pinv_def)
    next
      case (Inr u)
      obtain A' where A': "wal_sim X (snd (ack_each X ios (map fst (unacked_spec A)) (p_wal p))) A'"
          "spec_log A' = spec_log A" "spec_acked A \<subseteq> spec_acked A'"
          "spec_acked A' \<subseteq> set (map fst (unacked_spec A)) \<union> spec_acked A"
          "fst (ack_each X ios (map fst (unacked_spec A)) (p_wal p)) = Inr () \<longrightarrow>
             set (map fst (unacked_spec A)) \<subseteq> spec_acked A'"
        using ack_each_sim [OF sim keys, of ios] by blast
      have new: "stored d' (snd q)" if "q \<in> set (unacked_spec A)" for q
        using flush_stores [of "map snd (unacked_spec A)" "p_down p" d' "snd q"] f Inr that by simp
      have st: "stored d' r" if "(s, r) \<in> set (spec_log A')" "s \<in> spec_acked A'" for s r
        using acked_stored [OF sim A'(1,2) _ sub, of d' s r] A'(4) old new that by simp
      have "set (p_pending p) \<subseteq> set (spec_log A')" using inv A'(2) by (simp add: pinv_def)
      moreover have "fst ` set (spec_log A') \<subseteq> spec_acked A'"
        if "fst (ack_each X ios (map fst (unacked_spec A)) (p_wal p)) = Inr ()"
      proof -
        from that A'(5) have "fst ` set (unacked_spec A) \<subseteq> spec_acked A'" by simp
        from order_trans [OF all Un_least [OF this A'(3)]] A'(2) show ?thesis by simp
      qed
      ultimately show ?thesis using f Inr A'(1,2) un False st
        by (intro exI [of _ A']) (auto simp: recover_on_startup_def pinv_def Let_def split: prod.split)
    qed
  qed
qed

lemma step_inv:
  assumes "pinv X A p" and "serde_ok X"
    and "case e of Recv _ _ \<Rightarrow> wal_seq (p_wal p) \<noteq> - 1 | _ \<Rightarrow> True"
  shows "\<exists>A'. pinv X A' (pipe_step flush X e p) \<and> set (spec_log A) \<subseteq> set (spec_log A')"
proof (cases e)
  case (Submit rec)
  with assms show ?thesis by (intro exI [of _ A]) (simp add: submit_def pinv_def)
next
  case (Recv io ios)
  with recv_inv [OF assms(1,2), of io ios] assms(3) show ?thesis by auto
next
  case (Tick ios)
  with flush_pending_inv [OF assms(1), of ios] assms(1) show ?thesis
    by (auto simp: consumer_tick_def)
next
  case CloseSenders
  with assms show ?thesis by (intro exI [of _ A]) (simp add: pinv_def)
next
  case Restart
  with assms show ?thesis
    by (intro exI [of _ A]) (simp add: pinv_def restart_def wal_sim_reopen)
next
  case (Recover ios)
  with recover_inv [OF assms(1), of ios] show ?thesis by auto
qed

lemma run_inv:
  assumes "pinv X A p" and "serde_ok X" and "seqs_left flush X es p"
  shows "\<exists>A'. pinv X A' (pipe_run flush X es p) \<and> set (spec_log A) \<subseteq> set (spec_log A')"
  using assms
proof (induction es arbitrary: A p)
  case (Cons e es)
  obtain A1 where "pinv X A1 (pipe_step flush X e p)" "set (spec_log A) \<subseteq> set (spec_log A1)"
    using step_inv [OF Cons.prems(1,2)] Cons.prems(3) by auto
  with Cons.IH [of A1] Cons.prems show ?case by fastforce
qed auto

lemma new_inv:
  "new_pipeline opts (open_with_key [] key) d = Inr p \<Longrightarrow> pinv X \<lparr>spec_log = [], spec_acked = {}\<rparr> p"
  using wal_sim_init [of X key] by (auto simp: new_pipeline_def pinv_def split: if_splits)

text \<open>A logged record is replayed by the next recovery or stored.\<close>

lemma logged_safe:
  assumes "pinv X A p" and "r \<in> snd ` set (spec_log A)"
  shows "(\<exists>todo. unacked X (p_wal p) = Inr todo \<and> r \<in> snd ` set todo) \<or> stored (p_down p) r"
proof -
  from assms(2) obtain s where s: "(s, r) \<in> set (spec_log A)" by auto
  show ?thesis
  proof (cases "s \<in> spec_acked A")
    case True
    with s assms show ?thesis by (auto simp: pinv_def)
  next
    case False
    with s have "(s, r) \<in> set (unacked_spec A)" by (simp add: unacked_spec_def)
    moreover have "unacked X (p_wal p) = Inr (unacked_spec A)"
      using assms(1) wal_sim_unacked by (auto simp: pinv_def)
    ultimately show ?thesis by force
  qed
qed

lemma appended_safe:
  assumes X: "serde_ok X" and p0: "new_pipeline opts (open_with_key [] key) d = Inr p0"
    and left1: "seqs_left flush X es p0" and p: "p = pipe_run flush X es p0"
    and q: "p_running p" "p_queue p = rec # rest" "length (payload_json rec) \<le> MAX_WAL_PAYLOAD_BYTES"
    and left2: "seqs_left flush X (Recv IoOk ios # es') p"
    and p': "p' = pipe_run flush X (Recv IoOk ios # es') p"
  shows "(\<exists>todo. unacked X (p_wal p') = Inr todo \<and> rec \<in> snd ` set todo) \<or> stored (p_down p') rec"
proof -
  obtain A where A: "pinv X A p"
    using run_inv [OF new_inv [OF p0] X left1] p by blast
  obtain A1 where A1: "pinv X A1 (consumer_recv flush X IoOk ios p)" "rec \<in> snd ` set (spec_log A1)"
    using recv_inv [OF A X, of IoOk ios] q left2 by auto
  obtain A2 where A2: "pinv X A2 p'" "set (spec_log A1) \<subseteq> set (spec_log A2)"
    using run_inv [OF A1(1) X, of es'] left2 p' by auto
  from logged_safe [OF A2(1)] A1(2) A2(2) show ?thesis by blast
qed

text \<open>After a recovery that reports success nothing is left to replay, and everything in the log
  is stored.\<close>

lemma recovery_completes:
  assumes X: "serde_ok X" and p0: "new_pipeline opts (open_with_key [] key) d = Inr p0"
    and left: "seqs_left flush X es p0"
    and r: "recover_on_startup flush X ios (pipe_run flush X es p0) = (Inr (), p')"
  shows "unacked X (p_wal p') = Inr [] \<and>
    (\<forall>i \<in> set (iter_from X (p_wal p') 0). \<exists>s r. i = Inr (s, r) \<and> stored (p_down p') r)"
proof -
  obtain A where A: "pinv X A (pipe_run flush X es p0)"
    using run_inv [OF new_inv [OF p0] X left] by blast
  obtain A' where A': "pinv X A' p'" "fst ` set (spec_log A') \<subseteq> spec_acked A'"
    using recover_inv [OF A, of ios] r by auto
  have sim: "wal_sim X (p_wal p') A'" using A' by (simp add: pinv_def)
  have "unacked_spec A' = []" using A'(2) by (auto simp: unacked_spec_def filter_empty_conv)
  with wal_sim_unacked [OF sim] have 1: "unacked X (p_wal p') = Inr []" by simp
  have "iter_from X (p_wal p') 0 = map Inr (spec_log A')"
    using sim iter_from_0 [of "p_wal p'" X] by (simp add: wal_sim_def)
  moreover have "stored (p_down p') r" if "(s, r) \<in> set (spec_log A')" for s r
    using that A' by (auto simp: pinv_def)
  ultimately have "\<forall>i \<in> set (iter_from X (p_wal p') 0). \<exists>s r. i = Inr (s, r) \<and> stored (p_down p') r"
    by auto
  with 1 show ?thesis by simp
qed

end

section \<open>The production stores meet the contract\<close>

lemma flush_record_keeps:
  assumes "flush_record D rec d = (res, d')" and "in_sqlite D d r"
  shows "in_sqlite D d' r"
proof (cases "pd_parse D (payload_json rec)")
  case (Some v)
  let ?E = "pd_env D (d_count d)"
  obtain x S' where ins: "insert_observation (pd_sha256 D) (pd_canon D) (ie_fault ?E) (ie_nanos ?E) (ie_now ?E)
      (ingest_source rec) v (d_sqlite d) = (x, S')" by (rule prod.exhaust)
  have "set (observations (d_sqlite d)) \<subseteq> set (observations S')"
    using ins by (rule insert_observation_mono)
  moreover have "d_sqlite d' = S'"
    using assms(1) Some ins by (auto simp: flush_record_def Let_def split: sum.splits prod.splits)
  ultimately show ?thesis using assms(2) by (auto simp: in_sqlite_def)
qed (use assms in \<open>auto simp: flush_record_def\<close>)

lemma flush_record_stores:
  assumes "flush_record D rec d = (Inr (), d')"
  shows "in_sqlite D d' rec"
proof -
  obtain v where v: "pd_parse D (payload_json rec) = Some v"
    using assms by (auto simp: flush_record_def split: option.splits)
  let ?E = "pd_env D (d_count d)"
  obtain x S' where ins: "insert_observation (pd_sha256 D) (pd_canon D) (ie_fault ?E) (ie_nanos ?E) (ie_now ?E)
      (ingest_source rec) v (d_sqlite d) = (x, S')" by (rule prod.exhaust)
  have S': "d_sqlite d' = S'" "\<exists>e. x = Inr e"
    using assms v ins by (auto simp: flush_record_def Let_def split: sum.splits prod.splits)
  show ?thesis
    using insert_observation_cases [of "pd_sha256 D" "pd_canon D" "ie_fault ?E" "ie_nanos ?E" "ie_now ?E"
        "ingest_source rec" v "d_sqlite d"]
  proof cases
    case (fails e)
    with ins S' show ?thesis by auto
  next
    case (inserts env n)
    have "n \<in> set (observations S')" "source n = ingest_source rec"
      using inserts ins by auto
    moreover have "pd_canon D v = Some (payload n)"
      using inserts by (auto simp: seal_def row_envelope_def Let_def split: option.splits)
    ultimately show ?thesis using v S' by (auto simp: in_sqlite_def)
  qed
qed

lemma production_keeps:
  "in_sqlite D d r \<Longrightarrow> in_sqlite D (snd (production_flush D rs d)) r"
proof (induction rs arbitrary: d)
  case (Cons rec rs)
  obtain x d1 where "flush_record D rec d = (x, d1)" by (rule prod.exhaust)
  with Cons flush_record_keeps [of D rec d x d1 r] show ?case by (cases x) auto
qed simp

lemma production_stores:
  "production_flush D rs d = (Inr (), d') \<Longrightarrow> r \<in> set rs \<Longrightarrow> in_sqlite D d' r"
proof (induction rs arbitrary: d)
  case (Cons rec rs)
  obtain x d1 where f: "flush_record D rec d = (x, d1)" by (rule prod.exhaust)
  with Cons.prems obtain u where u: "x = Inr u" "production_flush D rs d1 = (Inr (), d')"
    by (cases x) auto
  show ?case
  proof (cases "r = rec")
    case True
    with f u flush_record_stores [of D rec d d1] production_keeps [of D d1 rec rs] show ?thesis by simp
  next
    case False
    with Cons u show ?thesis by simp
  qed
qed simp

interpretation production: downstream_flush "production_flush D" "in_sqlite D"
  by unfold_locales (auto intro: production_stores production_keeps)

section \<open>Properties\<close>

text \<open>C3: whatever is submitted, however appends, flushes and acknowledgements fail and whenever
  the process is killed: a record whose append succeeded is from then on always either in
  SQLite, or among the records the next recovery replays.\<close>

theorem appended_never_lost:
  assumes "serde_ok X" and "new_pipeline opts (open_with_key [] key) d = Inr p0"
    and "seqs_left (production_flush D) X es p0" and "p = pipe_run (production_flush D) X es p0"
    and "p_running p" and "p_queue p = rec # rest"
    and "length (payload_json rec) \<le> MAX_WAL_PAYLOAD_BYTES"
    and "seqs_left (production_flush D) X (Recv IoOk ios # es') p"
    and "p' = pipe_run (production_flush D) X (Recv IoOk ios # es') p"
  shows "(\<exists>todo. unacked X (p_wal p') = Inr todo \<and> rec \<in> snd ` set todo) \<or> in_sqlite D (p_down p') rec"
  using assms by (rule production.appended_safe)


text \<open>A concrete pipeline: depth 2, batches of 2, one record queued.\<close>

definition toy_deps :: "nat prod_deps" where
  "toy_deps = \<lparr>pd_sha256 = (\<lambda>b. b), pd_canon = (\<lambda>v. Some ''{}''), pd_parse = (\<lambda>s. Some (JObj [])),
     pd_server = toy_server, pd_env = (\<lambda>n. \<lparr>ie_fault = False, ie_nanos = n, ie_now = 0, ie_t0 = 0, ie_t1 = 0\<rparr>)\<rparr>"

definition toy_pipeline :: "wal_record list \<Rightarrow> (wal_envelope option, nat prod_state) pipeline" where
  "toy_pipeline recs = \<lparr>p_opts = \<lparr>queue_depth = 2, flush_interval_ns = 3, batch_size = 2\<rparr>, p_queue = recs,
     p_open = True, p_running = True, p_pending = [], p_wal = open_with_key [] ''key'',
     p_down = \<lparr>d_sqlite = empty_store, d_qdrant = (open_lazy ''c'', 0), d_count = 0\<rparr>\<rparr>"

lemma toy_pipeline_new:
  "new_pipeline \<lparr>queue_depth = 2, flush_interval_ns = 3, batch_size = 2\<rparr> (open_with_key [] ''key'')
     \<lparr>d_sqlite = empty_store, d_qdrant = (open_lazy ''c'', 0), d_count = 0\<rparr> = Inr (toy_pipeline [])"
  by (simp add: new_pipeline_def toy_pipeline_def)

lemma toy_pipeline_submit:
  "pipe_run flush X [Submit (toy_record 2)] (toy_pipeline []) = toy_pipeline [toy_record 2]"
  by (simp add: submit_def toy_pipeline_def)

theorem appended_never_lost_witness:
  "let p' = pipe_run (production_flush toy_deps) toy_codec [Recv IoOk [], Tick [FlushFails], Restart]
      (toy_pipeline [toy_record 2])
   in (\<exists>todo. unacked toy_codec (p_wal p') = Inr todo \<and> toy_record 2 \<in> snd ` set todo)
      \<or> in_sqlite toy_deps (p_down p') (toy_record 2)"
proof -
  let ?F = "production_flush toy_deps"
  have left: "seqs_left ?F toy_codec [Submit (toy_record 2)] (toy_pipeline [])" by simp
  have p: "toy_pipeline [toy_record 2] = pipe_run ?F toy_codec [Submit (toy_record 2)] (toy_pipeline [])"
    by (rule toy_pipeline_submit [symmetric])
  have q: "p_running (toy_pipeline [toy_record 2])" "p_queue (toy_pipeline [toy_record 2]) = [toy_record 2]"
    "length (payload_json (toy_record 2)) \<le> MAX_WAL_PAYLOAD_BYTES"
    by (simp_all add: toy_pipeline_def toy_record_def MAX_WAL_PAYLOAD_BYTES_def)
  have left2: "seqs_left ?F toy_codec [Recv IoOk [], Tick [FlushFails], Restart] (toy_pipeline [toy_record 2])"
    by (simp add: toy_pipeline_def open_with_key_def kv_last_prefix_def)
  show ?thesis unfolding Let_def
    by (rule appended_never_lost [OF toy_serde_ok toy_pipeline_new left p q left2 refl])
qed


text \<open>Memory stays bounded: the queue by its depth, the batch by its size.\<close>

definition bounded :: "('v, 'd) pipeline \<Rightarrow> bool" where
  "bounded p \<longleftrightarrow> length (p_queue p) \<le> queue_depth (p_opts p)
     \<and> length (p_pending p) \<le> batch_size (p_opts p) - 1"

lemma flush_pending_bounded: "bounded p \<Longrightarrow> bounded (flush_pending flush X ios p)"
  by (auto simp: bounded_def flush_pending_def split: sum.splits prod.splits)

lemma flush_pending_empty:
  "p_pending (flush_pending flush X ios p) = []" "p_queue (flush_pending flush X ios p) = p_queue p"
  "p_opts (flush_pending flush X ios p) = p_opts p"
  by (auto simp: flush_pending_def split: sum.splits prod.splits)

lemma recv_bounded: "bounded p \<Longrightarrow> bounded (consumer_recv flush X io ios p)"
  by (auto simp: bounded_def consumer_recv_def Let_def flush_pending_empty not_le
      split: list.split sum.split prod.split)

lemma step_bounded: "bounded p \<Longrightarrow> bounded (pipe_step flush X e p)"
proof (cases e)
  case (Recover ios)
  assume "bounded p"
  with Recover show ?thesis
    by (auto simp: recover_on_startup_def bounded_def Let_def split: sum.splits prod.splits)
qed (auto simp: submit_def consumer_tick_def restart_def recv_bounded flush_pending_bounded
    intro: recv_bounded, auto simp: bounded_def)

text \<open>In every run, with any downstream store, the queue never exceeds its depth and the
  batch stays below its size (a batch size of zero flushes every record at once); a submission to
  a full queue is refused and changes nothing.\<close>

theorem pipeline_bounded:
  assumes "new_pipeline opts w d = Inr p0"
  shows "bounded (pipe_run flush X es p0) \<and>
    (p_running p \<longrightarrow> length (p_queue p) = queue_depth (p_opts p) \<longrightarrow> submit rec p = (Inl Backpressure, p))"
proof -
  have "bounded (pipe_run flush X es p)" if "bounded p" for p
    using that by (induction es arbitrary: p) (auto intro: step_bounded)
  moreover have "bounded p0"
    using assms by (auto simp: new_pipeline_def bounded_def split: if_splits)
  ultimately show ?thesis by (simp add: submit_def)
qed

theorem pipeline_bounded_witness:
  "bounded (pipe_run (production_flush toy_deps) toy_codec
     [Submit (toy_record 2), Submit (toy_record 3), Submit (toy_record 4)] (toy_pipeline []))"
  using pipeline_bounded [OF toy_pipeline_new] by blast

text \<open>The log does not cover a record that is still in the queue: a kill between an accepted
  submission and its reception leaves exactly the state of a run without the submission.\<close>

theorem accepted_record_lost_on_kill:
  "restart (snd (submit rec p)) = restart p"
  by (simp add: submit_def restart_def)

end
