(* ===== verification/Cache.thy ===== *)
theory Cache
  imports KvStore
begin

text \<open>
  The two-level recall cache of \<open>crates/amore-core/src/cache.rs\<close>: an in-memory level with a
  time-to-live and evictions, and an on-disk level, the ordered store of \<open>KvStore\<close>.  SHA-256 and
  the serialisation of the hits are parameters; times are seconds.
\<close>

record cache_opts =
  l1_capacity :: u64
  l2_capacity_bytes :: u64
  ttl :: nat

definition default_cache_opts :: cache_opts where
  "default_cache_opts = \<lparr>l1_capacity = 10000, l2_capacity_bytes = 1073741824, ttl = 3600\<rparr>"

record ('h, 'v) recall_cache =
  l1 :: "u64 \<Rightarrow> ('h \<times> nat) option"
  l2 :: "(bytes, 'v) kv"
  cache_opts :: cache_opts

record ('h, 'v) hits_codec =
  h_ser :: "'h \<Rightarrow> 'v option"
  h_deser :: "'v \<Rightarrow> 'h option"

text \<open>The on-disk level may hold entries of an earlier run.\<close>

definition new_cache :: "(bytes, 'v) kv \<Rightarrow> cache_opts \<Rightarrow> ('h, 'v) recall_cache" where
  "new_cache disk opts = \<lparr>l1 = (\<lambda>_. None), l2 = disk, cache_opts = opts\<rparr>"

definition cache_message :: "string \<Rightarrow> nat \<Rightarrow> bytes" where
  "cache_message query top_k = query @ '':'' @ dec_nat top_k"

definition from_be_bytes :: "bytes \<Rightarrow> u64" where
  "from_be_bytes bs = word_of_nat (foldl (\<lambda>a c. 256 * a + of_char c) 0 bs)"

definition cache_key :: "(bytes \<Rightarrow> bytes) \<Rightarrow> string \<Rightarrow> nat \<Rightarrow> u64" where
  "cache_key sha256 query top_k = from_be_bytes (take 8 (sha256 (cache_message query top_k)))"

definition l1_get :: "nat \<Rightarrow> u64 \<Rightarrow> ('h, 'v) recall_cache \<Rightarrow> 'h option" where
  "l1_get now key c =
     (case l1 c key of
        None \<Rightarrow> None
      | Some (hits, t) \<Rightarrow> if t + ttl (cache_opts c) \<le> now then None else Some hits)"

definition l1_insert :: "nat \<Rightarrow> u64 \<Rightarrow> 'h \<Rightarrow> ('h, 'v) recall_cache \<Rightarrow> ('h, 'v) recall_cache" where
  "l1_insert now key hits c = c\<lparr>l1 := (l1 c)(key \<mapsto> (hits, now))\<rparr>"

definition l2_get :: "('h, 'v) hits_codec \<Rightarrow> bool \<Rightarrow> u64 \<Rightarrow> ('h, 'v) recall_cache \<Rightarrow> string + 'h option" where
  "l2_get H fault key c =
     (if fault then Inl ''sled L2 get''
      else case kv_get (be_bytes key) (l2 c) of
        None \<Rightarrow> Inr None
      | Some v \<Rightarrow> (case h_deser H v of
          None \<Rightarrow> Inl ''deserialising L2 cache entry''
        | Some hits \<Rightarrow> Inr (Some hits)))"

definition l2_put ::
  "('h, 'v) hits_codec \<Rightarrow> bool \<Rightarrow> u64 \<Rightarrow> 'h \<Rightarrow> ('h, 'v) recall_cache \<Rightarrow> (string + unit) \<times> ('h, 'v) recall_cache" where
  "l2_put H fault key hits c =
     (case h_ser H hits of
        None \<Rightarrow> (Inl ''serialising cache entry for L2'', c)
      | Some v \<Rightarrow> if fault then (Inl ''sled L2 insert'', c)
          else (Inr (), c\<lparr>l2 := kv_put (be_bytes key) v (l2 c)\<rparr>))"

definition cache_get ::
  "(bytes \<Rightarrow> bytes) \<Rightarrow> ('h, 'v) hits_codec \<Rightarrow> bool \<Rightarrow> nat \<Rightarrow> string \<Rightarrow> nat \<Rightarrow> ('h, 'v) recall_cache
    \<Rightarrow> 'h option \<times> ('h, 'v) recall_cache" where
  "cache_get sha256 H fault now query top_k c =
     (let key = cache_key sha256 query top_k in
      case l1_get now key c of
        Some hits \<Rightarrow> (Some hits, c)
      | None \<Rightarrow>
          (case l2_get H fault key c of
             Inr (Some hits) \<Rightarrow> (Some hits, l1_insert now key hits c)
           | Inr None \<Rightarrow> (None, c)
           | Inl e \<Rightarrow> (None, c)))"

definition cache_put ::
  "(bytes \<Rightarrow> bytes) \<Rightarrow> ('h, 'v) hits_codec \<Rightarrow> bool \<Rightarrow> nat \<Rightarrow> string \<Rightarrow> nat \<Rightarrow> 'h \<Rightarrow> ('h, 'v) recall_cache
    \<Rightarrow> ('h, 'v) recall_cache" where
  "cache_put sha256 H fault now query top_k hits c =
     (let key = cache_key sha256 query top_k
      in snd (l2_put H fault key hits (l1_insert now key hits c)))"

datatype io_fault_point = NoFault | ClearFails | ClearFlushFails

text \<open>\<open>fault\<close> tells whether clearing, or the flush after it, fails.\<close>

definition invalidate_all :: "io_fault_point \<Rightarrow> ('h, 'v) recall_cache \<Rightarrow> (string + unit) \<times> ('h, 'v) recall_cache" where
  "invalidate_all fault c =
     (let c1 = c\<lparr>l1 := (\<lambda>_. None)\<rparr> in
      case fault of
        ClearFails \<Rightarrow> (Inl ''clearing sled L2 cache'', c1)
      | ClearFlushFails \<Rightarrow> (Inl ''flushing sled L2 after clear'', c1\<lparr>l2 := []\<rparr>)
      | NoFault \<Rightarrow> (Inr (), c1\<lparr>l2 := []\<rparr>))"

definition invalidate_l1_all :: "('h, 'v) recall_cache \<Rightarrow> ('h, 'v) recall_cache" where
  "invalidate_l1_all c = c\<lparr>l1 := (\<lambda>_. None)\<rparr>"

text \<open>The in-memory level drops entries of its own accord when it is full.\<close>

definition evict_l1 :: "u64 list \<Rightarrow> ('h, 'v) recall_cache \<Rightarrow> ('h, 'v) recall_cache" where
  "evict_l1 keys c = c\<lparr>l1 := (\<lambda>k. if k \<in> set keys then None else l1 c k)\<rparr>"

lemmas cache_defs = cache_get_def cache_put_def l1_get_def l1_insert_def l2_get_def l2_put_def
  invalidate_all_def invalidate_l1_all_def evict_l1_def

section \<open>The key\<close>

lemma split_last_colon:
  "CHR '':'' \<notin> set d \<Longrightarrow> CHR '':'' \<notin> set d' \<Longrightarrow> q @ CHR '':'' # d = q' @ CHR '':'' # d' \<Longrightarrow> q = q' \<and> d = d'"
  by (auto simp: append_eq_append_conv2 append_eq_Cons_conv Cons_eq_append_conv)

lemma colon_not_digit: "CHR '':'' \<notin> set (dec_nat n)"
  using dec_nat_digits [of n] by (auto simp: list_all_iff is_digit_def)

lemma cache_message_inject:
  "cache_message q k = cache_message q' k' \<longleftrightarrow> q = q' \<and> k = k'"
  using split_last_colon [of "dec_nat k" "dec_nat k'" q q']
  by (auto simp: cache_message_def colon_not_digit dec_nat_inject)

section \<open>The cache refines a map\<close>

datatype 'h cache_op =
    Put nat string nat 'h
  | Get nat string nat
  | Evict "u64 list"
  | InvalidateAll
  | InvalidateL1

fun cache_step ::
  "(bytes \<Rightarrow> bytes) \<Rightarrow> ('h, 'v) hits_codec \<Rightarrow> 'h cache_op \<Rightarrow> ('h, 'v) recall_cache \<Rightarrow> ('h, 'v) recall_cache" where
  "cache_step sha256 H (Put now q k hits) c = cache_put sha256 H False now q k hits c"
| "cache_step sha256 H (Get now q k) c = snd (cache_get sha256 H False now q k c)"
| "cache_step sha256 H (Evict keys) c = evict_l1 keys c"
| "cache_step sha256 H InvalidateAll c = snd (invalidate_all NoFault c)"
| "cache_step sha256 H InvalidateL1 c = invalidate_l1_all c"

fun last_put :: "'h cache_op list \<Rightarrow> string \<Rightarrow> nat \<Rightarrow> 'h option \<Rightarrow> 'h option" where
  "last_put [] q k m = m"
| "last_put (Put now q' k' hits # os) q k m = last_put os q k (if q' = q \<and> k' = k then Some hits else m)"
| "last_put (InvalidateAll # os) q k m = last_put os q k None"
| "last_put (Get now q' k' # os) q k m = last_put os q k m"
| "last_put (Evict keys # os) q k m = last_put os q k m"
| "last_put (InvalidateL1 # os) q k m = last_put os q k m"

definition codec_ok :: "('h, 'v) hits_codec \<Rightarrow> bool" where
  "codec_ok H \<longleftrightarrow> (\<forall>h. \<exists>v. h_ser H h = Some v \<and> h_deser H v = Some h)"

text \<open>The disk holds the value, and memory holds the same value or nothing.\<close>

definition coherent :: "('h, 'v) hits_codec \<Rightarrow> ('h, 'v) recall_cache \<Rightarrow> u64 \<Rightarrow> 'h option \<Rightarrow> bool" where
  "coherent H c key m \<longleftrightarrow> kv_ok (l2 c)
     \<and> (case m of
          None \<Rightarrow> kv_get (be_bytes key) (l2 c) = None \<and> l1 c key = None
        | Some h \<Rightarrow> (\<exists>v. kv_get (be_bytes key) (l2 c) = Some v \<and> h_deser H v = Some h)
            \<and> (\<forall>h' t. l1 c key = Some (h', t) \<longrightarrow> h' = h))"

lemma coherent_get:
  "coherent H c (cache_key sha256 q k) m \<Longrightarrow> fst (cache_get sha256 H False now q k c) = m"
  by (auto simp: coherent_def cache_defs Let_def split: option.splits prod.splits)

definition other_key :: "(bytes \<Rightarrow> bytes) \<Rightarrow> string \<Rightarrow> nat \<Rightarrow> 'h cache_op \<Rightarrow> bool" where
  "other_key sha256 q k oper = (case oper of
     Put _ q' k' _ \<Rightarrow> (q', k') = (q, k) \<or> cache_key sha256 q' k' \<noteq> cache_key sha256 q k
   | _ \<Rightarrow> True)"

lemma coherent_kv_get_ser:
  assumes "codec_ok H"
  obtains v where "h_ser H h = Some v" "h_deser H v = Some h"
  using assms by (auto simp: codec_ok_def)

lemma coherent_put:
  assumes H: "codec_ok H" and c: "coherent H c key m"
  shows "coherent H (cache_put sha256 H False now q k h c) key
    (if cache_key sha256 q k = key then Some h else m)"
proof -
  obtain v where v: "h_ser H h = Some v" "h_deser H v = Some h"
    using H by (rule coherent_kv_get_ser)
  have ok: "kv_ok (l2 c)" using c by (simp add: coherent_def)
  show ?thesis
    using c v kv_get_put [OF ok] kv_put_sorted [OF ok]
    by (auto simp: coherent_def cache_put_def l2_put_def l1_insert_def Let_def be_bytes_inject split: option.splits)
qed

lemma coherent_read:
  "coherent H c key m \<Longrightarrow> coherent H (snd (cache_get sha256 H False now q k c)) key m"
  by (auto simp: coherent_def cache_defs Let_def split: option.splits prod.splits)

lemma coherent_step:
  assumes "codec_ok H" and "coherent H c (cache_key sha256 q k) m" and "other_key sha256 q k oper"
  shows "coherent H (cache_step sha256 H oper c) (cache_key sha256 q k) (last_put [oper] q k m)"
proof (cases oper)
  case (Put now q' k' h)
  with assms coherent_put [OF assms(1,2), of sha256 now q' k' h] show ?thesis
    by (auto simp: other_key_def)
next
  case (Get now q' k')
  with assms(2) show ?thesis by (simp add: coherent_read)
qed (use assms(2) in \<open>auto simp: coherent_def cache_defs Let_def kv_get_def split: option.splits\<close>)

lemma last_put_Cons: "last_put (oper # os) q k m = last_put os q k (last_put [oper] q k m)"
  by (cases oper) auto

lemma coherent_run:
  assumes "codec_ok H" and "coherent H c (cache_key sha256 q k) m" and "list_all (other_key sha256 q k) os"
  shows "coherent H (fold (cache_step sha256 H) os c) (cache_key sha256 q k) (last_put os q k m)"
  using assms(2,3)
proof (induction os arbitrary: c m)
  case (Cons oper os)
  from Cons.prems have "coherent H (cache_step sha256 H oper c) (cache_key sha256 q k) (last_put [oper] q k m)"
    by (intro coherent_step [OF assms(1)]) simp_all
  from Cons.IH [OF this] Cons.prems show ?case by (subst last_put_Cons) simp
qed simp


definition toy_hits :: "(nat, nat) hits_codec" where
  "toy_hits = \<lparr>h_ser = Some, h_deser = Some\<rparr>"

definition toy_digest :: "bytes \<Rightarrow> bytes" where
  "toy_digest b = (if b = cache_message ''cat'' 5 then ''A'' else ''B'')"


text \<open>The disk level has no time-to-live: an entry is still served any time after its
  configured lifetime, although the options promise it for both levels.\<close>

theorem disk_entries_never_expire:
  assumes "codec_ok H" and "kv_ok (l2 c)"
  shows "fst (cache_get sha256 H False (now + ttl (cache_opts c) + later) q k
    (cache_put sha256 H False now q k h c)) = Some h"
proof -
  obtain v where "h_ser H h = Some v" "h_deser H v = Some h"
    using assms(1) by (rule coherent_kv_get_ser)
  with assms(2) show ?thesis
    by (simp add: cache_defs Let_def kv_get_put)
qed

theorem disk_entries_never_expire_witness:
  "fst (cache_get toy_digest toy_hits False (10 + 3600 + 5) ''cat'' 5
    (cache_put toy_digest toy_hits False 10 ''cat'' 5 7 (new_cache [] default_cache_opts))) = Some 7"
  using disk_entries_never_expire [of toy_hits "new_cache [] default_cache_opts" toy_digest 10 5 "''cat''" 5 7]
  by (simp add: codec_ok_def toy_hits_def new_cache_def default_cache_opts_def)

end
