(* ===== verification/Float32.thy ===== *)
theory Float32
  imports Complex_Main "HOL-Library.Log_Nat"
begin

text \<open>
  Rust's \<open>f32\<close> and \<open>f64\<close> arithmetic on finite values: a value is the rational it denotes, and every
  operation rounds its exact result to the nearest multiple of the unit in the last place, ties
  to even, with 24 significant bits and subnormals down to \<open>2^-149\<close> (53 bits and \<open>2^-1074\<close>).
  Infinities and NaN are not modelled: the scores and confidences of the program stay far below
  \<open>2^128\<close>.
\<close>

definition half_even :: "rat \<Rightarrow> int" where
  "half_even z = (let f = \<lfloor>z\<rfloor>; d = z - of_int f in
     if d < 1/2 then f else if d > 1/2 then f + 1 else if even f then f else f + 1)"

definition flog2 :: "rat \<Rightarrow> int" where
  "flog2 x = (let (p, q) = quotient_of x; k = bitlen p - bitlen q in
     if 2 powi k \<le> x then k else k - 1)"

text \<open>A format has \<open>p + 1\<close> significant bits and the exponent \<open>e\<close> of the smallest subnormal.\<close>

definition ulp_exp :: "int \<Rightarrow> int \<Rightarrow> rat \<Rightarrow> int" where
  "ulp_exp p e x = max (flog2 x - p) e"

definition ulp :: "int \<Rightarrow> int \<Rightarrow> rat \<Rightarrow> rat" where
  "ulp p e x = 2 powi (ulp_exp p e x)"

definition round_pos :: "int \<Rightarrow> int \<Rightarrow> rat \<Rightarrow> rat" where
  "round_pos p e x = of_int (half_even (x / ulp p e x)) * ulp p e x"

definition round_to :: "int \<Rightarrow> int \<Rightarrow> rat \<Rightarrow> rat" where
  "round_to p e x = (if x = 0 then 0 else if x < 0 then - round_pos p e (- x) else round_pos p e x)"

definition f32 :: "rat \<Rightarrow> rat" where
  "f32 = round_to 23 (- 149)"

definition f64 :: "rat \<Rightarrow> rat" where
  "f64 = round_to 52 (- 1074)"

abbreviation fadd :: "rat \<Rightarrow> rat \<Rightarrow> rat" where
  "fadd x y \<equiv> f32 (x + y)"

abbreviation fdiv :: "rat \<Rightarrow> rat \<Rightarrow> rat" where
  "fdiv x y \<equiv> f32 (x / y)"

section \<open>Rounding to an integer\<close>

lemma half_even_of_int [simp]: "half_even (of_int n) = n"
  by (simp add: half_even_def)

lemma half_even_bounds: "\<lfloor>z\<rfloor> \<le> half_even z" "half_even z \<le> \<lfloor>z\<rfloor> + 1"
  by (simp_all add: half_even_def Let_def)

lemma half_even_error: "\<bar>of_int (half_even z) - z\<bar> \<le> 1/2"
proof -
  have "0 \<le> z - of_int \<lfloor>z\<rfloor>" "z - of_int \<lfloor>z\<rfloor> < 1" by linarith+
  then show ?thesis by (auto simp: half_even_def Let_def)
qed

lemma half_even_mono: "x \<le> y \<Longrightarrow> half_even x \<le> half_even y"
proof (cases "\<lfloor>x\<rfloor> = \<lfloor>y\<rfloor>")
  case True
  assume "x \<le> y"
  then have "x - of_int \<lfloor>x\<rfloor> \<le> y - of_int \<lfloor>y\<rfloor>" using True by simp
  with True show ?thesis by (auto simp: half_even_def Let_def)
next
  case False
  assume "x \<le> y"
  then have "\<lfloor>x\<rfloor> + 1 \<le> \<lfloor>y\<rfloor>" using False floor_mono [of x y] by linarith
  then show ?thesis using half_even_bounds [of x] half_even_bounds [of y] by linarith
qed

lemma half_even_le_int: "x \<le> of_int n \<Longrightarrow> half_even x \<le> n"
  using half_even_mono [of x "of_int n"] by simp

lemma half_even_ge_int: "of_int n \<le> x \<Longrightarrow> n \<le> half_even x"
  using half_even_mono [of "of_int n" x] by simp

section \<open>The binary exponent\<close>

lemma bitlen_powi_aux:
  assumes "0 < (n :: int)" and "1 \<le> bitlen n"
  shows "2 powi (bitlen n - 1) \<le> (of_int n :: rat)" and "(of_int n :: rat) < 2 powi (bitlen n)"
proof -
  have b: "2 ^ nat (bitlen n - 1) \<le> n" "n < 2 ^ nat (bitlen n)"
    using bitlen_bounds [OF assms(1)] by auto
  have "(2 powi (bitlen n - 1) :: rat) = of_int (2 ^ nat (bitlen n - 1))"
    using assms(2) by (simp add: power_int_def)
  also have "\<dots> \<le> of_int n" using b(1) of_int_le_iff by blast
  finally show "2 powi (bitlen n - 1) \<le> (of_int n :: rat)" .
  have "(of_int n :: rat) < of_int (2 ^ nat (bitlen n))" using b(2) of_int_less_iff by blast
  also have "\<dots> = 2 powi (bitlen n)"
    using assms(2) by (simp add: power_int_def)
  finally show "(of_int n :: rat) < 2 powi (bitlen n)" .
qed

lemma bitlen_powi:
  assumes "0 < (n :: int)"
  shows "2 powi (bitlen n - 1) \<le> (of_int n :: rat)" and "(of_int n :: rat) < 2 powi (bitlen n)"
proof -
  have "bitlen n \<noteq> 0" using assms by (simp add: bitlen_eq_zero_iff)
  then have "1 \<le> bitlen n" using bitlen_nonneg [of n] by linarith
  from bitlen_powi_aux [OF assms this]
  show "2 powi (bitlen n - 1) \<le> (of_int n :: rat)" "(of_int n :: rat) < 2 powi (bitlen n)" by auto
qed

lemma powi_less_iff: "(2 :: rat) powi a < 2 powi b \<longleftrightarrow> a < b"
  by (metis not_le one_less_numeral_iff power_int_increasing power_int_strict_increasing semiring_norm(76) less_imp_le)

lemma flog2_bounds:
  assumes "0 < x"
  shows "2 powi (flog2 x) \<le> x" and "x < 2 powi (flog2 x + 1)"
proof -
  obtain p q where pq: "quotient_of x = (p, q)" by (rule prod.exhaust)
  have q: "0 < q" using quotient_of_denom_pos [OF pq] .
  have x: "x = of_int p / of_int q" using quotient_of_div [OF pq] .
  have p: "0 < p" using assms q by (simp add: x zero_less_divide_iff)
  let ?k = "bitlen p - bitlen q"
  have "x < 2 powi (bitlen p) / 2 powi (bitlen q - 1)"
    unfolding x using bitlen_powi [OF p] bitlen_powi [OF q] q p
    by (intro frac_less) auto
  also have "\<dots> = 2 powi (?k + 1)"
    by (simp add: power_int_diff [symmetric] diff_diff_eq2 add.commute [of _ 1] add_diff_eq)
  finally have hi: "x < 2 powi (?k + 1)" .
  have "2 powi (?k - 1) = 2 powi (bitlen p - 1) / (2 :: rat) powi (bitlen q)"
    by (simp add: power_int_diff [symmetric] diff_right_commute)
  also have "\<dots> \<le> x"
    unfolding x using bitlen_powi [OF p] bitlen_powi [OF q] q p
    by (intro frac_le) auto
  finally have lo: "2 powi (?k - 1) \<le> x" .
  show "2 powi (flog2 x) \<le> x" "x < 2 powi (flog2 x + 1)"
    using hi lo by (auto simp: flog2_def pq Let_def not_le)
qed

lemma flog2_unique:
  assumes "2 powi e \<le> x" and "x < 2 powi (e + 1)"
  shows "flog2 x = e"
proof -
  have "0 < x" using assms(1) zero_less_power_int [of "2 :: rat" e] by linarith
  note b = flog2_bounds [OF this]
  have "(2 :: rat) powi e < 2 powi (flog2 x + 1)" "(2 :: rat) powi (flog2 x) < 2 powi (e + 1)"
    using assms b by simp_all
  then show ?thesis by (simp add: powi_less_iff)
qed

lemma flog2_mono: "0 < x \<Longrightarrow> x \<le> y \<Longrightarrow> flog2 x \<le> flog2 y"
proof -
  assume "0 < x" "x \<le> y"
  then have "(2 :: rat) powi (flog2 x) < 2 powi (flog2 y + 1)"
    using flog2_bounds [of x] flog2_bounds [of y] by linarith
  then show "flog2 x \<le> flog2 y" by (simp add: powi_less_iff)
qed

section \<open>Rounding\<close>

lemma ulp_pos [simp]: "0 < ulp p e x"
  by (simp add: ulp_def)

lemma ulp_nonneg [simp]: "0 \<le> ulp p e x"
  using ulp_pos [of p e x] by linarith

lemma round_to_0 [simp]: "round_to p e 0 = 0"
  by (simp add: round_to_def)

lemma round_to_error: "0 < x \<Longrightarrow> \<bar>round_to p e x - x\<bar> \<le> ulp p e x / 2"
proof -
  assume x: "0 < x"
  have "round_to p e x - x = (of_int (half_even (x / ulp p e x)) - x / ulp p e x) * ulp p e x"
    using x ulp_pos [of p e x] by (simp add: round_to_def round_pos_def field_simps del: ulp_pos)
  then have "\<bar>round_to p e x - x\<bar> = \<bar>of_int (half_even (x / ulp p e x)) - x / ulp p e x\<bar> * ulp p e x"
    using ulp_pos [of p e x] by (simp only: abs_mult abs_of_pos)
  also have "\<dots> \<le> 1/2 * ulp p e x"
    using half_even_error [of "x / ulp p e x"] ulp_pos [of p e x] by (intro mult_right_mono) simp_all
  finally show ?thesis by simp
qed

lemma ulp_exp: "ulp p e x = 2 powi (ulp_exp p e x)"
  by (simp add: ulp_def)

lemma power_grid:
  assumes "ulp_exp p e x \<le> k"
  shows "2 powi k / ulp p e x = of_int (2 ^ nat (k - ulp_exp p e x))"
proof -
  have "2 powi k / ulp p e x = 2 powi (k - ulp_exp p e x)"
    by (simp add: ulp_exp power_int_diff)
  also have "\<dots> = 2 ^ nat (k - ulp_exp p e x)"
    using assms by (simp add: power_int_def)
  finally show ?thesis by simp
qed

lemma round_pos_le_power:
  assumes "x \<le> 2 powi k" and "ulp_exp p e x \<le> k"
  shows "round_pos p e x \<le> 2 powi k"
proof -
  have "x / ulp p e x \<le> 2 powi k / ulp p e x" using assms(1) by (intro divide_right_mono) simp_all
  then have "half_even (x / ulp p e x) \<le> 2 ^ nat (k - ulp_exp p e x)"
    unfolding power_grid [OF assms(2)] by (rule half_even_le_int)
  then have "of_int (half_even (x / ulp p e x)) \<le> 2 powi k / ulp p e x"
    unfolding power_grid [OF assms(2)] of_int_le_iff .
  then show ?thesis by (simp add: round_pos_def pos_le_divide_eq)
qed

lemma round_pos_ge_power:
  assumes "2 powi k \<le> x" and "ulp_exp p e x \<le> k"
  shows "2 powi k \<le> round_pos p e x"
proof -
  have "2 powi k / ulp p e x \<le> x / ulp p e x" using assms(1) by (intro divide_right_mono) simp_all
  then have "2 ^ nat (k - ulp_exp p e x) \<le> half_even (x / ulp p e x)"
    unfolding power_grid [OF assms(2)] by (rule half_even_ge_int)
  then have "2 powi k / ulp p e x \<le> of_int (half_even (x / ulp p e x))"
    unfolding power_grid [OF assms(2)] of_int_le_iff .
  then show ?thesis by (simp add: round_pos_def pos_divide_le_eq)
qed

lemma round_pos_mono:
  assumes "0 < x" "x \<le> y" and p: "0 \<le> p"
  shows "round_pos p e x \<le> round_pos p e y"
proof (cases "ulp_exp p e x = ulp_exp p e y")
  case True
  then have u: "ulp p e x = ulp p e y" by (simp add: ulp_exp)
  then have "half_even (x / ulp p e x) \<le> half_even (y / ulp p e x)"
    using assms by (intro half_even_mono divide_right_mono) simp_all
  then show ?thesis by (simp add: round_pos_def flip: u)
next
  case False
  then have e: "ulp_exp p e x < flog2 y - p" "ulp_exp p e y = flog2 y - p" "flog2 x + 1 \<le> flog2 y"
    using flog2_mono [OF assms(1,2)] by (auto simp: ulp_exp_def max_def split: if_splits)
  have "(2 :: rat) powi (flog2 x + 1) \<le> 2 powi (flog2 y)"
    using e(3) by (intro power_int_increasing) simp_all
  then have "x \<le> 2 powi (flog2 y)" using flog2_bounds [OF assms(1)] by linarith
  then have "round_pos p e x \<le> 2 powi (flog2 y)" using e p by (intro round_pos_le_power) simp_all
  also have "\<dots> \<le> round_pos p e y"
    using flog2_bounds [of y] assms e p by (intro round_pos_ge_power) simp_all
  finally show ?thesis .
qed

lemma round_pos_nonneg: "0 < x \<Longrightarrow> 0 \<le> round_pos p e x"
  using half_even_ge_int [of 0 "x / ulp p e x"] ulp_pos [of p e x]
  by (simp add: round_pos_def divide_nonneg_pos)

lemma round_to_nonneg [simp, intro]: "0 \<le> x \<Longrightarrow> 0 \<le> round_to p e x"
  by (simp add: round_to_def round_pos_nonneg)

lemma round_to_mono: "0 \<le> x \<Longrightarrow> x \<le> y \<Longrightarrow> 0 \<le> p \<Longrightarrow> round_to p e x \<le> round_to p e y"
  by (cases "x = 0") (auto simp: round_to_def round_pos_nonneg round_pos_mono)

text \<open>Integers below \<open>2^(p+1)\<close> are exact.\<close>

lemma round_to_of_nat:
  assumes "n < 2 ^ nat (p + 1)" and p: "0 \<le> p" "e \<le> - p"
  shows "round_to p e (of_nat n) = of_nat n"
proof (cases "n = 0")
  case False
  let ?x = "of_nat n :: rat"
  have x: "0 < ?x" using False by simp
  have "(2 :: rat) powi 0 \<le> ?x" using False by (simp add: Suc_leI)
  then have "(2 :: rat) powi 0 < 2 powi (flog2 ?x + 1)" using flog2_bounds(2) [OF x] by linarith
  then have lo: "0 \<le> flog2 ?x" unfolding powi_less_iff by simp
  have "?x < of_nat (2 ^ nat (p + 1))" using assms(1) of_nat_less_iff by blast
  also have "\<dots> = 2 powi (p + 1)" using p by (simp add: power_int_def)
  finally have "(2 :: rat) powi (flog2 ?x) < 2 powi (p + 1)" using flog2_bounds(1) [OF x] by linarith
  then have hi: "flog2 ?x < p + 1" unfolding powi_less_iff .
  have u: "ulp_exp p e ?x = flog2 ?x - p" using lo p by (simp add: ulp_exp_def)
  have "?x / ulp p e ?x = ?x * 2 powi (p - flog2 ?x)"
    by (simp add: ulp_exp u power_int_diff field_simps)
  also have "\<dots> = of_int (int n * 2 ^ nat (p - flog2 ?x))"
    using hi by (simp add: power_int_def)
  finally have g: "?x / ulp p e ?x = of_int (int n * 2 ^ nat (p - flog2 ?x))" .
  have "of_int (half_even (?x / ulp p e ?x)) = ?x / ulp p e ?x"
    unfolding g half_even_of_int ..
  then show ?thesis
    using x ulp_pos [of p e ?x] by (simp add: round_to_def round_pos_def del: ulp_pos)
qed simp

text \<open>Values further apart than the unit of the larger one stay apart.\<close>

lemma ulp_mono: "0 < x \<Longrightarrow> x \<le> y \<Longrightarrow> ulp p e x \<le> ulp p e y"
  using flog2_mono [of x y] by (auto simp: ulp_def ulp_exp_def intro!: power_int_increasing)

lemma round_to_strict:
  assumes "0 < x" and "x + ulp p e y < y"
  shows "round_to p e x < round_to p e y"
proof -
  have "x < y" using assms ulp_pos [of p e y] by linarith
  then have "ulp p e x \<le> ulp p e y" using assms(1) by (intro ulp_mono) simp_all
  moreover have "\<bar>round_to p e x - x\<bar> \<le> ulp p e x / 2" using assms(1) by (rule round_to_error)
  moreover have "\<bar>round_to p e y - y\<bar> \<le> ulp p e y / 2" using assms(1) \<open>x < y\<close> by (intro round_to_error) simp
  ultimately show ?thesis using assms(2) by linarith
qed

lemma round_pos_exact:
  assumes "y = of_int n * 2 powi k" and "ulp_exp p e y \<le> k"
  shows "round_pos p e y = y"
proof -
  have "y / ulp p e y = of_int n * (2 powi k / ulp p e y)" by (simp add: assms(1))
  also have "\<dots> = of_int (n * 2 ^ nat (k - ulp_exp p e y))"
    unfolding power_grid [OF assms(2)] by simp
  finally have g: "y / ulp p e y = of_int (n * 2 ^ nat (k - ulp_exp p e y))" .
  have "of_int (half_even (y / ulp p e y)) = y / ulp p e y" unfolding g half_even_of_int ..
  then show ?thesis using ulp_pos [of p e y] by (simp add: round_pos_def del: ulp_pos)
qed

lemma round_pos_idem:
  assumes "0 < x" and p: "0 \<le> p"
  shows "round_pos p e x = 0 \<or> round_pos p e (round_pos p e x) = round_pos p e x"
proof (cases "round_pos p e x = 0")
  case False
  let ?y = "round_pos p e x" and ?e = "flog2 x"
  have y: "0 < ?y" using False round_pos_nonneg [OF assms(1), of p e] by linarith
  have yn: "?y = of_int (half_even (x / ulp p e x)) * 2 powi (ulp_exp p e x)"
    by (simp add: round_pos_def ulp_exp)
  have "1 \<le> half_even (x / ulp p e x)"
    using y ulp_nonneg [of p e x] by (auto simp: round_pos_def zero_less_mult_iff)
  then have "of_int 1 \<le> (of_int (half_even (x / ulp p e x)) :: rat)" unfolding of_int_le_iff .
  then have "(1 :: rat) \<le> of_int (half_even (x / ulp p e x))" by simp
  then have "2 powi (ulp_exp p e x) \<le> ?y" unfolding yn by simp
  show ?thesis
  proof (cases "ulp_exp p e ?y \<le> ulp_exp p e x")
    case True
    with yn show ?thesis by (intro disjI2 round_pos_exact)
  next
    case more: False
    have small: "ulp_exp p e x \<le> ?e + 1 \<or> ?e + 1 < e" using p by (auto simp: ulp_exp_def)
    show ?thesis
    proof (cases "ulp_exp p e x \<le> ?e + 1")
      case True
      then have hi: "?y \<le> 2 powi (?e + 1)"
        using flog2_bounds [OF assms(1)] by (intro round_pos_le_power) simp_all
      have "(2 :: rat) powi (?e + 1) < 2 powi (?e + 1 + 1)" unfolding powi_less_iff by simp
      then have "flog2 ?y \<le> ?e + 1"
        using flog2_mono [OF y hi] flog2_unique [of "?e + 1" "2 powi (?e + 1)"] by simp
      moreover have "\<not> flog2 ?y \<le> ?e" using more by (auto simp: ulp_exp_def)
      ultimately have fy: "flog2 ?y = ?e + 1" by simp
      then have "2 powi (?e + 1) \<le> ?y" using flog2_bounds(1) [OF y] by simp
      with hi have yp: "?y = of_int 1 * 2 powi (?e + 1)" by simp
      have "ulp_exp p e ?y \<le> ?e + 1" using True fy p by (auto simp: ulp_exp_def)
      with yp show ?thesis by (intro disjI2 round_pos_exact)
    next
      case False
      then have e: "?e + 1 < e" "ulp_exp p e x = e" using p by (auto simp: ulp_exp_def)
      have "(2 :: rat) powi (?e + 1) < 2 powi (e)" unfolding powi_less_iff using e by simp
      then have "x \<le> 2 powi (e)" using flog2_bounds(2) [OF assms(1)] by linarith
      then have "?y \<le> 2 powi (e)" by (rule round_pos_le_power) (simp add: e)
      moreover have "2 powi (e) \<le> ?y" using \<open>2 powi (ulp_exp p e x) \<le> ?y\<close> e by simp
      ultimately have yp: "?y = of_int 1 * 2 powi (e)" by simp
      have yq: "?y = 2 powi (e)" using yp by (simp only: of_int_1 mult_1_left)
      have "flog2 ?y = e"
        unfolding yq by (rule flog2_unique, rule order_refl, subst powi_less_iff) simp
      then have "ulp_exp p e ?y \<le> e" unfolding ulp_exp_def using p by linarith
      with yp show ?thesis by (intro disjI2 round_pos_exact)
    qed
  qed
qed simp

text \<open>Rounding twice is rounding once.\<close>

lemma round_to_idem: "0 \<le> x \<Longrightarrow> 0 \<le> p \<Longrightarrow> round_to p e (round_to p e x) = round_to p e x"
  using round_pos_idem [of x p e] round_pos_nonneg [of x p e] by (auto simp: round_to_def)

section \<open>The two formats\<close>

lemma f32_0 [simp]: "f32 0 = 0"
  by (simp add: f32_def)

lemma f32_nonneg [simp, intro]: "0 \<le> x \<Longrightarrow> 0 \<le> f32 x"
  by (simp add: f32_def)

lemma f32_mono: "0 \<le> x \<Longrightarrow> x \<le> y \<Longrightarrow> f32 x \<le> f32 y"
  by (simp add: f32_def round_to_mono)

lemma f32_of_nat: "n < 2 ^ 24 \<Longrightarrow> f32 (of_nat n) = of_nat n"
  by (simp add: f32_def round_to_of_nat)

lemma f32_1 [simp]: "f32 1 = 1"
  using f32_of_nat [of 1] by simp

lemma f32_le_1: "0 \<le> x \<Longrightarrow> x \<le> 1 \<Longrightarrow> f32 x \<le> 1"
  using f32_mono [of x 1] by simp

lemma f32_strict: "0 < x \<Longrightarrow> x + ulp 23 (- 149) y < y \<Longrightarrow> f32 x < f32 y"
  by (simp add: f32_def round_to_strict)

lemma f32_idem: "0 \<le> x \<Longrightarrow> f32 (f32 x) = f32 x"
  by (simp add: f32_def round_to_idem)

lemma f64_0 [simp]: "f64 0 = 0"
  by (simp add: f64_def)

lemma f64_nonneg [simp, intro]: "0 \<le> x \<Longrightarrow> 0 \<le> f64 x"
  by (simp add: f64_def)

lemma f64_mono: "0 \<le> x \<Longrightarrow> x \<le> y \<Longrightarrow> f64 x \<le> f64 y"
  by (simp add: f64_def round_to_mono)

lemma f64_of_nat: "n < 2 ^ 53 \<Longrightarrow> f64 (of_nat n) = of_nat n"
  by (simp add: f64_def round_to_of_nat)

lemma f64_1 [simp]: "f64 1 = 1"
  using f64_of_nat [of 1] by simp

lemma f64_idem: "0 \<le> x \<Longrightarrow> f64 (f64 x) = f64 x"
  by (simp add: f64_def round_to_idem)

text \<open>What is at least the smallest subnormal does not underflow.\<close>

lemma f64_pos: "2 powi (- 1074) \<le> x \<Longrightarrow> 0 < f64 x"
proof -
  assume a: "2 powi (- 1074) \<le> x"
  then have x: "0 < x" using zero_less_power_int [of "2 :: rat" "- 1074"] by linarith
  have "(2 :: rat) powi (- 1074) < 2 powi (flog2 x + 1)" using a flog2_bounds(2) [OF x] by linarith
  then have "- 1074 < flog2 x + 1" unfolding powi_less_iff .
  then have "2 powi (flog2 x) \<le> round_pos 52 (- 1074) x"
    by (intro round_pos_ge_power flog2_bounds x) (simp add: ulp_exp_def)
  then have "0 < round_pos 52 (- 1074) x"
    using zero_less_power_int [of "2 :: rat" "flog2 x"] by linarith
  with x show ?thesis by (simp add: f64_def round_to_def)
qed

lemma f64_le_1: "0 \<le> x \<Longrightarrow> x \<le> 1 \<Longrightarrow> f64 x \<le> 1"
  using f64_mono [of x 1] by simp

end
