(* ===== verification/Recall.thy ===== *)
theory Recall
  imports Float32 SqliteStore QdrantStore
begin

text \<open>
  Hybrid recall, \<open>crates/amore-core/src/recall.rs\<close>: the vector lane (embedding, then Qdrant), the
  BM25 lane (SQLite), reciprocal rank fusion of the two, and ingestion into both.  Scores are
  \<open>f32\<close>.  A \<open>HashMap\<close>'s iteration order is the parameter \<open>order\<close>, a permutation.
\<close>

record recall_hit =
  hit_id :: string
  hit_score :: rat
  hit_text :: string
  hit_source :: string
  hit_payload :: json

record degraded =
  ollama_unavailable :: bool
  qdrant_unavailable :: bool
  bm25_unavailable :: bool

definition clean :: degraded where
  "clean = \<lparr>ollama_unavailable = False, qdrant_unavailable = False, bm25_unavailable = False\<rparr>"

definition is_clean :: "degraded \<Rightarrow> bool" where
  "is_clean d \<longleftrightarrow> \<not> ollama_unavailable d \<and> \<not> qdrant_unavailable d \<and> \<not> bm25_unavailable d"

record recall_envelope =
  hits :: "recall_hit list"
  env_degraded :: degraded

record 'q hybrid_recall =
  r_ollama :: ollama_client
  r_qdrant :: "'q qstate"
  r_sqlite :: "sqlite_store option"

definition with_embedder :: "ollama_client \<Rightarrow> 'q qstate \<Rightarrow> 'q hybrid_recall" where
  "with_embedder e q = \<lparr>r_ollama = e, r_qdrant = q, r_sqlite = None\<rparr>"

definition with_sqlite :: "sqlite_store \<Rightarrow> 'q hybrid_recall \<Rightarrow> 'q hybrid_recall" where
  "with_sqlite S r = r\<lparr>r_sqlite := Some S\<rparr>"

section \<open>Reciprocal rank fusion\<close>

definition RRF_K :: rat where
  "RRF_K = 60"

definition rrf_contrib :: "nat \<Rightarrow> rat" where
  "rrf_contrib rank = fdiv 1 (fadd RRF_K (f32 (of_nat rank)))"

definition map_hit :: "search_hit \<Rightarrow> recall_hit" where
  "map_hit h = \<lparr>hit_id = sh_id h, hit_score = sh_score h,
     hit_text = (case get_str ''text'' (sh_payload h) of Some t \<Rightarrow> t | None \<Rightarrow> []),
     hit_source = (case get_str ''source'' (sh_payload h) of Some t \<Rightarrow> t | None \<Rightarrow> []),
     hit_payload = sh_payload h\<rparr>"

definition map_bm25 :: "bm25_hit \<Rightarrow> recall_hit" where
  "map_bm25 h = \<lparr>hit_id = bm_id h, hit_score = 0, hit_text = bm_text h, hit_source = bm_source h,
     hit_payload = JObj [(''source'', JStr (bm_source h)), (''text'', JStr (bm_text h))]\<rparr>"

text \<open>The accumulator, entries in the order of their first insertion.\<close>

type_synonym rrf_acc = "(string \<times> rat \<times> recall_hit) list"

fun acc_add :: "string \<Rightarrow> rat \<Rightarrow> recall_hit \<Rightarrow> rrf_acc \<Rightarrow> rrf_acc" where
  "acc_add i c h [] = [(i, fadd 0 c, h)]"
| "acc_add i c h ((j, s, g) # acc) =
     (if i = j then (j, fadd s c, g) # acc else (j, s, g) # acc_add i c h acc)"

fun acc_lane :: "nat \<Rightarrow> recall_hit list \<Rightarrow> rrf_acc \<Rightarrow> rrf_acc" where
  "acc_lane rank [] acc = acc"
| "acc_lane rank (h # hs) acc = acc_lane (Suc rank) hs (acc_add (hit_id h) (rrf_contrib rank) h acc)"

definition fuse_lanes :: "search_hit list \<Rightarrow> bm25_hit list \<Rightarrow> rrf_acc" where
  "fuse_lanes vec_hits bm_hits = acc_lane 0 (map map_bm25 bm_hits) (acc_lane 0 (map map_hit vec_hits) [])"

definition rrf_fuse ::
  "(rrf_acc \<Rightarrow> rrf_acc) \<Rightarrow> search_hit list \<Rightarrow> bm25_hit list \<Rightarrow> nat \<Rightarrow> recall_hit list" where
  "rrf_fuse order vec_hits bm_hits top_k =
     take top_k (sort_desc hit_score
       (map (\<lambda>(i, s, h). h\<lparr>hit_score := s\<rparr>) (order (fuse_lanes vec_hits bm_hits))))"

section \<open>Search\<close>

text \<open>What the environment does during one call: the HTTP exchange with Ollama, the Qdrant
  server, FTS5, how long the two remote calls take, the instants the breakers read, and the
  configured timeout.\<close>

record 'q recall_env =
  re_post :: "string \<Rightarrow> string \<Rightarrow> string \<Rightarrow> rat list response"
  re_server :: "'q qdrant_server"
  re_debug :: "point_id \<Rightarrow> string"
  re_fts :: fts5
  re_order :: "rrf_acc \<Rightarrow> rrf_acc"
  re_embed_ms :: "nat option"
  re_qdrant_ms :: "nat option"
  re_t0 :: nat
  re_t1 :: nat
  re_t2 :: nat
  re_t3 :: nat
  re_timeout :: u64

text \<open>\<open>with_timeout\<close> around a call with state: when the time is up the call is dropped, and only
  what it did before its suspension remains.\<close>

definition timed ::
  "u64 \<Rightarrow> nat option \<Rightarrow> ('s \<Rightarrow> (string + 'a) \<times> 's) \<Rightarrow> ('s \<Rightarrow> 's) \<Rightarrow> 's \<Rightarrow> (string + 'a) \<times> 's" where
  "timed d ms run abandon s =
     (case ms of
        Some n \<Rightarrow> if n \<le> unat d then run s else (Inl ''timeout'', abandon s)
      | None \<Rightarrow> (Inl ''timeout'', abandon s))"

definition drop_ollama_call :: "nat \<Rightarrow> ollama_client \<Rightarrow> ollama_client" where
  "drop_ollama_call t0 c = c\<lparr>ollama_breaker := map_option (\<lambda>b. snd (begin_call t0 b)) (ollama_breaker c)\<rparr>"

definition drop_qdrant_call :: "nat \<Rightarrow> 'q qstate \<Rightarrow> 'q qstate" where
  "drop_qdrant_call t0 st = (fst st\<lparr>q_breaker := map_option (\<lambda>b. snd (begin_call t0 b)) (q_breaker (fst st))\<rparr>, snd st)"

definition embed_query :: "'q recall_env \<Rightarrow> string \<Rightarrow> 'q hybrid_recall \<Rightarrow> (string + rat list) \<times> 'q hybrid_recall" where
  "embed_query E text r =
     (let (res, c') = timed (re_timeout E) (re_embed_ms E)
        (ollama_embed (re_post E) (re_t0 E) (re_t1 E) text) (drop_ollama_call (re_t0 E)) (r_ollama r)
      in (res, r\<lparr>r_ollama := c'\<rparr>))"

definition vector_lane ::
  "'q recall_env \<Rightarrow> string \<Rightarrow> u64 \<Rightarrow> 'q hybrid_recall \<Rightarrow> (search_hit list \<times> degraded) \<times> 'q hybrid_recall" where
  "vector_lane E query fetch r =
     (case embed_query E query r of
        (Inl e, r1) \<Rightarrow> (([], clean\<lparr>ollama_unavailable := True\<rparr>), r1)
      | (Inr qv, r1) \<Rightarrow>
          (case timed (re_timeout E) (re_qdrant_ms E)
                  (qdrant_search (re_server E) (re_debug E) (re_t2 E) (re_t3 E) qv fetch)
                  (drop_qdrant_call (re_t2 E)) (r_qdrant r1) of
             (Inl e, q') \<Rightarrow> (([], clean\<lparr>qdrant_unavailable := True\<rparr>), r1\<lparr>r_qdrant := q'\<rparr>)
           | (Inr hs, q') \<Rightarrow> ((hs, clean), r1\<lparr>r_qdrant := q'\<rparr>)))"

definition bm25_lane ::
  "'q recall_env \<Rightarrow> string \<Rightarrow> u64 \<Rightarrow> sqlite_store option \<Rightarrow> degraded \<Rightarrow> bm25_hit list \<times> degraded" where
  "bm25_lane E query fetch sq d =
     (case sq of
        Some S \<Rightarrow> (case bm25_search (re_fts E) query fetch S of
            Inr hs \<Rightarrow> (hs, d)
          | Inl e \<Rightarrow> ([], d\<lparr>bm25_unavailable := True\<rparr>))
      | None \<Rightarrow> ([], if ollama_unavailable d \<or> qdrant_unavailable d then d\<lparr>bm25_unavailable := True\<rparr> else d))"

definition fetch_limit :: "usize \<Rightarrow> u64" where
  "fetch_limit top_k = max (top_k * 4) top_k"

definition search ::
  "'q recall_env \<Rightarrow> string \<Rightarrow> usize \<Rightarrow> 'q hybrid_recall \<Rightarrow> (string + recall_envelope) \<times> 'q hybrid_recall" where
  "search E query top_k r =
     (let fetch = fetch_limit top_k;
          ((vec_hits, d1), r') = vector_lane E query fetch r;
          (bm_hits, d) = bm25_lane E query fetch (r_sqlite r) d1;
          vector_lane_alive = (\<not> ollama_unavailable d \<and> \<not> qdrant_unavailable d);
          bm25_lane_alive = (r_sqlite r \<noteq> None \<and> \<not> bm25_unavailable d)
      in if \<not> vector_lane_alive \<and> \<not> bm25_lane_alive
         then (Inl ''recall: all retrieval lanes unavailable'', r')
         else (Inr \<lparr>hits = (if r_sqlite r \<noteq> None then rrf_fuse (re_order E) vec_hits bm_hits (unat top_k)
                            else map map_hit (take (unat top_k) vec_hits)),
                    env_degraded = d\<rparr>, r'))"

section \<open>Indexing and ingestion\<close>

definition index_payload :: "string \<Rightarrow> string \<Rightarrow> json option \<Rightarrow> json" where
  "index_payload src text extra =
     (let base = [(''source'', JStr src), (''text'', JStr text)] in
      JObj (case Option.bind extra as_object of
              None \<Rightarrow> base
            | Some e \<Rightarrow> fold (\<lambda>(k, v) m. obj_insert k v m) e base))"

text \<open>\<open>index\<close> calls the embedder and the store without a timeout.\<close>

definition recall_index ::
  "'q recall_env \<Rightarrow> u64 \<Rightarrow> string \<Rightarrow> string \<Rightarrow> json option \<Rightarrow> 'q hybrid_recall \<Rightarrow> (string + unit) \<times> 'q hybrid_recall" where
  "recall_index E i src text extra r =
     (case ollama_embed (re_post E) (re_t0 E) (re_t1 E) text (r_ollama r) of
        (Inl e, c') \<Rightarrow> (Inl e, r\<lparr>r_ollama := c'\<rparr>)
      | (Inr vec, c') \<Rightarrow>
          (let (res, q') = upsert (re_server E) (re_t2 E) (re_t3 E) i vec (index_payload src text extra) (r_qdrant r)
           in (res, r\<lparr>r_ollama := c', r_qdrant := q'\<rparr>)))"

record ingest_receipt =
  receipt_id :: string
  persisted_bm25 :: bool
  persisted_vector :: bool
  receipt_degraded :: degraded

text \<open>\<open>u64::from_str_radix(s, 16)\<close> on the first sixteen characters of a hash.\<close>

definition parse_hex_u64 :: "string \<Rightarrow> u64 option" where
  "parse_hex_u64 s =
     (let ds = (case s of [] \<Rightarrow> [] | c # r \<Rightarrow> if c = CHR ''+'' then r else s) in
      if ds = [] \<or> \<not> list_all (\<lambda>c. hex_val c \<noteq> None) ds \<or> 2 ^ 64 \<le> hex_value ds then None
      else Some (word_of_nat (hex_value ds)))"

definition qdrant_id :: "string \<Rightarrow> u64" where
  "qdrant_id hash = (case parse_hex_u64 (take 16 hash) of Some n \<Rightarrow> n | None \<Rightarrow> 0)"

definition ingest_payload :: "string \<Rightarrow> string \<Rightarrow> json \<Rightarrow> json" where
  "ingest_payload src text v =
     (let base = [(''source'', JStr src), (''text'', JStr text)] in
      JObj (case as_object v of
              None \<Rightarrow> base
            | Some m \<Rightarrow> fold (\<lambda>(k, x) acc. obj_or_insert k x acc) m base))"

record ingest_clock =
  ic_fault :: bool
  ic_nanos :: nat
  ic_now :: int

text \<open>\<open>applied\<close> is what a timed-out upsert may have done to the server before it was dropped.\<close>

definition ingest ::
  "(bytes \<Rightarrow> bytes) \<Rightarrow> (json \<Rightarrow> string option) \<Rightarrow> 'q recall_env \<Rightarrow> ('q \<Rightarrow> 'q) \<Rightarrow> ingest_clock \<Rightarrow> string \<Rightarrow> json
    \<Rightarrow> 'q hybrid_recall \<Rightarrow> (string + ingest_receipt) \<times> 'q hybrid_recall" where
  "ingest sha256 canon E applied C src v r =
     (case r_sqlite r of
        None \<Rightarrow> (Inl ''observe: no SQLite store attached'', r)
      | Some S \<Rightarrow>
          (case insert_observation sha256 canon (ic_fault C) (ic_nanos C) (ic_now C) src v S of
             (Inl e, S') \<Rightarrow> (Inl e, r\<lparr>r_sqlite := Some S'\<rparr>)
           | (Inr env, S') \<Rightarrow>
               (let text = extract_indexable_text v (canonical_json env);
                    (res, r1) = embed_query E text (r\<lparr>r_sqlite := Some S'\<rparr>);
                    receipt = \<lparr>receipt_id = env_id env, persisted_bm25 = True, persisted_vector = False,
                               receipt_degraded = clean\<rparr>
                in case res of
                  Inl e \<Rightarrow> (Inr (receipt\<lparr>receipt_degraded := clean\<lparr>ollama_unavailable := True\<rparr>\<rparr>), r1)
                | Inr vec \<Rightarrow>
                    (case timed (re_timeout E) (re_qdrant_ms E)
                            (upsert (re_server E) (re_t2 E) (re_t3 E) (qdrant_id (env_hash env)) vec
                               (ingest_payload src text v))
                            (\<lambda>st. let st' = drop_qdrant_call (re_t2 E) st in (fst st', applied (snd st')))
                            (r_qdrant r1) of
                       (Inr _, q') \<Rightarrow> (Inr (receipt\<lparr>persisted_vector := True\<rparr>), r1\<lparr>r_qdrant := q'\<rparr>)
                     | (Inl e, q') \<Rightarrow> (Inr (receipt\<lparr>receipt_degraded := clean\<lparr>qdrant_unavailable := True\<rparr>\<rparr>),
                                      r1\<lparr>r_qdrant := q'\<rparr>)))))"

section \<open>Contributions\<close>

lemma rrf_contrib_exact:
  assumes "r < 2 ^ 22"
  shows "rrf_contrib r = f32 (1 / of_nat (60 + r))"
proof -
  have "f32 (of_nat r) = (of_nat r :: rat)" using assms by (intro f32_of_nat) simp
  moreover have "f32 (of_nat (60 + r)) = (of_nat (60 + r) :: rat)"
    by (rule f32_of_nat) (use assms in simp)
  moreover have "RRF_K + of_nat r = of_nat (60 + r)" by (simp add: RRF_K_def)
  ultimately show ?thesis unfolding rrf_contrib_def by simp
qed

lemma rrf_contrib_nonneg: "0 \<le> rrf_contrib r"
  by (simp add: rrf_contrib_def RRF_K_def)

lemma rrf_contrib_rounded [simp]: "f32 (rrf_contrib r) = rrf_contrib r"
  by (simp add: rrf_contrib_def RRF_K_def f32_idem)

lemma rrf_contrib_Suc:
  assumes "r + 1 < 2 ^ 22"
  shows "rrf_contrib (Suc r) < rrf_contrib r"
proof -
  let ?x = "1 / of_nat (60 + Suc r) :: rat" and ?y = "1 / of_nat (60 + r) :: rat"
  have x: "0 < ?x" and y: "0 < ?y" by simp_all
  have "(60 + Suc r) < 2 ^ 23" using assms by simp
  then have "(of_nat (60 + Suc r) :: rat) < of_nat (2 ^ 23)" by (rule of_nat_less_iff [THEN iffD2])
  then have small: "1 / 2 ^ 23 < ?x" by (simp add: field_simps)
  have xy: "?x < ?y" by (simp add: frac_less2)
  have "(2 :: rat) powi (- 23) = 1 / 2 ^ 23" by (simp add: power_int_def field_simps)
  then have "(2 :: rat) powi (- 23) < 2 powi (flog2 ?y + 1)"
    using small xy flog2_bounds(2) [OF y] by linarith
  then have "- 149 \<le> flog2 ?y - 23" unfolding powi_less_iff by linarith
  then have "ulp_exp 23 (- 149) ?y = flog2 ?y - 23" unfolding ulp_exp_def by linarith
  then have "ulp 23 (- 149) ?y = 2 powi (flog2 ?y - 23)" by (simp only: ulp_exp)
  also have "\<dots> = 2 powi (flog2 ?y) / 2 powi 23"
    by (rule power_int_diff) simp
  also have "(2 :: rat) powi 23 = 2 ^ 23" by (simp only: power_int_numeral)
  finally have "ulp 23 (- 149) ?y = 2 powi (flog2 ?y) / 2 ^ 23" .
  also have "\<dots> \<le> ?y / 2 ^ 23" using flog2_bounds(1) [OF y] by (intro divide_right_mono) simp_all
  also have "?y / 2 ^ 23 = ?y * (1 / 2 ^ 23)" by (simp only: times_divide_eq_right mult_1_right)
  also have "\<dots> < ?y * ?x" using small y by (rule mult_strict_left_mono)
  also have "\<dots> = ?y - ?x" by (simp add: field_simps)
  finally have "f32 ?x < f32 ?y" using x by (intro f32_strict) linarith+
  then show ?thesis using assms by (simp add: rrf_contrib_exact)
qed

lemma rrf_contrib_strict:
  assumes "i < j" and "j < 2 ^ 22"
  shows "rrf_contrib j < rrf_contrib i"
  using assms
proof (induction j)
  case (Suc j)
  have "rrf_contrib (Suc j) < rrf_contrib j" using Suc.prems by (intro rrf_contrib_Suc) simp
  with Suc show ?case by (cases "i = j") auto
qed simp

section \<open>What the accumulator holds\<close>

fun lane_rank :: "nat \<Rightarrow> recall_hit list \<Rightarrow> string \<Rightarrow> nat option" where
  "lane_rank n [] i = None"
| "lane_rank n (h # hs) i = (if hit_id h = i then Some n else lane_rank (Suc n) hs i)"

definition score_of :: "rrf_acc \<Rightarrow> string \<Rightarrow> rat" where
  "score_of acc i = (case map_of acc i of None \<Rightarrow> 0 | Some (s, h) \<Rightarrow> s)"

definition acc_ok :: "rrf_acc \<Rightarrow> bool" where
  "acc_ok acc \<longleftrightarrow> distinct (map fst acc) \<and> (\<forall>(i, s, h) \<in> set acc. hit_id h = i)"

lemma acc_add_keys: "fst ` set (acc_add i c h acc) = insert i (fst ` set acc)"
  by (induction i c h acc rule: acc_add.induct) auto

lemma acc_add_ok: "acc_ok acc \<Longrightarrow> acc_ok (acc_add (hit_id h) c h acc)"
proof (induction "hit_id h" c h acc rule: acc_add.induct)
  case (2 c h j s g acc)
  then show ?case
    using acc_add_keys [of "hit_id h" c h acc] by (auto simp: acc_ok_def)
qed (simp add: acc_ok_def)

lemma score_acc_add:
  "score_of (acc_add i c h acc) j = (if j = i then fadd (score_of acc j) c else score_of acc j)"
  by (induction i c h acc rule: acc_add.induct) (auto simp: score_of_def)

lemma lane_rank_notin: "i \<notin> set (map hit_id hs) \<Longrightarrow> lane_rank n hs i = None"
  by (induction hs arbitrary: n) auto

lemma acc_lane_ok: "acc_ok acc \<Longrightarrow> acc_ok (acc_lane n hs acc)"
  by (induction n hs acc rule: acc_lane.induct) (auto intro: acc_add_ok)

lemma acc_lane_keys: "fst ` set (acc_lane n hs acc) = fst ` set acc \<union> hit_id ` set hs"
  by (induction n hs acc rule: acc_lane.induct) (auto simp: acc_add_keys)

lemma score_acc_lane:
  "distinct (map hit_id hs) \<Longrightarrow> score_of (acc_lane n hs acc) i =
    (case lane_rank n hs i of None \<Rightarrow> score_of acc i | Some r \<Rightarrow> fadd (score_of acc i) (rrf_contrib r))"
proof (induction n hs acc rule: acc_lane.induct)
  case (2 n h hs acc)
  then show ?case
    using lane_rank_notin [of "hit_id h" hs "Suc n"] by (auto simp: score_acc_add split: option.splits)
qed simp

definition lane_score :: "recall_hit list \<Rightarrow> string \<Rightarrow> rat" where
  "lane_score hs i = (case lane_rank 0 hs i of None \<Rightarrow> 0 | Some r \<Rightarrow> rrf_contrib r)"

definition rrf_score :: "search_hit list \<Rightarrow> bm25_hit list \<Rightarrow> string \<Rightarrow> rat" where
  "rrf_score vs bs i = fadd (lane_score (map map_hit vs) i) (lane_score (map map_bm25 bs) i)"

definition fused_ids :: "search_hit list \<Rightarrow> bm25_hit list \<Rightarrow> string set" where
  "fused_ids vs bs = sh_id ` set vs \<union> bm_id ` set bs"

lemma map_hit_id [simp]: "hit_id (map_hit h) = sh_id h" "hit_id (map_bm25 b) = bm_id b"
  by (simp_all add: map_hit_def map_bm25_def)

lemma fuse_lanes_facts:
  assumes "distinct (map sh_id vs)" and "distinct (map bm_id bs)"
  shows "acc_ok (fuse_lanes vs bs)" and "fst ` set (fuse_lanes vs bs) = fused_ids vs bs"
    and "score_of (fuse_lanes vs bs) i = rrf_score vs bs i"
proof -
  have d: "distinct (map hit_id (map map_hit vs))" "distinct (map hit_id (map map_bm25 bs))"
    using assms by (simp_all add: comp_def)
  show "acc_ok (fuse_lanes vs bs)"
    unfolding fuse_lanes_def by (intro acc_lane_ok) (simp add: acc_ok_def)
  show "fst ` set (fuse_lanes vs bs) = fused_ids vs bs"
    by (simp add: fuse_lanes_def acc_lane_keys fused_ids_def image_image)
  have "score_of [] i = 0" by (simp add: score_of_def)
  then show "score_of (fuse_lanes vs bs) i = rrf_score vs bs i"
    by (auto simp: fuse_lanes_def score_acc_lane [OF d(1)] score_acc_lane [OF d(2)] rrf_score_def
        lane_score_def split: option.splits)
qed

section \<open>Properties of the fusion\<close>

text \<open>C7: whatever the hash map's iteration order: the fused list is sorted by descending score,
  holds no id twice, has as many entries as asked for and available, carries for every id the sum
  of its two lanes' reciprocal ranks, and no id left out scores higher than one kept.\<close>

theorem rrf_fused_ranking:
  assumes "distinct (map sh_id vs)" and "distinct (map bm_id bs)"
    and "mset (order (fuse_lanes vs bs)) = mset (fuse_lanes vs bs)"
  shows "let out = rrf_fuse order vs bs k in
    sorted_wrt (\<lambda>a b. hit_score b \<le> hit_score a) out
    \<and> distinct (map hit_id out)
    \<and> length out = min k (card (fused_ids vs bs))
    \<and> (\<forall>h \<in> set out. hit_id h \<in> fused_ids vs bs \<and> hit_score h = rrf_score vs bs (hit_id h))
    \<and> (\<forall>h \<in> set out. \<forall>i \<in> fused_ids vs bs - hit_id ` set out. rrf_score vs bs i \<le> hit_score h)"
proof -
  let ?f = "\<lambda>(i :: string, s, h). h\<lparr>hit_score := s\<rparr>"
  let ?acc = "fuse_lanes vs bs" and ?all = "map ?f (order (fuse_lanes vs bs))"
  note facts = fuse_lanes_facts [OF assms(1,2)]
  have set: "set (order ?acc) = set ?acc" using assms(3) by (metis set_mset_mset)
  have d: "distinct (map fst ?acc)" using facts(1) by (simp add: acc_ok_def)
  have ids: "map hit_id ?all = map fst (order ?acc)"
    using facts(1) set by (fastforce simp: acc_ok_def)
  have "mset (map fst (order ?acc)) = mset (map fst ?acc)" using assms(3) by (simp add: mset_map)
  then have dall: "distinct (map hit_id ?all)" unfolding ids using d by (metis mset_eq_imp_distinct_iff)
  have idset: "hit_id ` set ?all = fused_ids vs bs"
  proof -
    have "hit_id ` set ?all = set (map hit_id ?all)" by (rule set_map [symmetric])
    also have "\<dots> = fst ` set ?acc" unfolding ids using set by simp
    finally show ?thesis using facts(2) by simp
  qed
  have sc: "hit_score h = rrf_score vs bs (hit_id h)" if h: "h \<in> set ?all" for h
  proof -
    from h obtain i s g where e: "(i, s, g) \<in> set ?acc" "h = g\<lparr>hit_score := s\<rparr>" using set by auto
    then have "hit_id h = i" using facts(1) by (auto simp: acc_ok_def)
    moreover have "score_of ?acc i = s" using e(1) d by (simp add: score_of_def)
    ultimately show ?thesis using facts(3) [of i] e(2) by simp
  qed
  let ?sorted = "sort_desc hit_score ?all"
  have out: "rrf_fuse order vs bs k = take k ?sorted" by (simp add: rrf_fuse_def)
  have ds: "distinct (map hit_id ?sorted)"
  proof -
    have "mset (map hit_id ?sorted) = mset (map hit_id ?all)"
      by (simp only: mset_map mset_sort_desc)
    from mset_eq_imp_distinct_iff [OF this] dall show ?thesis by simp
  qed
  have len: "length ?sorted = card (fused_ids vs bs)"
    using distinct_card [OF dall] unfolding set_map [of hit_id] idset length_map length_sort_desc by simp
  have 1: "sorted_wrt (\<lambda>a b. hit_score b \<le> hit_score a) (take k ?sorted)"
    by (rule sorted_wrt_take) (rule sort_desc_sorted)
  have 2: "distinct (map hit_id (take k ?sorted))" by (subst take_map [symmetric], rule distinct_take, rule ds)
  have 3: "length (take k ?sorted) = min k (card (fused_ids vs bs))" using len by simp
  have 4: "hit_id h \<in> fused_ids vs bs \<and> hit_score h = rrf_score vs bs (hit_id h)"
    if "h \<in> set (take k ?sorted)" for h
  proof -
    have "h \<in> set ?all" using in_set_takeD [OF that] unfolding set_sort_desc .
    with sc idset show ?thesis by blast
  qed
  have 5: "rrf_score vs bs i \<le> hit_score h"
    if h: "h \<in> set (take k ?sorted)" and i: "i \<in> fused_ids vs bs - hit_id ` set (take k ?sorted)" for h i
  proof -
    from i have "i \<in> hit_id ` set ?all" unfolding idset by (rule DiffD1)
    then obtain g where g: "i = hit_id g" "g \<in> set ?all" by (rule imageE)
    have "g \<notin> set (take k ?sorted)"
    proof
      assume "g \<in> set (take k ?sorted)"
      then have "i \<in> hit_id ` set (take k ?sorted)" unfolding g(1) by (rule imageI)
      from DiffD2 [OF i this] show False .
    qed
    from top_k_dominates [OF h g(2) this] show ?thesis unfolding sc [OF g(2)] g(1) .
  qed
  show ?thesis unfolding out Let_def
    by (intro conjI ballI 1 2 3 5; (simp only: 4)?)
qed

text \<open>With the BM25 lane silent, fusion keeps the vector lane's order exactly: strictly
  decreasing \<open>f32\<close> contributions for up to four million hits.\<close>

theorem rrf_single_lane_order:
  assumes "distinct (map sh_id vs)" and "length vs < 2 ^ 22"
    and "mset (order (fuse_lanes vs [])) = mset (fuse_lanes vs [])"
  shows "map (\<lambda>h. (hit_id h, hit_score h)) (rrf_fuse order vs [] k) =
    take k (map (\<lambda>(r, h). (sh_id h, rrf_contrib r)) (enumerate 0 vs))"
proof -
  have acc: "acc_lane n hs acc = acc @ map (\<lambda>(r, h). (hit_id h, rrf_contrib r, h)) (enumerate n hs)"
    if "distinct (map fst acc @ map hit_id hs)" for n hs acc
    using that
  proof (induction hs arbitrary: n acc)
    case (Cons h hs)
    have new: "acc_add (hit_id h) c h acc = acc @ [(hit_id h, fadd 0 c, h)]"
      if "hit_id h \<notin> fst ` set acc" for c
      using that by (induction "hit_id h" c h acc rule: acc_add.induct) auto
    from Cons.prems have "hit_id h \<notin> fst ` set acc" by auto
    with Cons.IH [of "acc @ [(hit_id h, rrf_contrib n, h)]" "Suc n"] Cons.prems show ?case
      by (simp add: new)
  qed simp
  define base where "base = map (\<lambda>(r, h). (map_hit h)\<lparr>hit_score := rrf_contrib r\<rparr>) (enumerate 0 vs)"
  have "fuse_lanes vs [] = map (\<lambda>(r, h). (hit_id h, rrf_contrib r, h)) (enumerate 0 (map map_hit vs))"
    using acc [of "[]" "map map_hit vs" 0] assms(1) by (simp add: fuse_lanes_def comp_def)
  moreover have "enumerate 0 (map map_hit vs) = map (\<lambda>(r, h). (r, map_hit h)) (enumerate 0 vs)"
    by (rule nth_equalityI) (auto simp: nth_enumerate_eq)
  ultimately have accs: "map (\<lambda>(i, s, h). h\<lparr>hit_score := s\<rparr>) (fuse_lanes vs []) = base"
    by (simp add: base_def comp_def case_prod_beta)
  have strict: "sorted_wrt (\<lambda>a b. hit_score b < hit_score a) base"
    unfolding sorted_wrt_iff_nth_less base_def
    using assms(2) by (auto simp: nth_enumerate_eq intro!: rrf_contrib_strict)
  have "sort_desc hit_score (map (\<lambda>(i, s, h). h\<lparr>hit_score := s\<rparr>) (order (fuse_lanes vs []))) = base"
  proof -
    let ?all = "map (\<lambda>(i, s, h). h\<lparr>hit_score := s\<rparr>) (order (fuse_lanes vs []))"
    have ms: "mset ?all = mset base" unfolding accs [symmetric] using assms(3) by (simp add: mset_map)
    have m: "mset (sort_desc hit_score ?all) = mset base" using ms by (simp only: mset_sort_desc)
    have str: "sorted_wrt (<) (map (\<lambda>h. - hit_score h) base)"
      using strict by (simp add: sorted_wrt_map)
    show ?thesis
    proof (rule map_sorted_distinct_set_unique [where f = "\<lambda>h. - hit_score h"])
      show "set (sort_desc hit_score ?all) = set base" using m by (metis set_mset_mset)
      then show "inj_on (\<lambda>h. - hit_score h) (set (sort_desc hit_score ?all) \<union> set base)"
        using str by (simp add: strict_sorted_iff distinct_map)
      show "sorted (map (\<lambda>h. - hit_score h) base)" "distinct (map (\<lambda>h. - hit_score h) base)"
        using str by (simp_all add: strict_sorted_iff)
      then show "distinct (map (\<lambda>h. - hit_score h) (sort_desc hit_score ?all))"
        using m by (metis mset_eq_imp_distinct_iff mset_map)
      show "sorted (map (\<lambda>h. - hit_score h) (sort_desc hit_score ?all))"
        by (simp add: sort_desc_def)
    qed
  qed
  then show ?thesis
    by (simp add: rrf_fuse_def base_def take_map comp_def case_prod_beta)
qed

definition toy_vec :: "search_hit list" where
  "toy_vec = [\<lparr>sh_id = ''A'', sh_score = 9/10, sh_payload = JNull\<rparr>, \<lparr>sh_id = ''B'', sh_score = 1/2, sh_payload = JNull\<rparr>]"

definition toy_bm :: "bm25_hit list" where
  "toy_bm = [\<lparr>bm_id = ''B'', bm_score = 5, bm_source = ''s'', bm_text = ''t''\<rparr>]"

theorem rrf_fused_ranking_witness:
  "let out = rrf_fuse rev toy_vec toy_bm 1 in
    distinct (map hit_id out) \<and> length out = min 1 (card (fused_ids toy_vec toy_bm))"
proof -
  have "distinct (map sh_id toy_vec)" "distinct (map bm_id toy_bm)"
    "mset (rev (fuse_lanes toy_vec toy_bm)) = mset (fuse_lanes toy_vec toy_bm)"
    by (simp_all add: toy_vec_def toy_bm_def)
  from rrf_fused_ranking [where order = rev, OF this] show ?thesis unfolding Let_def by blast
qed

theorem rrf_single_lane_order_witness:
  "map hit_id (rrf_fuse rev toy_vec [] 2) = [''A'', ''B'']"
proof -
  have "distinct (map sh_id toy_vec)" "length toy_vec < 2 ^ 22"
    "mset (rev (fuse_lanes toy_vec [])) = mset (fuse_lanes toy_vec [])"
    by (simp_all add: toy_vec_def)
  from arg_cong [OF rrf_single_lane_order [where order = rev, OF this, of 2], of "map fst"] show ?thesis
    by (simp add: comp_def toy_vec_def)
qed

text \<open>A document found by both lanes does not always beat one found by a single lane: two
  contributions at rank 61 are less than one at rank 0.\<close>

theorem both_lanes_can_lose:
  "fadd (rrf_contrib 61) (rrf_contrib 61) < rrf_contrib 0"
  by code_simp

section \<open>The two lanes name documents differently\<close>

lemma guarded_result:
  assumes "guarded t0 t1 oper (s, q) = (Inr x, st')"
  shows "\<exists>q'. oper q = (Inr x, q')"
  using assms
  by (auto simp: guarded_def end_call_def Let_def split: option.splits prod.splits sum.splits)

lemma vector_ids:
  assumes "qdrant_search srv debug t0 t1 qv k (s, q) = (Inr vs, st')" and "h \<in> set vs"
  shows "sh_id h = [] \<or> (\<exists>p. sh_id h = debug p)"
proof -
  obtain q' where "search_raw srv debug s qv k q = (Inr vs, q')"
    using guarded_result assms(1) unfolding qdrant_search_def by fastforce
  with assms(2) show ?thesis by (auto simp: search_raw_def split: sum.splits option.splits) blast
qed

lemma bm25_ids:
  assumes "bm25_search fts query k S = Inr bs" and "b \<in> set bs"
  shows "\<exists>r \<in> set (observations S). bm_id b = row_id r"
  using assms
  by (fastforce simp: bm25_search_def Let_def sql_limit_def List.map_filter_def find_Some_iff
      split: if_splits sum.splits option.splits dest!: in_set_takeD)

text \<open>No fused hit ever gets contributions from both lanes: the vector lane names a point by
  the \<open>Debug\<close> text of its Qdrant id, which starts with the type's name, the BM25 lane by the
  observation's \<open>obs-\<close> id.  A document ingested into both appears twice.\<close>

theorem lanes_never_share_an_id:
  assumes "\<forall>p. starts_with (debug p) ''PointId''"
    and "\<forall>r \<in> set (observations S). starts_with (row_id r) ''obs-''"
    and "qdrant_search srv debug t0 t1 qv fetch (s, q) = (Inr vs, st')"
    and "bm25_search fts query fetch S = Inr bs"
  shows "sh_id ` set vs \<inter> bm_id ` set bs = {}"
proof -
  have False if v: "v \<in> set vs" and b: "b \<in> set bs" and eq: "sh_id v = bm_id b" for v b
  proof -
    from bm25_ids [OF assms(4) b] assms(2) have o: "starts_with (bm_id b) ''obs-''" by auto
    from vector_ids [OF assms(3) v] assms(1) have "bm_id b = [] \<or> starts_with (bm_id b) ''PointId''"
      unfolding eq by metis
    with o show False
      by (cases "bm_id b") (auto simp: starts_with_def)
  qed
  then show ?thesis by blast
qed

definition toy_debug :: "point_id \<Rightarrow> string" where
  "toy_debug p = ''PointId { .. }''"

theorem lanes_never_share_an_id_witness:
  "sh_id ` set [\<lparr>sh_id = ''PointId { .. }'', sh_score = 1, sh_payload = JNull\<rparr>] \<inter>
    bm_id ` set [\<lparr>bm_id = gen_id 7, bm_score = 1, bm_source = ''s'', bm_text = ''t''\<rparr>] = {}"
proof -
  let ?srv = "toy_server\<lparr>srv_search := (\<lambda>_ _ _ _. Inr [(Some (PointNum 3), 1, JNull)])\<rparr>"
  have a: "\<forall>p. starts_with (toy_debug p) ''PointId''"
    by (simp add: toy_debug_def starts_with_def)
  have b: "\<forall>r \<in> set (observations toy_store). starts_with (row_id r) ''obs-''"
    by (simp add: toy_store_def toy_row_def starts_with_def gen_id_def)
  have c: "qdrant_search ?srv toy_debug 0 0 [0] 9 (open_lazy ''c'', 0) =
      (Inr [\<lparr>sh_id = ''PointId { .. }'', sh_score = 1, sh_payload = JNull\<rparr>], open_lazy ''c'', 0)"
    by (simp add: qdrant_defs open_lazy_def new_lazy_def toy_server_def toy_debug_def)
  have d: "bm25_search (\<lambda>idx q. Inr [((gen_id 7, ''t''), - 1)]) ''cat'' 9 toy_store =
      Inr [\<lparr>bm_id = gen_id 7, bm_score = 1, bm_source = ''s'', bm_text = ''t''\<rparr>]"
    by (simp add: bm25_search_def sanitize_def split_whitespace_def is_ws_def is_alnum_def is_alpha_def
        is_lower_def Let_def sql_limit_def List.map_filter_simps toy_store_def toy_row_def)
  show ?thesis by (rule lanes_never_share_an_id [OF a b c d])
qed

section \<open>Search and ingestion\<close>

definition vector_ok :: "'q recall_env \<Rightarrow> string \<Rightarrow> usize \<Rightarrow> 'q hybrid_recall \<Rightarrow> bool" where
  "vector_ok E query k r \<longleftrightarrow> is_clean (snd (fst (vector_lane E query (fetch_limit k) r)))"

definition bm25_ok :: "'q recall_env \<Rightarrow> string \<Rightarrow> usize \<Rightarrow> 'q hybrid_recall \<Rightarrow> bool" where
  "bm25_ok E query k r \<longleftrightarrow> (\<exists>S hs. r_sqlite r = Some S \<and> bm25_search (re_fts E) query (fetch_limit k) S = Inr hs)"

lemma vector_lane_cases:
  obtains hs r' where "vector_lane E query f r = ((hs, clean), r')"
  | r' where "vector_lane E query f r = (([], clean\<lparr>ollama_unavailable := True\<rparr>), r')"
  | r' where "vector_lane E query f r = (([], clean\<lparr>qdrant_unavailable := True\<rparr>), r')"
proof -
  obtain res r1 where e: "embed_query E query r = (res, r1)" by (rule prod.exhaust)
  show thesis
  proof (cases res)
    case (Inl x)
    with e that(2) show ?thesis by (simp add: vector_lane_def)
  next
    case (Inr qv)
    obtain res2 q' where q: "timed (re_timeout E) (re_qdrant_ms E)
        (qdrant_search (re_server E) (re_debug E) (re_t2 E) (re_t3 E) qv f)
        (drop_qdrant_call (re_t2 E)) (r_qdrant r1) = (res2, q')" by (rule prod.exhaust)
    with e Inr that(1,3) show ?thesis by (cases res2) (simp_all add: vector_lane_def)
  qed
qed

lemma rrf_fuse_length: "length (rrf_fuse order vs bs k) \<le> k"
  by (simp add: rrf_fuse_def)


text \<open>C26: ingestion is all or nothing in SQLite: an error leaves the rows and the vector store
  as they were; a receipt means that exactly one row, with the receipt's id, was added, and says
  the vector was stored exactly when no lane is flagged.\<close>

theorem ingest_outcome:
  "case ingest sha256 canon E applied C src v r of
     (Inl e, r') \<Rightarrow> map_option observations (r_sqlite r') = map_option observations (r_sqlite r)
       \<and> r_qdrant r' = r_qdrant r \<and> r_ollama r' = r_ollama r
   | (Inr rc, r') \<Rightarrow> persisted_bm25 rc \<and> (persisted_vector rc \<longleftrightarrow> is_clean (receipt_degraded rc))
       \<and> (\<exists>S S' n. r_sqlite r = Some S \<and> r_sqlite r' = Some S' \<and> observations S' = observations S @ [n]
            \<and> row_id n = receipt_id rc)"
proof (cases "r_sqlite r")
  case None
  then show ?thesis by (simp add: ingest_def)
next
  case (Some S)
  show ?thesis
  proof (cases rule: insert_observation_cases [of sha256 canon "ic_fault C" "ic_nanos C" "ic_now C" src v S,
        case_names fails inserts])
    case (fails e)
    with Some show ?thesis by (simp add: ingest_def)
  next
    case (inserts env n)
    have "row_id n = env_id env" using inserts(2) by (auto simp: row_envelope_def)
    with inserts(1) Some show ?thesis
      by (auto simp: ingest_def embed_query_def Let_def clean_def is_clean_def split: sum.split prod.split)
  qed
qed

text \<open>A dependency that hangs never opens its breaker: when the timeout drops a call under a
  closed breaker, the failure is not recorded, so the state after any number of such calls is the
  state before.\<close>

theorem timeouts_never_trip_breaker:
  assumes "ollama_breaker (r_ollama r) = Some b" and "state b = Closed"
    and "case re_embed_ms E of None \<Rightarrow> True | Some ms \<Rightarrow> unat (re_timeout E) < ms"
  shows "((\<lambda>r. snd (embed_query E text r)) ^^ n) r = r \<and> fst (embed_query E text r) = Inl ''timeout''"
proof -
  have "embed_query E text r = (Inl ''timeout'', r)"
    using assms by (auto simp: embed_query_def timed_def drop_ollama_call_def begin_call_def split: option.splits)
  then show ?thesis by (induction n) auto
qed


definition toy_env :: "nat recall_env" where
  "toy_env = \<lparr>re_post = (\<lambda>_ _ _. NoConnection), re_server = toy_server, re_debug = toy_debug,
     re_fts = (\<lambda>_ _. Inr []), re_order = (\<lambda>a. a), re_embed_ms = None, re_qdrant_ms = None,
     re_t0 = 0, re_t1 = 0, re_t2 = 0, re_t3 = 0, re_timeout = 4000\<rparr>"

theorem timeouts_never_trip_breaker_witness:
  "fst (embed_query toy_env ''cat'' (with_embedder (with_ollama_breaker (new_breaker ''ollama'') (new_ollama []))
     (open_lazy ''c'', 0))) = Inl ''timeout''"
proof -
  have a: "ollama_breaker (r_ollama (with_embedder (with_ollama_breaker (new_breaker ''ollama'') (new_ollama []))
      (open_lazy ''c'', 0 :: nat))) = Some (new_breaker ''ollama'')"
    and b: "state (new_breaker ''ollama'') = Closed"
    and c: "case re_embed_ms toy_env of None \<Rightarrow> True | Some ms \<Rightarrow> unat (re_timeout toy_env) < ms"
    by (simp_all add: with_embedder_def with_ollama_breaker_def new_breaker_def with_config_def toy_env_def)
  from timeouts_never_trip_breaker [OF a b c] show ?thesis by blast
qed

end
