(* ===== verification/Docs.thy ===== *)
theory Docs
  imports Prelude Float32
begin

text \<open>
  The canonical-docs router of \<open>crates/amore-core/src/docs.rs\<close>: tokenisation, title and
  excerpt extraction, scoring, routing and the validation of search paths.  A path is the list
  of its components; a directory is what \<open>read_dir\<close> yields for it, in its order.  Texts are
  ASCII.
\<close>

definition HEADER_SCAN_LINES :: nat where "HEADER_SCAN_LINES = 10"
definition EXCERPT_MAX_CHARS :: nat where "EXCERPT_MAX_CHARS = 800"
definition BODY_KEYWORD_SCAN_CHARS :: nat where "BODY_KEYWORD_SCAN_CHARS = 2000"
definition TOP_K_HITS :: nat where "TOP_K_HITS = 3"

record doc_hit =
  doc_path :: "string list"
  doc_title :: string
  topic_score :: rat
  doc_excerpt :: string

text \<open>One token is dropped when shorter than three bytes or seen before.\<close>

fun tokenize_loop :: "string list \<Rightarrow> string list \<Rightarrow> string list" where
  "tokenize_loop [] out = out"
| "tokenize_loop (raw # raws) out =
     (let t = to_lowercase raw in
      if length t < 3 then tokenize_loop raws out
      else if t \<in> set out then tokenize_loop raws out
      else tokenize_loop raws (out @ [t]))"

definition tokenize :: "string \<Rightarrow> string list" where
  "tokenize query = tokenize_loop (split_on (\<lambda>c. \<not> is_alnum c) query) []"

fun first_title :: "string list \<Rightarrow> string option" where
  "first_title [] = None"
| "first_title (line # rest) =
     (let trimmed = trim line in
      case strip_prefix ''# '' trimmed of
        Some r \<Rightarrow> Some (trim r)
      | None \<Rightarrow> (case strip_prefix ''## '' trimmed of
          Some r \<Rightarrow> Some (trim r)
        | None \<Rightarrow> first_title rest))"

definition extract_title :: "string \<Rightarrow> string option" where
  "extract_title body = first_title (lines body)"

fun excerpt_loop :: "string list \<Rightarrow> bool \<Rightarrow> string \<Rightarrow> string" where
  "excerpt_loop [] after_header buf = buf"
| "excerpt_loop (line # rest) after_header buf =
     (if \<not> after_header then excerpt_loop rest (trim line = []) buf
      else if length buf + length line + 1 > EXCERPT_MAX_CHARS then buf
      else excerpt_loop rest True ((if buf = [] then [] else buf @ [CHR 0x0A]) @ line))"

definition extract_excerpt :: "string \<Rightarrow> string" where
  "extract_excerpt body =
     (let buf = excerpt_loop (lines body) False [] in
      if buf = [] then take EXCERPT_MAX_CHARS body else buf)"

definition topic_line :: "string list \<Rightarrow> string" where
  "topic_line header_lines =
     (case List.map_filter (\<lambda>l. map_option trim (strip_prefix ''topic:'' l)) header_lines of
        [] \<Rightarrow> [] | t # _ \<Rightarrow> t)"

definition haystack :: "string \<Rightarrow> string \<Rightarrow> string" where
  "haystack filename body =
     (let title = (case extract_title body of Some t \<Rightarrow> t | None \<Rightarrow> filename);
          header_lines = take HEADER_SCAN_LINES (lines body)
      in to_lowercase filename @ '' '' @ to_lowercase title @ '' '' @ to_lowercase (topic_line header_lines)
         @ '' '' @ to_lowercase (take BODY_KEYWORD_SCAN_CHARS body))"

text \<open>A directory entry: its path, the stem and extension of its name, and its content
  (\<^const>\<open>None\<close>: unreadable, or not UTF-8).\<close>

record doc_file =
  f_path :: "string list"
  f_stem :: string
  f_ext :: "string option"
  f_body :: "string option"

definition score_doc :: "bool \<Rightarrow> string list \<Rightarrow> doc_file \<Rightarrow> doc_hit option" where
  "score_doc require_stable q_tokens f =
     (case f_body f of
        None \<Rightarrow> None
      | Some body \<Rightarrow>
          (let header_lines = take HEADER_SCAN_LINES (lines body);
               header_text = to_lowercase (join_with [CHR 0x0A] header_lines);
               matched = length (filter (contains_str (haystack (f_stem f) body)) q_tokens)
           in if require_stable \<and> \<not> contains_str header_text ''stable: true'' then None
              else if matched = 0 then None
              else Some \<lparr>doc_path = f_path f,
                doc_title = (case extract_title body of Some t \<Rightarrow> t | None \<Rightarrow> f_stem f),
                topic_score = fdiv (f32 (of_nat matched)) (f32 (of_nat (length q_tokens))),
                doc_excerpt = extract_excerpt body\<rparr>))"

text \<open>A search path is missing, unreadable (both \<^const>\<open>None\<close>), or a list of entries.\<close>

definition route :: "bool \<Rightarrow> string \<Rightarrow> doc_file list option list \<Rightarrow> doc_hit list" where
  "route require_stable query dirs =
     (let q_tokens = tokenize query in
      if q_tokens = [] then []
      else take TOP_K_HITS (sort_desc topic_score
        (List.map_filter (score_doc require_stable q_tokens)
          (filter (\<lambda>f. f_ext f = Some ''md'')
            (concat (map (\<lambda>d. case d of None \<Rightarrow> [] | Some fs \<Rightarrow> fs) dirs))))))"

definition default_search_paths :: "string list \<Rightarrow> string list \<Rightarrow> string list list" where
  "default_search_paths home cwd =
     [home @ [''.claude'', ''docs''], cwd @ [''.claude'', ''docs''], cwd @ [''docs'']]"

definition validate_docs_path :: "string option \<Rightarrow> string list \<Rightarrow> string list \<Rightarrow> string + unit" where
  "validate_docs_path allow_any path home =
     (if allow_any = Some ''1'' then Inr ()
      else if take (length home) path = home then Inr ()
      else Inl ''docs path is outside home_dir'')"

section \<open>Lemmas\<close>

lemma tokenize_loop_inv:
  "distinct out \<Longrightarrow> list_all (\<lambda>t. 3 \<le> length t \<and> to_lowercase t = t) out \<Longrightarrow>
   distinct (tokenize_loop raws out) \<and> list_all (\<lambda>t. 3 \<le> length t \<and> to_lowercase t = t) (tokenize_loop raws out)"
  by (induction raws out rule: tokenize_loop.induct) (auto simp: Let_def)

lemma excerpt_loop_bound:
  "length buf \<le> EXCERPT_MAX_CHARS \<Longrightarrow> length (excerpt_loop ls h buf) \<le> EXCERPT_MAX_CHARS"
  by (induction ls h buf rule: excerpt_loop.induct) auto

lemma score_doc_Some:
  assumes "score_doc st qs f = Some h" and "length qs < 2 ^ 24"
  shows "doc_path h = f_path f \<and> length (doc_excerpt h) \<le> EXCERPT_MAX_CHARS
    \<and> topic_score h \<le> 1 \<and> 0 \<le> topic_score h"
proof -
  obtain body where b: "f_body f = Some body"
    using assms(1) by (auto simp: score_doc_def split: option.splits)
  define m where "m = length (filter (contains_str (haystack (f_stem f) body)) qs)"
  have m: "m \<le> length qs" by (simp add: m_def)
  have "topic_score h = fdiv (f32 (of_nat m)) (f32 (of_nat (length qs)))"
    using assms(1) by (auto simp: score_doc_def b m_def Let_def split: if_splits)
  also have "\<dots> = f32 (of_nat m / of_nat (length qs))"
    using m assms(2) by (simp add: f32_of_nat)
  finally have s: "topic_score h = f32 (of_nat m / of_nat (length qs))" .
  have "(of_nat m / of_nat (length qs) :: rat) \<le> 1"
    using m by (cases "length qs = 0") (simp_all add: divide_le_eq)
  then have "topic_score h \<le> 1" "0 \<le> topic_score h"
    unfolding s by (simp_all add: f32_le_1 f32_nonneg)
  moreover have "length (extract_excerpt body) \<le> EXCERPT_MAX_CHARS"
    using excerpt_loop_bound [of "[]" "lines body" False] by (simp add: extract_excerpt_def Let_def)
  ultimately show ?thesis
    using assms(1) by (auto simp: score_doc_def b Let_def split: if_splits)
qed

section \<open>Properties\<close>

text \<open>Routing returns at most three documents, best first, each an \<open>.md\<close> file of the search
  paths with a score in \<open>[0, 1]\<close> and an excerpt of at most 800 bytes; no document left out scores
  higher than one returned.\<close>

theorem route_bounded:
  assumes "length (tokenize query) < 2 ^ 24"
  shows "length (route st query dirs) \<le> 3
    \<and> sorted_wrt (\<lambda>a b. topic_score b \<le> topic_score a) (route st query dirs)
    \<and> (\<forall>h \<in> set (route st query dirs). 0 \<le> topic_score h \<and> topic_score h \<le> 1
         \<and> length (doc_excerpt h) \<le> 800
         \<and> (\<exists>fs f. Some fs \<in> set dirs \<and> f \<in> set fs \<and> f_ext f = Some ''md'' \<and> doc_path h = f_path f)
         \<and> (\<forall>fs f g. Some fs \<in> set dirs \<and> f \<in> set fs \<and> f_ext f = Some ''md''
              \<and> score_doc st (tokenize query) f = Some g \<and> g \<notin> set (route st query dirs)
              \<longrightarrow> topic_score g \<le> topic_score h))"
proof (cases "tokenize query = []")
  case True
  then show ?thesis by (simp add: route_def)
next
  case False
  define files where "files = filter (\<lambda>f. f_ext f = Some ''md'') (concat (map (\<lambda>d. case d of None \<Rightarrow> [] | Some fs \<Rightarrow> fs) dirs))"
  define scored where "scored = List.map_filter (score_doc st (tokenize query)) files"
  have r: "route st query dirs = take 3 (sort_desc topic_score scored)"
    using False by (simp add: route_def scored_def files_def TOP_K_HITS_def)
  have files: "f \<in> set files \<longleftrightarrow> (\<exists>fs. Some fs \<in> set dirs \<and> f \<in> set fs) \<and> f_ext f = Some ''md''" for f
    by (auto simp: files_def split: option.splits)
  have scored: "h \<in> set scored \<longleftrightarrow> (\<exists>f \<in> set files. score_doc st (tokenize query) f = Some h)" for h
    by (force simp: scored_def List.map_filter_def)
  have hit: "0 \<le> topic_score h \<and> topic_score h \<le> 1 \<and> length (doc_excerpt h) \<le> 800
      \<and> (\<exists>fs f. Some fs \<in> set dirs \<and> f \<in> set fs \<and> f_ext f = Some ''md'' \<and> doc_path h = f_path f)"
    if "h \<in> set scored" for h
  proof -
    from that scored obtain f where f: "f \<in> set files" "score_doc st (tokenize query) f = Some h" by blast
    from score_doc_Some [OF f(2) assms] f(1) files show ?thesis by (auto simp: EXCERPT_MAX_CHARS_def)
  qed
  have member: "h \<in> set scored" if "h \<in> set (route st query dirs)" for h
    using that r in_set_takeD by fastforce
  have best: "topic_score g \<le> topic_score h"
    if "h \<in> set (route st query dirs)" "g \<in> set scored" "g \<notin> set (route st query dirs)" for g h
    using that unfolding r by (rule top_k_dominates)
  have "sorted_wrt (\<lambda>a b. topic_score b \<le> topic_score a) (route st query dirs)"
    unfolding r by (intro sorted_wrt_take sort_desc_sorted)
  moreover have "length (route st query dirs) \<le> 3" by (simp add: r)
  moreover have "g \<in> set scored" if "Some fs \<in> set dirs \<and> f \<in> set fs \<and> f_ext f = Some ''md''
      \<and> score_doc st (tokenize query) f = Some g" for fs f g
    using that files scored by blast
  ultimately show ?thesis using hit member best by blast
qed

theorem route_bounded_witness:
  "length (route True ''cat'' [None, Some []]) \<le> 3"
proof -
  have "length (tokenize ''cat'') < 2 ^ 24"
    by (simp add: tokenize_def is_alnum_def is_alpha_def is_lower_def to_lowercase_def lower_char_def
        is_upper_def Let_def)
  from route_bounded [OF this] show ?thesis by blast
qed

text \<open>The validation of a documents path compares components without resolving \<open>..\<close>: a path
  that leaves the home directory through it is accepted as inside.\<close>

theorem parent_components_escape_home:
  "validate_docs_path None (home @ ''..'' # rest) home = Inr ()"
  by (simp add: validate_docs_path_def)

end
