(* ===== verification/Ensemble.thy ===== *)
theory Ensemble
  imports Json Float32
begin

text \<open>
  The multi-agent ensemble of \<open>crates/amore-core/src/ensemble.rs\<close>: prompts, extraction of the
  vote from a model's answer, the confidence-weighted tally and the orchestrator.  The language
  model and the JSON parser are parameters; a parsed number is the value of the \<open>f64\<close>.
\<close>

datatype agent_role = Architect | Skeptic | Historian | Reviewer | Negotiator | Implementer

definition VOTE_SCHEMA :: string where
  "VOTE_SCHEMA = ''Respond with ONE line JSON: {\"position\":\"approve\"|\"reject\"|\"abstain\",\"confidence\":<0..1>,\"rationale\":\"<short>\"}.''"

fun role_name :: "agent_role \<Rightarrow> string" where
  "role_name Architect = ''architect''"
| "role_name Skeptic = ''skeptic''"
| "role_name Historian = ''historian''"
| "role_name Reviewer = ''reviewer''"
| "role_name Negotiator = ''negotiator''"
| "role_name Implementer = ''implementer''"

fun role_head :: "agent_role \<Rightarrow> string" where
  "role_head Architect = ''You are the Architect agent. Evaluate a proposed change for soundness, scope, and architectural fit. Default to abstain when evidence is missing.''"
| "role_head Skeptic = ''You are the Skeptic agent. Challenge the proposed change: probe assumptions, demand evidence, surface hidden risks. Reject when any load-bearing claim is unproven.''"
| "role_head Historian = ''You are the Historian agent. Search precedent: has this been tried? What did past sessions decide on similar matters?''"
| "role_head Reviewer = ''You are the Reviewer agent. Judge correctness, regression risk, and release-readiness.''"
| "role_head Negotiator = ''You are the Negotiator agent. Identify the single highest-expected-information-gain clarifying question.''"
| "role_head Implementer = ''You are the Implementer agent. Estimate whether the change is executable in a bounded edit budget.''"

definition system_prompt :: "agent_role \<Rightarrow> string" where
  "system_prompt r = role_head r @ '' '' @ VOTE_SCHEMA"

record vote =
  v_agent :: string
  v_position :: string
  v_rationale :: string
  v_confidence :: rat

record decision =
  decision_id :: string
  consensus :: string
  d_votes :: "vote list"
  d_confidence :: rat

text \<open>The scanner's state is the brace depth, whether it is inside a string, and whether the last
  character was a backslash there; the result is the length of the object.\<close>

fun scan_object :: "int \<Rightarrow> bool \<Rightarrow> bool \<Rightarrow> string \<Rightarrow> nat option" where
  "scan_object depth in_str esc [] = None"
| "scan_object depth in_str esc (c # s) =
     (if in_str then
        (if esc then map_option Suc (scan_object depth True False s)
         else if c = CHR 0x5C then map_option Suc (scan_object depth True True s)
         else if c = CHR 0x22 then map_option Suc (scan_object depth False False s)
         else map_option Suc (scan_object depth True False s))
      else if c = CHR 0x22 then map_option Suc (scan_object depth True esc s)
      else if c = CHR ''{'' then map_option Suc (scan_object (depth + 1) False esc s)
      else if c = CHR ''}'' then
        (if depth - 1 = 0 then Some 1 else map_option Suc (scan_object (depth - 1) False esc s))
      else map_option Suc (scan_object depth False esc s))"

definition extract_first_json_object :: "string \<Rightarrow> string option" where
  "extract_first_json_object s =
     (let t = dropWhile (\<lambda>c. c \<noteq> CHR ''{'') s in
      if t = [] then None else map_option (\<lambda>n. take n t) (scan_object 0 False False t))"

definition canonical_position :: "string \<Rightarrow> string" where
  "canonical_position s =
     (let l = to_lowercase (trim s) in
      if starts_with l ''approv'' \<or> l = ''yes'' \<or> l = ''yea'' then ''approve''
      else if starts_with l ''reject'' \<or> l = ''no'' \<or> l = ''nay'' then ''reject''
      else ''abstain'')"

definition clamp01 :: "rat \<Rightarrow> rat" where
  "clamp01 q = (if q < 0 then 0 else if 1 < q then 1 else q)"

definition parse_vote :: "(string \<Rightarrow> json option) \<Rightarrow> string \<Rightarrow> string \<Rightarrow> vote" where
  "parse_vote parse agent raw =
     (case Option.bind (extract_first_json_object raw) parse of
        Some v \<Rightarrow> \<lparr>v_agent = agent,
          v_position = (case get_str ''position'' v of Some p \<Rightarrow> canonical_position p | None \<Rightarrow> ''abstain''),
          v_rationale = (case get_str ''rationale'' v of Some t \<Rightarrow> t | None \<Rightarrow> []),
          v_confidence = f32 (clamp01 (case Option.bind (jget ''confidence'' v) as_num of Some q \<Rightarrow> q | None \<Rightarrow> 0))\<rparr>
      | None \<Rightarrow> \<lparr>v_agent = agent, v_position = ''abstain'', v_rationale = trim raw, v_confidence = 0\<rparr>)"

definition weight :: "string list \<Rightarrow> vote list \<Rightarrow> rat" where
  "weight ps votes = foldl (\<lambda>acc v. fadd acc (v_confidence v)) 0 (filter (\<lambda>v. v_position v \<in> set ps) votes)"

definition weight_other :: "vote list \<Rightarrow> rat" where
  "weight_other votes = foldl (\<lambda>acc v. fadd acc (v_confidence v)) 0
     (filter (\<lambda>v. v_position v \<noteq> ''approve'' \<and> v_position v \<noteq> ''reject'') votes)"

definition tally :: "vote list \<Rightarrow> string \<times> rat" where
  "tally votes =
     (if votes = [] then (''abstain'', 0)
      else let approve = weight [''approve''] votes;
               reject = weight [''reject''] votes;
               abstain = weight_other votes;
               total = fadd (fadd approve reject) abstain
           in if total \<le> 0 then (''abstain'', 0)
              else let (winner, w) =
                (if reject < approve \<and> abstain < approve then (''approve'', approve)
                 else if approve < reject \<and> abstain < reject then (''reject'', reject)
                 else (''abstain'', max abstain (max approve reject)))
              in (winner, clamp01 (fdiv w total)))"

text \<open>\<open>generate\<close> is the language model: a system prompt and a prompt to an answer or an error.\<close>

definition agent_vote ::
  "(string option \<Rightarrow> string \<Rightarrow> string + string) \<Rightarrow> (string \<Rightarrow> json option) \<Rightarrow> agent_role \<Rightarrow> string \<Rightarrow> string + vote" where
  "agent_vote generate parse role prompt =
     (case generate (Some (system_prompt role)) prompt of
        Inl e \<Rightarrow> Inl e
      | Inr raw \<Rightarrow> Inr (parse_vote parse (role_name role) raw))"

fun collect_votes ::
  "(string option \<Rightarrow> string \<Rightarrow> string + string) \<Rightarrow> (string \<Rightarrow> json option) \<Rightarrow> agent_role list \<Rightarrow> string \<Rightarrow> string + vote list" where
  "collect_votes generate parse [] prompt = Inr []"
| "collect_votes generate parse (a # as) prompt =
     (case agent_vote generate parse a prompt of
        Inl e \<Rightarrow> Inl e
      | Inr v \<Rightarrow> (case collect_votes generate parse as prompt of Inl e \<Rightarrow> Inl e | Inr vs \<Rightarrow> Inr (v # vs)))"

definition decide ::
  "(string option \<Rightarrow> string \<Rightarrow> string + string) \<Rightarrow> (string \<Rightarrow> json option) \<Rightarrow> agent_role list \<Rightarrow> string \<Rightarrow> string
    \<Rightarrow> string + decision" where
  "decide generate parse agents did prompt =
     (case collect_votes generate parse agents prompt of
        Inl e \<Rightarrow> Inl e
      | Inr votes \<Rightarrow> (let (c, conf) = tally votes in
          Inr \<lparr>decision_id = did, consensus = c, d_votes = votes, d_confidence = conf\<rparr>))"

section \<open>Extraction\<close>

lemma scan_object_bounds:
  "scan_object d i e s = Some n \<Longrightarrow> 0 < n \<and> n \<le> length s \<and> s ! (n - 1) = CHR ''}''"
  by (induction d i e s arbitrary: n rule: scan_object.induct)
     (auto split: if_splits simp: nth_Cons')

lemma scan_object_append: "scan_object d i e s = Some n \<Longrightarrow> scan_object d i e (s @ t) = Some n"
  by (induction d i e s arbitrary: n rule: scan_object.induct) (auto split: if_splits)

lemma scan_object_take:
  "scan_object d i e s = Some n \<Longrightarrow> scan_object d i e (take n s) = Some n"
  by (induction d i e s arbitrary: n rule: scan_object.induct) (auto split: if_splits)

lemma dropWhile_brace: "CHR ''{'' \<notin> set pre \<Longrightarrow> dropWhile (\<lambda>c. c \<noteq> CHR ''{'') (pre @ CHR ''{'' # s) = CHR ''{'' # s"
  by (induction pre) auto

text \<open>Extraction is insensitive to prose: an object that extraction accepts on its own is
  extracted unchanged from any text that puts brace-free prose before it and anything after it.\<close>

theorem extract_tolerates_prose:
  assumes "extract_first_json_object obj = Some obj" and "CHR ''{'' \<notin> set pre"
  shows "extract_first_json_object (pre @ obj @ post) = Some obj"
proof -
  let ?t = "dropWhile (\<lambda>c. c \<noteq> CHR ''{'') obj"
  obtain n where n: "?t \<noteq> []" "scan_object 0 False False ?t = Some n" "take n ?t = obj"
    using assms(1) by (auto simp: extract_first_json_object_def Let_def split: if_splits)
  have "length ?t \<le> length obj" by (rule length_dropWhile_le)
  moreover have "length obj \<le> length ?t" using n(3) by (metis length_take min.cobounded1)
  ultimately have "length (takeWhile (\<lambda>c. c \<noteq> CHR ''{'') obj) = 0"
    by (metis append_self_conv2 length_append le_antisym list.size(3) takeWhile_dropWhile_id add_right_cancel add_0)
  then have t: "?t = obj" by (metis append_Nil length_0_conv takeWhile_dropWhile_id)
  obtain s where s: "obj = CHR ''{'' # s"
    using n(1) t hd_dropWhile [OF n(1)] by (cases obj) auto
  have "length obj = n"
    using n(3) scan_object_bounds [OF n(2)] t by (metis length_take min.absorb2)
  moreover have "scan_object 0 False False (obj @ post) = Some n"
    using scan_object_append [of 0 False False obj n post] n(2) unfolding t by simp
  moreover have "dropWhile (\<lambda>c. c \<noteq> CHR ''{'') (pre @ obj @ post) = obj @ post"
    using dropWhile_brace [OF assms(2), of "s @ post"] by (simp add: s)
  moreover have "obj @ post \<noteq> []" using s by simp
  ultimately show ?thesis unfolding extract_first_json_object_def Let_def by simp
qed

theorem extract_tolerates_prose_witness:
  "extract_first_json_object (''Verdict: '' @ ''{ }'' @ '' done }'') = Some ''{ }''"
proof -
  have "extract_first_json_object ''{ }'' = Some ''{ }''"
    by (simp add: extract_first_json_object_def Let_def)
  from extract_tolerates_prose [OF this, of "''Verdict: ''" "'' done }''"] show ?thesis by simp
qed

text \<open>Parsing a vote never fails: whatever the model answers, the position is one of the
  three, the confidence lies in \<open>[0, 1]\<close>, and the agent is the one asked.\<close>

theorem parse_vote_total:
  "let v = parse_vote parse agent raw in
    v_position v \<in> {''approve'', ''reject'', ''abstain''} \<and> 0 \<le> v_confidence v \<and> v_confidence v \<le> 1
    \<and> v_agent v = agent"
proof -
  have c: "0 \<le> clamp01 q \<and> clamp01 q \<le> 1" for q
    by (auto simp: clamp01_def)
  then have "0 \<le> f32 (clamp01 q) \<and> f32 (clamp01 q) \<le> 1" for q
    by (simp add: f32_le_1)
  then show ?thesis
    by (auto simp: parse_vote_def canonical_position_def Let_def split: option.split)
qed

section \<open>The tally\<close>

lemma weight_nonneg:
  assumes "list_all (\<lambda>v. 0 \<le> v_confidence v) vs"
  shows "0 \<le> foldl (\<lambda>acc v. fadd acc (v_confidence v)) 0 vs"
proof -
  have "0 \<le> foldl (\<lambda>acc v. fadd acc (v_confidence v)) a vs" if "0 \<le> a" for a
    using that assms by (induction vs arbitrary: a) auto
  then show ?thesis by simp
qed

lemma rounded_fold:
  assumes "list_all (\<lambda>v. 0 \<le> v_confidence v) vs"
  shows "f32 (foldl (\<lambda>acc v. fadd acc (v_confidence v)) 0 vs) = foldl (\<lambda>acc v. fadd acc (v_confidence v)) 0 vs"
proof -
  have "f32 (foldl (\<lambda>acc v. fadd acc (v_confidence v)) a vs) = foldl (\<lambda>acc v. fadd acc (v_confidence v)) a vs"
    if "0 \<le> a" "f32 a = a" for a
    using that assms by (induction vs arbitrary: a) (auto simp: f32_idem)
  then show ?thesis by simp
qed

text \<open>C18: the verdict of non-negative votes is \<open>approve\<close> or \<open>reject\<close> only when that side's weight
  strictly exceeds both others; otherwise it is \<open>abstain\<close>.  The reported confidence lies in
  \<open>[0, 1]\<close>, and a unanimous vote with some weight is reported with confidence exactly 1.\<close>

theorem tally_majority:
  assumes "list_all (\<lambda>v. 0 \<le> v_confidence v) votes"
  shows "let (c, conf) = tally votes; a = weight [''approve''] votes; r = weight [''reject''] votes; o' = weight_other votes in
    (c = ''approve'' \<longleftrightarrow> r < a \<and> o' < a) \<and> (c = ''reject'' \<longleftrightarrow> a < r \<and> o' < r)
    \<and> c \<in> {''approve'', ''reject'', ''abstain''} \<and> 0 \<le> conf \<and> conf \<le> 1
    \<and> ((\<exists>p. p \<in> {''approve'', ''reject'', ''abstain''} \<and> (\<forall>v \<in> set votes. v_position v = p)) \<and> 0 < a + r + o' \<longrightarrow> conf = 1)"
proof -
  define a where "a = weight [''approve''] votes"
  define r where "r = weight [''reject''] votes"
  define b where "b = weight_other votes"
  have sub: "list_all (\<lambda>v. 0 \<le> v_confidence v) (filter P votes)" for P
    using assms by (auto simp: list_all_iff)
  have nn: "0 \<le> a" "0 \<le> r" "0 \<le> b"
    unfolding a_def r_def b_def weight_def weight_other_def by (intro weight_nonneg sub)+
  have rd: "f32 a = a" "f32 r = r" "f32 b = b"
    unfolding a_def r_def b_def weight_def weight_other_def by (intro rounded_fold sub)+
  define total where "total = fadd (fadd a r) b"
  have tot: "a \<le> total" "r \<le> total" "b \<le> total"
  proof -
    have "f32 a \<le> fadd a r" "f32 r \<le> fadd a r" using nn by (auto intro: f32_mono)
    moreover have "f32 (fadd a r) \<le> total" "f32 b \<le> total"
      using nn unfolding total_def by (auto intro!: f32_mono)
    ultimately show "a \<le> total" "r \<le> total" "b \<le> total"
      using rd nn by (simp_all add: f32_idem)
  qed
  have clamp: "0 \<le> clamp01 q \<and> clamp01 q \<le> 1" for q by (auto simp: clamp01_def)
  have t: "tally votes = (if votes = [] \<or> total \<le> 0 then (''abstain'', 0)
      else if r < a \<and> b < a then (''approve'', clamp01 (fdiv a total))
      else if a < r \<and> b < r then (''reject'', clamp01 (fdiv r total))
      else (''abstain'', clamp01 (fdiv (max b (max a r)) total)))"
    by (simp add: tally_def a_def [symmetric] r_def [symmetric] b_def [symmetric] total_def Let_def)
  have nil: "votes = [] \<Longrightarrow> total \<le> 0" by (simp add: total_def a_def r_def b_def weight_def weight_other_def)
  have zero: "total \<le> 0 \<Longrightarrow> a = 0 \<and> r = 0 \<and> b = 0" using tot nn by auto
  have un: "conf = 1" if "p \<in> {''approve'', ''reject'', ''abstain''}" "\<forall>v \<in> set votes. v_position v = p"
    "0 < a + r + b" "tally votes = (c, conf)" for p c conf
  proof -
    have pos: "0 < total" using that(3) zero nn by fastforce
    have e: "filter P votes = []" if "\<And>v. v_position v = p \<Longrightarrow> \<not> P v" for P
      using \<open>\<forall>v \<in> set votes. v_position v = p\<close> that by (simp add: filter_empty_conv)
    have "(r = 0 \<and> b = 0) \<or> (a = 0 \<and> b = 0) \<or> (a = 0 \<and> r = 0)"
      using that(1) unfolding a_def r_def b_def weight_def weight_other_def by (auto simp: e)
    then have "max b (max a r) = total \<and> (r < a \<and> b < a \<longrightarrow> a = total) \<and> (a < r \<and> b < r \<longrightarrow> r = total)"
      using nn rd by (auto simp: total_def)
    then show ?thesis using that(4) pos nil unfolding t by (auto simp: clamp01_def split: if_splits)
  qed
  obtain c conf where cc: "tally votes = (c, conf)" by (rule prod.exhaust)
  have main: "(c = ''approve'' \<longleftrightarrow> r < a \<and> b < a) \<and> (c = ''reject'' \<longleftrightarrow> a < r \<and> b < r)
      \<and> c \<in> {''approve'', ''reject'', ''abstain''} \<and> 0 \<le> conf \<and> conf \<le> 1"
  proof (cases "votes = [] \<or> total \<le> 0")
    case True
    then have "a = 0" "r = 0" "b = 0" using nil zero by blast+
    with True cc show ?thesis by (auto simp: t)
  next
    case False
    note ff = this
    show ?thesis
    proof (cases "r < a \<and> b < a")
      case True
      with ff cc clamp [of "fdiv a total"] show ?thesis by (auto simp: t)
    next
      case na: False
      show ?thesis
      proof (cases "a < r \<and> b < r")
        case True
        with ff na cc clamp [of "fdiv r total"] show ?thesis by (auto simp: t)
      next
        case False
        with ff na cc clamp [of "fdiv (max b (max a r)) total"] show ?thesis by (auto simp: t)
      qed
    qed
  qed
  show ?thesis
    unfolding cc Let_def prod.case a_def [symmetric] r_def [symmetric] b_def [symmetric]
    using main un [OF _ _ _ cc] by meson
qed

theorem tally_majority_witness:
  "let votes = [\<lparr>v_agent = ''a'', v_position = ''approve'', v_rationale = [], v_confidence = 1\<rparr>]
   in snd (tally votes) = 1"
proof -
  let ?votes = "[\<lparr>v_agent = ''a'', v_position = ''approve'', v_rationale = [], v_confidence = 1\<rparr>]"
  have w: "weight [''approve''] ?votes = 1" "weight [''reject''] ?votes = 0" "weight_other ?votes = 0"
    by (simp_all add: weight_def weight_other_def)
  have "list_all (\<lambda>v. 0 \<le> v_confidence v) ?votes" by simp
  from tally_majority [OF this] show ?thesis
    unfolding w by (auto simp: Let_def split: prod.splits)
qed

end
