(* ===== verification/Mining.thy ===== *)
theory Mining
  imports Json
begin

text \<open>
  Mining of adversarial tests from an edit ledger, \<open>crates/amore-core/src/mining.rs\<close>: JSONL
  parsing with malformed lines skipped, the filter on failed or corrected entries, and the
  extraction of the three texts from a payload.  \<open>parse\<close> is \<open>serde_json::from_str\<close> into an
  entry.
\<close>

record ledger_entry =
  le_ts :: int
  le_session :: string
  le_source :: string
  le_payload :: json
  le_failure :: bool
  le_corrected :: bool

record adversarial_test =
  at_context :: string
  at_forbidden :: string
  at_desired :: "string option"
  at_session :: string
  at_ts :: int
  at_kind :: string

definition parse_ledger :: "(string \<Rightarrow> ledger_entry option) \<Rightarrow> string \<Rightarrow> ledger_entry list" where
  "parse_ledger parse jsonl =
     List.map_filter parse (filter (\<lambda>l. trim l \<noteq> []) (lines jsonl))"

text \<open>The first of several fields that is a string.\<close>

fun first_str :: "string list \<Rightarrow> json \<Rightarrow> string option" where
  "first_str [] v = None"
| "first_str (k # ks) v = (case get_str k v of Some t \<Rightarrow> Some t | None \<Rightarrow> first_str ks v)"

definition derive_context :: "json \<Rightarrow> string option" where
  "derive_context = first_str [''context'', ''prompt'', ''action_summary'', ''trigger'']"

definition derive_forbidden :: "json \<Rightarrow> string option" where
  "derive_forbidden = first_str [''forbidden'', ''corrected_from'', ''error_text'', ''bad_output'']"

definition derive_desired :: "json \<Rightarrow> string option" where
  "derive_desired = first_str [''corrected_to'', ''desired'', ''good_output'']"

definition adversarial_from_entry :: "ledger_entry \<Rightarrow> adversarial_test option" where
  "adversarial_from_entry e =
     (case (if le_corrected e then Some ''corrected'' else if le_failure e then Some ''failure'' else None) of
        None \<Rightarrow> None
      | Some kind \<Rightarrow>
          (case derive_context (le_payload e) of
             None \<Rightarrow> None
           | Some ctx \<Rightarrow>
               (case derive_forbidden (le_payload e) of
                  None \<Rightarrow> None
                | Some forb \<Rightarrow> Some \<lparr>at_context = ctx, at_forbidden = forb,
                    at_desired = derive_desired (le_payload e), at_session = le_session e,
                    at_ts = le_ts e, at_kind = kind\<rparr>)))"

definition mine_adversarials :: "ledger_entry list \<Rightarrow> adversarial_test list" where
  "mine_adversarials es =
     List.map_filter adversarial_from_entry (filter (\<lambda>e. le_failure e \<or> le_corrected e) es)"

definition mine_from_jsonl :: "(string \<Rightarrow> ledger_entry option) \<Rightarrow> string \<Rightarrow> adversarial_test list" where
  "mine_from_jsonl parse jsonl = mine_adversarials (parse_ledger parse jsonl)"

section \<open>Lemmas\<close>

lemma split_on_single_Nil: "split_on p s = [[]] \<longleftrightarrow> s = []"
  by (cases s) (auto split: list.splits)

lemma lines_append:
  assumes "a = [] \<or> last (split_on (\<lambda>c. c = CHR 0x0A) a) \<noteq> [] \<and> last a \<noteq> CHR 0x0D"
  shows "lines (a @ CHR 0x0A # b) = (if a = [] then [[]] else lines a) @ lines b"
proof (cases "a = []")
  case True
  then show ?thesis by (simp add: lines_def Let_def strip_cr_def)
next
  case False
  let ?p = "\<lambda>c. c = CHR 0x0A"
  obtain ws w where w: "split_on ?p a = ws @ [w]"
    using split_on_nonempty [of ?p a] by (metis append_butlast_last_id)
  have "w \<noteq> []" using assms False w by simp
  have "last a = last w"
  proof -
    have "a \<noteq> [] \<Longrightarrow> last (split_on ?p a) \<noteq> [] \<Longrightarrow> last (last (split_on ?p a)) = last a" for a
      by (induction a) (auto split: list.splits if_splits simp: last_ConsR split_on_single_Nil)
    from this [OF False] w \<open>w \<noteq> []\<close> show ?thesis by simp
  qed
  then have "strip_cr w = w" using assms False by (simp add: strip_cr_def)
  with w \<open>w \<noteq> []\<close> False show ?thesis
    by (simp add: lines_def Let_def split_on_append butlast_append)
qed

text \<open>Mining is compositional: a ledger cut after a complete line is mined piece by piece.\<close>

lemma mine_append:
  assumes "last (split_on (\<lambda>c. c = CHR 0x0A) a) \<noteq> []" and "a \<noteq> []" and "last a \<noteq> CHR 0x0D"
  shows "mine_from_jsonl parse (a @ CHR 0x0A # b) = mine_from_jsonl parse a @ mine_from_jsonl parse b"
  using lines_append [of a b] assms
  by (simp add: mine_from_jsonl_def mine_adversarials_def parse_ledger_def List.map_filter_def)

text \<open>Every mined test comes from an entry that failed or was corrected; a correction wins.\<close>

lemma mined_origin:
  assumes "t \<in> set (mine_adversarials es)"
  shows "\<exists>e \<in> set es. (le_failure e \<or> le_corrected e) \<and> at_session t = le_session e \<and> at_ts t = le_ts e
    \<and> at_kind t = (if le_corrected e then ''corrected'' else ''failure'')
    \<and> derive_context (le_payload e) = Some (at_context t)
    \<and> derive_forbidden (le_payload e) = Some (at_forbidden t)"
  using assms
  by (fastforce simp: mine_adversarials_def List.map_filter_def adversarial_from_entry_def
      split: if_splits option.splits)

end
