(* ===== verification/IdeAdapter.thy ===== *)
theory IdeAdapter
  imports Json
begin

text \<open>
  Registration of the MCP server in the configuration files of coding agents:
  \<open>crates/amore-core/src/ide_adapter.rs\<close> (the trait, \<open>apply\<close> and the shared JSON merge) and the
  seven adapter crates \<open>crates/amore-adapter-*\<close>.  The JSON, TOML and YAML libraries are a codec:
  a parser and a pretty printer.  The file system maps paths to contents; \<open>apply\<close> is the list of
  its file operations, so that a run can be cut after any of them, in the middle of a write too.
\<close>

record 'v codec =
  parse :: "string \<Rightarrow> 'v option"
  pretty :: "'v \<Rightarrow> string option"

text \<open>TOML and YAML values; a YAML mapping keeps the order of insertion, and removing a key moves
  the last entry into the hole (\<open>Mapping::remove\<close> is \<open>swap_remove\<close>).\<close>

datatype toml =
    TStr string | TInt int | TFloat rat | TBool bool | TDatetime string
  | TArr "toml list" | TTable "(string \<times> toml) list"

datatype yaml =
    YNull | YBool bool | YNum rat | YStr string | YSeq "yaml list"
  | YMap "(yaml \<times> yaml) list" | YTagged string yaml

fun ymap_insert :: "yaml \<Rightarrow> yaml \<Rightarrow> (yaml \<times> yaml) list \<Rightarrow> (yaml \<times> yaml) list" where
  "ymap_insert k v [] = [(k, v)]"
| "ymap_insert k v ((k', v') # m) = (if k = k' then (k', v) # m else (k', v') # ymap_insert k v m)"

fun ymap_remove :: "yaml \<Rightarrow> (yaml \<times> yaml) list \<Rightarrow> (yaml \<times> yaml) list" where
  "ymap_remove k [] = []"
| "ymap_remove k ((k', v') # m) =
     (if k = k' then (if m = [] then [] else last m # butlast m) else (k', v') # ymap_remove k m)"

section \<open>The merges\<close>

definition nl :: string where "nl = [CHR 0x0A]"

text \<open>The root value of a configuration: an empty mapping for a blank text.\<close>

definition load_root :: "'v \<Rightarrow> 'v codec \<Rightarrow> string \<Rightarrow> 'v option" where
  "load_root blank c existing = (if trim existing = [] then Some blank else parse c existing)"

definition emit :: "string \<Rightarrow> 'v codec \<Rightarrow> 'v \<Rightarrow> string + string" where
  "emit ending c v = (case pretty c v of None \<Rightarrow> Inl ''serializing'' | Some t \<Rightarrow> Inr (t @ ending))"

definition drop_legacy :: "string \<Rightarrow> (string \<times> 'v) list \<Rightarrow> (string \<times> 'v) list" where
  "drop_legacy name servers = (if name = ''amore'' then obj_remove ''obelion'' servers else servers)"

text \<open>\<open>Inr None\<close>: the entry is there, the input is returned; \<open>Inr (Some v)\<close>: the new root.\<close>

definition merge_servers_root :: "json \<Rightarrow> string \<Rightarrow> json \<Rightarrow> string + json option" where
  "merge_servers_root cfg name entry =
     (case cfg of
        JObj obj \<Rightarrow>
          (let obj = obj_or_insert ''mcpServers'' (JObj []) obj in
           case map_of obj ''mcpServers'' of
             Some (JObj servers) \<Rightarrow>
               (let servers = drop_legacy name servers in
                if map_of servers name = Some entry then Inr None
                else Inr (Some (JObj (obj_insert ''mcpServers'' (JObj (obj_insert name entry servers)) obj))))
           | _ \<Rightarrow> Inl ''mcpServers is present but not a JSON object'')
      | _ \<Rightarrow> Inl ''config root is not a JSON object'')"

definition merge_mcp_servers :: "json codec \<Rightarrow> string \<Rightarrow> string \<Rightarrow> json \<Rightarrow> string + string" where
  "merge_mcp_servers c existing name entry =
     (case load_root (JObj []) c existing of
        None \<Rightarrow> Inl ''parsing existing config as JSON''
      | Some cfg \<Rightarrow>
          (case merge_servers_root cfg name entry of
             Inl e \<Rightarrow> Inl e
           | Inr None \<Rightarrow> Inr existing
           | Inr (Some v) \<Rightarrow> emit nl c v))"

definition mcp_entry :: "string \<Rightarrow> json" where
  "mcp_entry command = JObj [(''args'', JArr []), (''command'', JStr command)]"

definition opencode_entry :: "string \<Rightarrow> json" where
  "opencode_entry command = JObj [(''command'', JArr [JStr command]), (''type'', JStr ''local'')]"

definition merge_opencode_root :: "json \<Rightarrow> string \<Rightarrow> string \<Rightarrow> string + json option" where
  "merge_opencode_root cfg name command =
     (case cfg of
        JObj obj \<Rightarrow>
          (let obj = obj_or_insert ''mcp'' (JObj []) obj in
           case map_of obj ''mcp'' of
             Some (JObj servers) \<Rightarrow>
               (let servers = drop_legacy name servers; target = opencode_entry command in
                if map_of servers name = Some target then Inr None
                else Inr (Some (JObj (obj_insert ''mcp'' (JObj (obj_insert name target servers)) obj))))
           | _ \<Rightarrow> Inl ''opencode mcp field is present but not a JSON object'')
      | _ \<Rightarrow> Inl ''opencode config root is not a JSON object'')"

definition merge_opencode_mcp :: "json codec \<Rightarrow> string \<Rightarrow> string \<Rightarrow> string \<Rightarrow> string + string" where
  "merge_opencode_mcp c existing name command =
     (case load_root (JObj []) c existing of
        None \<Rightarrow> Inl ''parsing existing opencode.json''
      | Some cfg \<Rightarrow>
          (case merge_opencode_root cfg name command of
             Inl e \<Rightarrow> Inl e
           | Inr None \<Rightarrow> Inr existing
           | Inr (Some v) \<Rightarrow> emit nl c v))"

definition codex_entry :: "string \<Rightarrow> toml" where
  "codex_entry command = TTable [(''args'', TArr []), (''command'', TStr command)]"

definition merge_codex_root :: "toml \<Rightarrow> string \<Rightarrow> string \<Rightarrow> string + toml option" where
  "merge_codex_root cfg name command =
     (case cfg of
        TTable tbl \<Rightarrow>
          (let tbl = obj_or_insert ''mcp_servers'' (TTable []) tbl in
           case map_of tbl ''mcp_servers'' of
             Some (TTable servers) \<Rightarrow>
               (let servers = drop_legacy name servers; target = codex_entry command in
                if map_of servers name = Some target then Inr None
                else Inr (Some (TTable (obj_insert ''mcp_servers'' (TTable (obj_insert name target servers)) tbl))))
           | _ \<Rightarrow> Inl ''mcp_servers is not a TOML table'')
      | _ \<Rightarrow> Inl ''config root is not a TOML table'')"

definition merge_codex_toml :: "toml codec \<Rightarrow> string \<Rightarrow> string \<Rightarrow> string \<Rightarrow> string + string" where
  "merge_codex_toml c existing name command =
     (case load_root (TTable []) c existing of
        None \<Rightarrow> Inl ''parsing existing config.toml''
      | Some cfg \<Rightarrow>
          (case merge_codex_root cfg name command of
             Inl e \<Rightarrow> Inl e
           | Inr None \<Rightarrow> Inr existing
           | Inr (Some v) \<Rightarrow> emit [] c v))"

definition hermes_entry :: "string \<Rightarrow> yaml" where
  "hermes_entry command = YMap [(YStr ''command'', YStr command), (YStr ''args'', YSeq [])]"

text \<open>\<open>as_mapping_mut\<close> looks through tags; the mapping is changed in place.\<close>

fun as_mapping :: "yaml \<Rightarrow> (yaml \<times> yaml) list option" where
  "as_mapping (YMap m) = Some m"
| "as_mapping (YTagged t v) = as_mapping v"
| "as_mapping _ = None"

fun put_mapping :: "(yaml \<times> yaml) list \<Rightarrow> yaml \<Rightarrow> yaml" where
  "put_mapping m (YTagged t v) = YTagged t (put_mapping m v)"
| "put_mapping m _ = YMap m"

definition merge_hermes_root :: "yaml \<Rightarrow> string \<Rightarrow> string \<Rightarrow> string + yaml option" where
  "merge_hermes_root cfg name command =
     (case as_mapping cfg of
        None \<Rightarrow> Inl ''config root is not a YAML mapping''
      | Some m \<Rightarrow>
          (let key = YStr ''mcp_servers'';
               m = (if map_of m key = None then ymap_insert key (YMap []) m else m);
               field = the (map_of m key) in
           case as_mapping field of
             None \<Rightarrow> Inl ''mcp_servers is not a YAML mapping''
           | Some servers \<Rightarrow>
               (let servers = (if name = ''amore'' then ymap_remove (YStr ''obelion'') servers else servers);
                    target = hermes_entry command in
                if map_of servers (YStr name) = Some target then Inr None
                else Inr (Some (put_mapping (ymap_insert key
                  (put_mapping (ymap_insert (YStr name) target servers) field) m) cfg)))))"

definition merge_hermes_yaml :: "yaml codec \<Rightarrow> string \<Rightarrow> string \<Rightarrow> string \<Rightarrow> string + string" where
  "merge_hermes_yaml c existing name command =
     (case load_root (YMap []) c existing of
        None \<Rightarrow> Inl ''parsing existing config.yaml''
      | Some cfg \<Rightarrow>
          (case merge_hermes_root cfg name command of
             Inl e \<Rightarrow> Inl e
           | Inr None \<Rightarrow> Inr existing
           | Inr (Some v) \<Rightarrow> emit [] c v))"

section \<open>The adapters\<close>

record ide_adapter =
  adapter_name :: string
  config_path :: "string + string"
  merge_into :: "string \<Rightarrow> string + string"

definition path_join :: "string \<Rightarrow> string list \<Rightarrow> string" where
  "path_join base ps = foldl (\<lambda>p c. p @ ''/'' @ c) base ps"

text \<open>An override wins; otherwise the directory must be known.\<close>

definition resolve_path :: "string option \<Rightarrow> string \<Rightarrow> string option \<Rightarrow> string list \<Rightarrow> string + string" where
  "resolve_path override err dir ps =
     (case override of
        Some p \<Rightarrow> Inr p
      | None \<Rightarrow> (case dir of None \<Rightarrow> Inl err | Some d \<Rightarrow> Inr (path_join d ps)))"

definition no_home :: string where "no_home = ''could not resolve user home directory''"
definition no_config_dir :: string where "no_config_dir = ''could not resolve config dir''"

definition claude_adapter :: "json codec \<Rightarrow> string option \<Rightarrow> string option \<Rightarrow> string \<Rightarrow> ide_adapter" where
  "claude_adapter c override home command =
     \<lparr>adapter_name = ''claude'',
      config_path = resolve_path override no_home home [''.claude.json''],
      merge_into = (\<lambda>e. merge_mcp_servers c e ''amore'' (mcp_entry command))\<rparr>"

definition cursor_adapter :: "json codec \<Rightarrow> string option \<Rightarrow> string option \<Rightarrow> string \<Rightarrow> ide_adapter" where
  "cursor_adapter c override home command =
     \<lparr>adapter_name = ''cursor'',
      config_path = resolve_path override no_home home [''.cursor'', ''mcp.json''],
      merge_into = (\<lambda>e. merge_mcp_servers c e ''amore'' (mcp_entry command))\<rparr>"

definition windsurf_adapter :: "json codec \<Rightarrow> string option \<Rightarrow> string option \<Rightarrow> string \<Rightarrow> ide_adapter" where
  "windsurf_adapter c override home command =
     \<lparr>adapter_name = ''windsurf'',
      config_path = resolve_path override no_home home [''.codeium'', ''windsurf'', ''mcp_config.json''],
      merge_into = (\<lambda>e. merge_mcp_servers c e ''amore'' (mcp_entry command))\<rparr>"

definition cline_adapter :: "json codec \<Rightarrow> string option \<Rightarrow> string option \<Rightarrow> string \<Rightarrow> ide_adapter" where
  "cline_adapter c override config_dir command =
     \<lparr>adapter_name = ''cline'',
      config_path = resolve_path override no_config_dir config_dir
        [''Code'', ''User'', ''globalStorage'', ''saoudrizwan.claude-dev'', ''settings'', ''cline_mcp_settings.json''],
      merge_into = (\<lambda>e. merge_mcp_servers c e ''amore'' (mcp_entry command))\<rparr>"

definition opencode_adapter :: "json codec \<Rightarrow> string option \<Rightarrow> string option \<Rightarrow> string \<Rightarrow> ide_adapter" where
  "opencode_adapter c override config_dir command =
     \<lparr>adapter_name = ''opencode'',
      config_path = resolve_path override no_config_dir config_dir [''opencode'', ''opencode.json''],
      merge_into = (\<lambda>e. merge_opencode_mcp c e ''amore'' command)\<rparr>"

text \<open>\<open>CODEX_HOME\<close> stands in for the directory \<open>.codex\<close> of the home directory.\<close>

definition codex_adapter ::
  "toml codec \<Rightarrow> string option \<Rightarrow> string option \<Rightarrow> string option \<Rightarrow> string \<Rightarrow> ide_adapter" where
  "codex_adapter c override codex_home home command =
     \<lparr>adapter_name = ''codex'',
      config_path = (case (override, codex_home) of
         (None, Some d) \<Rightarrow> Inr (path_join d [''config.toml''])
       | _ \<Rightarrow> resolve_path override no_home home [''.codex'', ''config.toml'']),
      merge_into = (\<lambda>e. merge_codex_toml c e ''amore'' command)\<rparr>"

definition hermes_adapter :: "yaml codec \<Rightarrow> string option \<Rightarrow> string option \<Rightarrow> string \<Rightarrow> ide_adapter" where
  "hermes_adapter c override home command =
     \<lparr>adapter_name = ''hermes'',
      config_path = resolve_path override no_home home [''.hermes'', ''config.yaml''],
      merge_into = (\<lambda>e. merge_hermes_yaml c e ''amore'' command)\<rparr>"

section \<open>Applying an adapter\<close>

text \<open>A file is a text, or bytes that are not UTF-8 or cannot be read (\<^const>\<open>None\<close>).\<close>

type_synonym file_system = "string \<rightharpoonup> string option"

datatype file_op =
    WriteFile string string
  | RemoveFile string
  | RenameFile string string
  | CopyFile string string

fun file_op_run :: "file_op \<Rightarrow> file_system \<Rightarrow> file_system" where
  "file_op_run (WriteFile p t) fs = fs(p \<mapsto> Some t)"
| "file_op_run (RemoveFile p) fs = fs(p := None)"
| "file_op_run (RenameFile p q) fs = (case fs p of None \<Rightarrow> fs | Some t \<Rightarrow> (fs(p := None))(q \<mapsto> t))"
| "file_op_run (CopyFile p q) fs = (case fs p of None \<Rightarrow> fs | Some t \<Rightarrow> fs(q \<mapsto> t))"

definition run_file_ops :: "file_op list \<Rightarrow> file_system \<Rightarrow> file_system" where
  "run_file_ops ops fs = fold file_op_run ops fs"

text \<open>The state when the process dies or an operation fails: \<open>k\<close> operations done, and of a write
  or a copy that was next, the first \<open>j\<close> bytes.\<close>

definition cut_file_ops :: "nat \<Rightarrow> nat \<Rightarrow> file_op list \<Rightarrow> file_system \<Rightarrow> file_system" where
  "cut_file_ops k j ops fs =
     (let fs' = run_file_ops (take k ops) fs in
      if k < length ops then
        (case ops ! k of
           WriteFile p t \<Rightarrow> fs'(p \<mapsto> Some (take j t))
         | CopyFile p q \<Rightarrow> (case fs' p of Some (Some t) \<Rightarrow> fs'(q \<mapsto> Some (take j t)) | _ \<Rightarrow> fs')
         | _ \<Rightarrow> fs')
      else fs')"

definition with_extension :: "string \<Rightarrow> string \<Rightarrow> string" where
  "with_extension p ext = p @ ''.'' @ ext"

definition read_or_empty :: "file_system \<Rightarrow> string \<Rightarrow> string + string" where
  "read_or_empty fs p =
     (case fs p of None \<Rightarrow> Inr [] | Some None \<Rightarrow> Inl ''reading'' | Some (Some t) \<Rightarrow> Inr t)"

definition dry_run :: "ide_adapter \<Rightarrow> file_system \<Rightarrow> string + string" where
  "dry_run a fs =
     (case config_path a of
        Inl e \<Rightarrow> Inl e
      | Inr path \<Rightarrow> (case read_or_empty fs path of Inl e \<Rightarrow> Inl e | Inr existing \<Rightarrow> merge_into a existing))"

datatype apply_outcome = NoChange | Created string | Updated string string

definition apply_ops :: "file_system \<Rightarrow> string \<Rightarrow> string \<Rightarrow> file_op list" where
  "apply_ops fs path merged =
     (let tmp = with_extension path ''tmp''; bak = with_extension path ''bak'' in
      if fs path \<noteq> None
      then [WriteFile tmp merged, RemoveFile bak, RenameFile path bak, RenameFile tmp path]
      else [WriteFile tmp merged, RenameFile tmp path])"

definition apply_adapter :: "ide_adapter \<Rightarrow> file_system \<Rightarrow> string + apply_outcome \<times> file_system" where
  "apply_adapter a fs =
     (case config_path a of
        Inl e \<Rightarrow> Inl e
      | Inr path \<Rightarrow> (case read_or_empty fs path of
          Inl e \<Rightarrow> Inl e
        | Inr existing \<Rightarrow> (case merge_into a existing of
            Inl e \<Rightarrow> Inl e
          | Inr merged \<Rightarrow>
              (if existing = merged then Inr (NoChange, fs)
               else Inr (if fs path \<noteq> None then Updated path (with_extension path ''bak'') else Created path,
                         run_file_ops (apply_ops fs path merged) fs)))))"

text \<open>Every adapter, as the CLI dispatches on its name.\<close>

definition all_adapters ::
  "json codec \<Rightarrow> toml codec \<Rightarrow> yaml codec \<Rightarrow> string option \<Rightarrow> string option \<Rightarrow> string option
    \<Rightarrow> string option \<Rightarrow> string \<Rightarrow> ide_adapter list" where
  "all_adapters jc tc yc override codex_home home config_dir command =
     [claude_adapter jc override home command, cursor_adapter jc override home command,
      codex_adapter tc override codex_home home command, cline_adapter jc override config_dir command,
      windsurf_adapter jc override home command, opencode_adapter jc override config_dir command,
      hermes_adapter yc override home command]"

section \<open>Lemmas\<close>

lemma obj_insert_lookup: "map_of (obj_insert k v m) = (map_of m)(k \<mapsto> v)"
  by (induction k v m rule: obj_insert.induct) (auto simp: fun_eq_iff)

lemma obj_or_insert_lookup:
  "map_of (obj_or_insert k v m) = (if map_of m k = None then (map_of m)(k \<mapsto> v) else map_of m)"
  by (simp add: obj_or_insert_def obj_insert_lookup)

lemma obj_or_insert_present: "map_of m k = Some w \<Longrightarrow> obj_or_insert k v m = m"
  by (simp add: obj_or_insert_def)

lemma drop_legacy_lookup:
  "map_of (drop_legacy name m) = (if name = ''amore'' then (map_of m)(''obelion'' := None) else map_of m)"
  by (simp add: drop_legacy_def obj_remove_map_of)

lemma ymap_insert_lookup: "map_of (ymap_insert k v m) = (map_of m)(k \<mapsto> v)"
  by (induction k v m rule: ymap_insert.induct) (auto simp: fun_eq_iff)

lemma ymap_insert_keys: "distinct (map fst m) \<Longrightarrow> distinct (map fst (ymap_insert k v m))
    \<and> set (map fst (ymap_insert k v m)) = insert k (set (map fst m))"
  by (induction k v m rule: ymap_insert.induct) auto

lemma map_of_rotate:
  assumes "distinct (map fst m)" and "m \<noteq> []"
  shows "map_of (last m # butlast m) = map_of m"
proof -
  obtain m' x where m: "m = m' @ [x]" using assms(2) by (metis append_butlast_last_id)
  then show ?thesis using assms(1) by (subst map_of_inject_set) auto
qed

lemma ymap_remove_other: "k \<noteq> k' \<Longrightarrow> distinct (map fst m) \<Longrightarrow> map_of (ymap_remove k m) k' = map_of m k'"
  by (induction k m rule: ymap_remove.induct) (simp_all only: ymap_remove.simps if_split, auto simp: map_of_rotate simp del: map_of.simps, auto)

lemma as_put_mapping [simp]: "as_mapping v = Some m0 \<Longrightarrow> as_mapping (put_mapping m v) = Some m"
  by (induction v rule: as_mapping.induct) auto

lemma tmp_neq_path [simp]: "with_extension p e \<noteq> p" "p \<noteq> with_extension p e"
  by (simp_all add: with_extension_def)

lemma with_extension_inject [simp]: "with_extension p e = with_extension p f \<longleftrightarrow> e = f"
  by (simp add: with_extension_def)

lemma run_apply_ops:
  "run_file_ops (apply_ops fs path merged) fs path = Some (Some merged)"
  by (auto simp: apply_ops_def run_file_ops_def Let_def split: option.splits)

section \<open>The contract of an adapter\<close>

text \<open>The law of a codec: it reads back, with the ending that the merge appends, what it printed.\<close>

definition config_codec_ok :: "'v \<Rightarrow> string \<Rightarrow> 'v codec \<Rightarrow> bool" where
  "config_codec_ok blank ending c \<longleftrightarrow> (\<forall>v t. pretty c v = Some t \<longrightarrow> load_root blank c (t @ ending) = Some v)"

locale ide_contract =
  fixes lawful :: "'c \<Rightarrow> bool"
    and adapter :: "'c \<Rightarrow> string option \<Rightarrow> string option \<Rightarrow> string \<Rightarrow> ide_adapter"
  assumes idempotent: "lawful c \<Longrightarrow> merge_into (adapter c ov dir cmd) s = Inr t
    \<Longrightarrow> merge_into (adapter c ov dir cmd) t = Inr t"
begin

lemma second_apply:
  assumes "lawful c" and "apply_adapter (adapter c ov dir cmd) fs = Inr (out, fs')"
  shows "apply_adapter (adapter c ov dir cmd) fs' = Inr (NoChange, fs')"
proof -
  let ?a = "adapter c ov dir cmd"
  from assms(2) obtain path existing merged where a: "config_path ?a = Inr path"
      "read_or_empty fs path = Inr existing" "merge_into ?a existing = Inr merged"
    and o: "(if existing = merged then (NoChange, fs)
       else (if fs path \<noteq> None then Updated path (with_extension path ''bak'') else Created path,
             run_file_ops (apply_ops fs path merged) fs)) = (out, fs')"
    by (auto simp: apply_adapter_def split: sum.splits if_splits)
  show ?thesis
  proof (cases "existing = merged")
    case True
    with o assms(2) show ?thesis by auto
  next
    case False
    then have "fs' = run_file_ops (apply_ops fs path merged) fs" using o by auto
    then have "fs' path = Some (Some merged)" by (simp add: run_apply_ops)
    then have "read_or_empty fs' path = Inr merged" by (simp add: read_or_empty_def)
    with a idempotent [OF assms(1) a(3)] show ?thesis by (simp add: apply_adapter_def)
  qed
qed

lemma dry_run_predicts:
  assumes "lawful c" and "dry_run (adapter c ov dir cmd) fs = Inr merged"
    and "apply_adapter (adapter c ov dir cmd) fs = Inr (out, fs')"
  shows "dry_run (adapter c ov dir cmd) fs' = Inr merged"
proof -
  from assms(2) obtain path existing where a: "config_path (adapter c ov dir cmd) = Inr path"
      "read_or_empty fs path = Inr existing" "merge_into (adapter c ov dir cmd) existing = Inr merged"
    by (auto simp: dry_run_def split: sum.splits)
  have "read_or_empty fs' path = Inr merged"
  proof (cases "existing = merged")
    case True
    with a assms(3) show ?thesis by (simp add: apply_adapter_def)
  next
    case False
    with a assms(3) have "fs' = run_file_ops (apply_ops fs path merged) fs"
      by (simp add: apply_adapter_def)
    then show ?thesis by (simp add: run_apply_ops read_or_empty_def)
  qed
  with a idempotent [OF assms(1) a(3)] show ?thesis by (simp add: dry_run_def)
qed

end

section \<open>The adapters keep the contract\<close>

lemma drop_legacy_keeps_amore: "map_of m ''amore'' = Some e \<Longrightarrow> map_of (drop_legacy ''amore'' m) ''amore'' = Some e"
  by (simp add: drop_legacy_lookup)

lemma merge_servers_root_stable:
  "merge_servers_root r ''amore'' e = Inr (Some v) \<Longrightarrow> merge_servers_root v ''amore'' e = Inr None"
  by (auto simp: merge_servers_root_def Let_def obj_or_insert_present obj_insert_lookup drop_legacy_lookup
      split: json.splits option.splits if_splits)

lemma merge_opencode_root_stable:
  "merge_opencode_root r ''amore'' cmd = Inr (Some v) \<Longrightarrow> merge_opencode_root v ''amore'' cmd = Inr None"
  by (auto simp: merge_opencode_root_def Let_def obj_or_insert_present obj_insert_lookup drop_legacy_lookup
      split: json.splits option.splits if_splits)

lemma merge_codex_root_stable:
  "merge_codex_root r ''amore'' cmd = Inr (Some v) \<Longrightarrow> merge_codex_root v ''amore'' cmd = Inr None"
  by (auto simp: merge_codex_root_def Let_def obj_or_insert_present obj_insert_lookup drop_legacy_lookup
      split: toml.splits option.splits if_splits)

text \<open>The keys of a parsed mapping are distinct; the codec yields such mappings only.\<close>

fun yaml_ok :: "yaml \<Rightarrow> bool" where
  "yaml_ok (YMap m) = (distinct (map fst m) \<and> list_all (\<lambda>p. yaml_ok (snd p)) m)"
| "yaml_ok (YSeq xs) = list_all yaml_ok xs"
| "yaml_ok (YTagged t v) = yaml_ok v"
| "yaml_ok _ = True"

lemma yaml_ok_mapping: "yaml_ok v \<Longrightarrow> as_mapping v = Some m \<Longrightarrow> distinct (map fst m)"
  by (induction v rule: as_mapping.induct) auto

lemma yaml_ok_entry: "yaml_ok v \<Longrightarrow> as_mapping v = Some m \<Longrightarrow> map_of m k = Some f \<Longrightarrow> yaml_ok f"
  by (induction v rule: as_mapping.induct) (auto simp: list_all_iff dest: map_of_SomeD)

lemma ymap_insert_remove_lookup:
  assumes "k' \<noteq> k" and "distinct (map fst m)"
  shows "map_of (ymap_remove k' (ymap_insert k v m)) k = Some v"
  using assms ymap_insert_keys [of m k v] by (simp add: ymap_remove_other ymap_insert_lookup)

lemma ymap_remove_distinct: "distinct (map fst m) \<Longrightarrow> distinct (map fst (ymap_remove k m))
    \<and> fst ` set (ymap_remove k m) \<subseteq> fst ` set m"
proof (induction k m rule: ymap_remove.induct)
  case (2 k a v m)
  show ?case
  proof (cases "k = a \<and> m \<noteq> []")
    case True
    then obtain m' x where m: "m = m' @ [x]" by (metis append_butlast_last_id)
    with 2 True show ?thesis by auto
  qed (use 2 in auto)
qed simp

definition yaml_codec_ok :: "yaml codec \<Rightarrow> bool" where
  "yaml_codec_ok c \<longleftrightarrow> config_codec_ok (YMap []) [] c \<and> (\<forall>s v. parse c s = Some v \<longrightarrow> yaml_ok v)"

lemma merge_hermes_root_stable:
  assumes "yaml_ok r" and "merge_hermes_root r ''amore'' cmd = Inr (Some v)"
  shows "merge_hermes_root v ''amore'' cmd = Inr None"
proof -
  let ?key = "YStr ''mcp_servers''"
  from assms(2) obtain m0 where m0: "as_mapping r = Some m0"
    by (auto simp: merge_hermes_root_def split: option.splits)
  define m where "m = (if map_of m0 ?key = None then ymap_insert ?key (YMap []) m0 else m0)"
  from assms(2) m0 obtain servers where sv: "as_mapping (the (map_of m ?key)) = Some servers"
    by (auto simp: merge_hermes_root_def m_def [symmetric] Let_def split: option.splits)
  let ?s = "ymap_remove (YStr ''obelion'') servers"
  have v: "v = put_mapping (ymap_insert ?key
      (put_mapping (ymap_insert (YStr ''amore'') (hermes_entry cmd) ?s) (the (map_of m ?key))) m) r"
    using assms(2) m0 sv by (auto simp: merge_hermes_root_def m_def [symmetric] Let_def split: if_splits)
  have "yaml_ok (the (map_of m ?key))"
  proof (cases "map_of m0 ?key")
    case None
    then show ?thesis by (simp add: m_def ymap_insert_lookup)
  next
    case (Some f)
    with m0 assms(1) have "yaml_ok f" by (blast dest: yaml_ok_entry)
    with Some show ?thesis by (simp add: m_def)
  qed
  with sv have d: "distinct (map fst ?s)"
    using yaml_ok_mapping ymap_remove_distinct by blast
  show ?thesis
    using m0 sv d
    by (simp add: merge_hermes_root_def v ymap_insert_lookup Let_def ymap_insert_remove_lookup)
qed

lemma merge_mcp_servers_idem:
  assumes "config_codec_ok (JObj []) nl c" and "merge_mcp_servers c s ''amore'' e = Inr t"
  shows "merge_mcp_servers c t ''amore'' e = Inr t"
  using assms merge_servers_root_stable
  by (fastforce simp: merge_mcp_servers_def config_codec_ok_def emit_def split: option.splits sum.splits)

lemma merge_opencode_mcp_idem:
  assumes "config_codec_ok (JObj []) nl c" and "merge_opencode_mcp c s ''amore'' cmd = Inr t"
  shows "merge_opencode_mcp c t ''amore'' cmd = Inr t"
  using assms merge_opencode_root_stable
  by (fastforce simp: merge_opencode_mcp_def config_codec_ok_def emit_def split: option.splits sum.splits)

lemma merge_codex_toml_idem:
  assumes "config_codec_ok (TTable []) [] c" and "merge_codex_toml c s ''amore'' cmd = Inr t"
  shows "merge_codex_toml c t ''amore'' cmd = Inr t"
  using assms merge_codex_root_stable
  by (fastforce simp: merge_codex_toml_def config_codec_ok_def emit_def split: option.splits sum.splits)

lemma load_root_yaml_ok: "yaml_codec_ok c \<Longrightarrow> load_root (YMap []) c s = Some v \<Longrightarrow> yaml_ok v"
  by (auto simp: yaml_codec_ok_def load_root_def split: if_splits)

lemma merge_hermes_yaml_idem:
  assumes "yaml_codec_ok c" and "merge_hermes_yaml c s ''amore'' cmd = Inr t"
  shows "merge_hermes_yaml c t ''amore'' cmd = Inr t"
proof -
  from assms(2) obtain v where v: "load_root (YMap []) c s = Some v"
    by (auto simp: merge_hermes_yaml_def split: option.splits)
  with assms merge_hermes_root_stable [OF load_root_yaml_ok [OF assms(1) v]] show ?thesis
    by (fastforce simp: merge_hermes_yaml_def yaml_codec_ok_def config_codec_ok_def emit_def
        split: option.splits sum.splits)
qed

interpretation claude: ide_contract "config_codec_ok (JObj []) nl" claude_adapter
  by unfold_locales (simp add: claude_adapter_def merge_mcp_servers_idem)

interpretation cursor: ide_contract "config_codec_ok (JObj []) nl" cursor_adapter
  by unfold_locales (simp add: cursor_adapter_def merge_mcp_servers_idem)

interpretation windsurf: ide_contract "config_codec_ok (JObj []) nl" windsurf_adapter
  by unfold_locales (simp add: windsurf_adapter_def merge_mcp_servers_idem)

interpretation cline: ide_contract "config_codec_ok (JObj []) nl" cline_adapter
  by unfold_locales (simp add: cline_adapter_def merge_mcp_servers_idem)

interpretation opencode: ide_contract "config_codec_ok (JObj []) nl" opencode_adapter
  by unfold_locales (simp add: opencode_adapter_def merge_opencode_mcp_idem)

interpretation codex: ide_contract "\<lambda>(c, home). config_codec_ok (TTable []) [] c"
    "\<lambda>(c, codex_home) override. codex_adapter c override codex_home"
  by unfold_locales (auto simp: codex_adapter_def merge_codex_toml_idem)

interpretation hermes: ide_contract yaml_codec_ok hermes_adapter
  by unfold_locales (simp add: hermes_adapter_def merge_hermes_yaml_idem)

section \<open>Properties\<close>

lemma second_apply_of_all:
  assumes "config_codec_ok (JObj []) nl jc" and "config_codec_ok (TTable []) [] tc" and "yaml_codec_ok yc"
    and "a \<in> set (all_adapters jc tc yc ov codex_home home cfg cmd)"
    and "apply_adapter a fs = Inr (out, fs')"
  shows "apply_adapter a fs' = Inr (NoChange, fs')"
  using assms(4,5) unfolding all_adapters_def
  using claude.second_apply [OF assms(1)] cursor.second_apply [OF assms(1)]
    windsurf.second_apply [OF assms(1)] cline.second_apply [OF assms(1)]
    opencode.second_apply [OF assms(1)] hermes.second_apply [OF assms(3)]
    codex.second_apply [of "(tc, codex_home)"] assms(2)
  by auto

text \<open>C6: applying an adapter of any of the seven agents twice changes nothing the second time:
  the outcome is \<open>NoChange\<close> and the file system is the one the first run left, provided the
  configuration library reads back what it printed.\<close>

theorem ide_second_apply_no_change:
  assumes "config_codec_ok (JObj []) nl jc" and "config_codec_ok (TTable []) [] tc" and "yaml_codec_ok yc"
    and "a \<in> set (all_adapters jc tc yc ov codex_home home cfg cmd)"
    and "apply_adapter a fs = Inr (out, fs')"
  shows "apply_adapter a fs' = Inr (NoChange, fs')"
  using assms by (rule second_apply_of_all)

text \<open>A codec that prints one document, for the witness.\<close>

definition one_doc_codec :: "'v \<Rightarrow> 'v codec" where
  "one_doc_codec v = \<lparr>parse = (\<lambda>s. if s = ''doc'' @ nl \<or> s = ''doc'' then Some v else None),
     pretty = (\<lambda>w. None)\<rparr>"

definition printing_codec :: "json codec" where
  "printing_codec =
     (let v = JObj [(''mcpServers'', JObj [(''amore'', mcp_entry ''amore-mcp'')])] in
      \<lparr>parse = (\<lambda>s. if s = ''doc'' @ nl then Some v else None),
       pretty = (\<lambda>w. if w = v then Some ''doc'' else None)\<rparr>)"

lemma printing_config_codec_ok: "config_codec_ok (JObj []) nl printing_codec"
  by (auto simp: config_codec_ok_def printing_codec_def Let_def load_root_def trim_def trim_start_def trim_end_def
      is_ws_def nl_def)

theorem ide_second_apply_no_change_witness:
  "apply_adapter (claude_adapter printing_codec None (Some ''/home/u'') ''amore-mcp'')
     [''/home/u/.claude.json'' \<mapsto> Some (''doc'' @ nl)]
   = Inr (NoChange, [''/home/u/.claude.json'' \<mapsto> Some (''doc'' @ nl)])"
proof -
  let ?a = "claude_adapter printing_codec None (Some ''/home/u'') ''amore-mcp''"
  have "merge_into ?a [] = Inr (''doc'' @ nl)"
    by (simp add: claude_adapter_def merge_mcp_servers_def load_root_def trim_def trim_start_def trim_end_def
        merge_servers_root_def obj_or_insert_def drop_legacy_def obj_remove_def printing_codec_def emit_def Let_def)
  moreover have "config_path ?a = Inr ''/home/u/.claude.json''"
    by (simp add: claude_adapter_def resolve_path_def path_join_def)
  ultimately have "apply_adapter ?a Map.empty
      = Inr (Created ''/home/u/.claude.json'', [''/home/u/.claude.json'' \<mapsto> Some (''doc'' @ nl)])"
    by (simp add: apply_adapter_def read_or_empty_def run_file_ops_def apply_ops_def with_extension_def
        nl_def fun_eq_iff Let_def)
  moreover have "config_codec_ok (TTable []) [] (one_doc_codec (TTable []))"
    by (simp add: config_codec_ok_def one_doc_codec_def)
  moreover have "yaml_codec_ok (one_doc_codec (YMap []))"
    by (simp add: yaml_codec_ok_def config_codec_ok_def one_doc_codec_def)
  ultimately show ?thesis
    using ide_second_apply_no_change [OF printing_config_codec_ok, where a = ?a and ov = None and
        codex_home = None and cfg = None and home = "Some ''/home/u''" and cmd = "''amore-mcp''"]
    by (simp add: all_adapters_def)
qed

text \<open>C29: the merge into a JSON configuration registers the server and changes nothing else: the
  entry is the wanted one, the legacy entry \<open>obelion\<close> is gone, every other server and every other
  key of the document keeps its value.  Where the wanted entry is already there, the input is
  returned as it is, a legacy entry beside it included.\<close>

theorem ide_merge_effect:
  assumes "config_codec_ok (JObj []) nl c" and "load_root (JObj []) c s = Some v"
    and "merge_mcp_servers c s ''amore'' e = Inr t"
  shows "if Option.bind (jget ''mcpServers'' v) (jget ''amore'') = Some e then t = s
    else \<exists>w. load_root (JObj []) c t = Some w
      \<and> Option.bind (jget ''mcpServers'' w) (jget ''amore'') = Some e
      \<and> Option.bind (jget ''mcpServers'' w) (jget ''obelion'') = None
      \<and> list_all (\<lambda>n. n \<in> {''amore'', ''obelion''}
           \<or> Option.bind (jget ''mcpServers'' w) (jget n) = Option.bind (jget ''mcpServers'' v) (jget n)) names
      \<and> list_all (\<lambda>k. k = ''mcpServers'' \<or> jget k w = jget k v) keys"
proof -
  from assms obtain r where r: "merge_servers_root v ''amore'' e = Inr r"
    by (auto simp: merge_mcp_servers_def split: sum.splits)
  show ?thesis
  proof (cases r)
    case None
    with r have "Option.bind (jget ''mcpServers'' v) (jget ''amore'') = Some e"
      by (auto simp: merge_servers_root_def Let_def obj_or_insert_lookup drop_legacy_lookup
          split: json.splits option.splits if_splits)
    with None r assms show ?thesis by (simp add: merge_mcp_servers_def)
  next
    case (Some w)
    with r have no: "Option.bind (jget ''mcpServers'' v) (jget ''amore'') \<noteq> Some e"
      by (auto simp: merge_servers_root_def Let_def obj_or_insert_lookup drop_legacy_lookup
          split: json.splits option.splits if_splits)
    from Some r assms have "load_root (JObj []) c t = Some w"
      by (auto simp: merge_mcp_servers_def emit_def config_codec_ok_def split: option.splits)
    moreover have "Option.bind (jget ''mcpServers'' w) (jget ''amore'') = Some e
        \<and> Option.bind (jget ''mcpServers'' w) (jget ''obelion'') = None"
      using Some r by (auto simp: merge_servers_root_def Let_def obj_insert_lookup drop_legacy_lookup
          split: json.splits option.splits if_splits)
    moreover have "Option.bind (jget ''mcpServers'' w) (jget n) = Option.bind (jget ''mcpServers'' v) (jget n)"
      if "n \<notin> {''amore'', ''obelion''}" for n
      using that Some r by (auto simp: merge_servers_root_def Let_def obj_insert_lookup obj_or_insert_lookup
          drop_legacy_lookup split: json.splits option.splits if_splits)
    moreover have "jget k w = jget k v" if "k \<noteq> ''mcpServers''" for k
      using that Some r by (auto simp: merge_servers_root_def Let_def obj_insert_lookup obj_or_insert_lookup
          split: json.splits option.splits if_splits)
    ultimately show ?thesis using no by (auto simp: list_all_iff)
  qed
qed

theorem ide_merge_effect_witness:
  "Option.bind (jget ''mcpServers'' (JObj [(''mcpServers'', JObj [(''amore'', mcp_entry ''amore-mcp'')])]))
     (jget ''amore'') = Some (mcp_entry ''amore-mcp'')"
proof -
  have m: "merge_mcp_servers printing_codec [] ''amore'' (mcp_entry ''amore-mcp'') = Inr (''doc'' @ nl)"
    by (simp add: merge_mcp_servers_def load_root_def trim_def trim_start_def trim_end_def
        merge_servers_root_def obj_or_insert_def drop_legacy_def obj_remove_def printing_codec_def emit_def Let_def)
  have l: "load_root (JObj []) printing_codec [] = Some (JObj [])"
    by (simp add: load_root_def trim_def trim_start_def trim_end_def)
  from ide_merge_effect [OF printing_config_codec_ok l m, of "[]" "[]"]
  show ?thesis
    by (simp add: load_root_def printing_codec_def Let_def split: if_splits)
qed

text \<open>C12: a run of \<open>apply\<close> cut anywhere, in the middle of a write too, touches no file but the
  configuration, its \<open>.tmp\<close> and its \<open>.bak\<close>; the configuration is the old one, the complete new
  one, or, between the two renames, missing while the old content is whole in \<open>.bak\<close>; and a
  complete run leaves the new content with the previous one in \<open>.bak\<close>.\<close>

theorem ide_apply_crash_safe:
  assumes "fs path = Some (Some old)"
  shows "(\<forall>p. p \<notin> {path, with_extension path ''tmp'', with_extension path ''bak''}
          \<longrightarrow> cut_file_ops k j (apply_ops fs path new) fs p = fs p)
    \<and> (let fs' = cut_file_ops k j (apply_ops fs path new) fs;
           bak = fs' (with_extension path ''bak'') in
       fs' path = Some (Some old)
       \<or> fs' path = None \<and> k = 3 \<and> bak = Some (Some old)
       \<or> fs' path = Some (Some new) \<and> 4 \<le> k \<and> bak = Some (Some old))"
proof -
  consider "k = 0" | "k = 1" | "k = 2" | "k = 3" | "4 \<le> k" by linarith
  then show ?thesis
  proof cases
    case 5
    then have "take k (apply_ops fs path new) = apply_ops fs path new" "\<not> k < length (apply_ops fs path new)"
      by (simp_all add: apply_ops_def Let_def)
    then show ?thesis using assms 5
      by (simp add: cut_file_ops_def run_file_ops_def apply_ops_def Let_def)
  qed (simp_all add: assms cut_file_ops_def run_file_ops_def apply_ops_def Let_def eval_nat_numeral)
qed

theorem ide_apply_crash_safe_witness:
  "cut_file_ops 3 0 (apply_ops [''c'' \<mapsto> Some ''old''] ''c'' ''new'') [''c'' \<mapsto> Some ''old''] ''c.bak'' = Some (Some ''old'')"
  using ide_apply_crash_safe [of "[''c'' \<mapsto> Some ''old'']" "''c''" "''old''" 3 0 "''new''"]
  by (simp add: Let_def with_extension_def cut_file_ops_def run_file_ops_def apply_ops_def)

end
