(* ===== verification/WorldModel.thy ===== *)
theory WorldModel
  imports Json SqliteStore
begin

text \<open>
  The world model of \<open>crates/amore-core/src/world_model.rs\<close>: projects and their edges, tool
  reliability counters, and revealed preferences.  A table is the list of its rows in rowid
  order, \<open>INSERT .. ON CONFLICT DO UPDATE\<close> is \<open>upsert_row\<close>.  A SQLite \<open>REAL\<close> is a real number
  and the update of a preference is the formula of the code in exact arithmetic: the rounding of
  \<open>f64\<close> and of \<open>ln\<close> and \<open>exp\<close> is not modelled.
\<close>

record project_row =
  pr_name :: string
  pr_payload :: string
  pr_ts :: int

record project_node =
  pn_name :: string
  pn_payload :: json
  pn_ts :: int

record project_edge =
  e_from :: string
  e_to :: string
  e_type :: string
  e_weight :: real

record tool_row =
  t_tool :: string
  t_class :: string
  t_success :: int
  t_failure :: int
  t_ts :: int

record tool_reliability_node =
  tr_tool :: string
  tr_class :: string
  tr_success :: nat
  tr_failure :: nat

record pref_row =
  p_key :: string
  p_count :: int
  p_probability :: real
  p_last :: "string option"
  p_ts :: int

record preference_node =
  pf_key :: string
  pf_count :: nat
  pf_probability :: real
  pf_last :: "string option"
  pf_ts :: int

record world_model =
  wm_projects :: "project_row list"
  wm_edges :: "project_edge list"
  wm_tools :: "tool_row list"
  wm_prefs :: "pref_row list"

definition wm_empty :: world_model where
  "wm_empty = \<lparr>wm_projects = [], wm_edges = [], wm_tools = [], wm_prefs = []\<rparr>"

text \<open>The row with the key of \<open>new\<close> is updated in place; there is none: \<open>new\<close> is appended.\<close>

fun upsert_row :: "('r \<Rightarrow> 'k) \<Rightarrow> ('r \<Rightarrow> 'r) \<Rightarrow> 'r \<Rightarrow> 'r list \<Rightarrow> 'r list" where
  "upsert_row key upd new [] = [new]"
| "upsert_row key upd new (r # rs) =
     (if key r = key new then upd r # rs else r # upsert_row key upd new rs)"

section \<open>Projects\<close>

definition upsert_project :: "(json \<Rightarrow> string) \<Rightarrow> int \<Rightarrow> string \<Rightarrow> json \<Rightarrow> world_model \<Rightarrow> world_model" where
  "upsert_project to_text now name doc W =
     W\<lparr>wm_projects := upsert_row pr_name (\<lambda>r. r\<lparr>pr_payload := to_text doc, pr_ts := now\<rparr>)
       \<lparr>pr_name = name, pr_payload = to_text doc, pr_ts = now\<rparr> (wm_projects W)\<rparr>"

definition get_project :: "(string \<Rightarrow> json option) \<Rightarrow> string \<Rightarrow> world_model \<Rightarrow> project_node option" where
  "get_project from_text name W =
     map_option (\<lambda>r. \<lparr>pn_name = name,
         pn_payload = (case from_text (pr_payload r) of Some v \<Rightarrow> v | None \<Rightarrow> JNull), pn_ts = pr_ts r\<rparr>)
       (find (\<lambda>r. pr_name r = name) (wm_projects W))"

definition edge_key :: "project_edge \<Rightarrow> string \<times> string \<times> string" where
  "edge_key e = (e_from e, e_to e, e_type e)"

definition add_project_edge :: "string \<Rightarrow> string \<Rightarrow> string \<Rightarrow> real \<Rightarrow> world_model \<Rightarrow> world_model" where
  "add_project_edge src dst typ w W =
     W\<lparr>wm_edges := upsert_row edge_key (\<lambda>e. e\<lparr>e_weight := w\<rparr>)
       \<lparr>e_from = src, e_to = dst, e_type = typ, e_weight = w\<rparr> (wm_edges W)\<rparr>"

text \<open>\<open>ORDER BY weight DESC, to_name ASC\<close>: a stable sort by the last key first.\<close>

definition project_neighbors :: "string \<Rightarrow> world_model \<Rightarrow> project_edge list" where
  "project_neighbors name W =
     sort_desc e_weight (sort_key e_to (filter (\<lambda>e. e_from e = name) (wm_edges W)))"

section \<open>Tool reliability\<close>

definition record_tool_outcome :: "int \<Rightarrow> string \<Rightarrow> string \<Rightarrow> bool \<Rightarrow> world_model \<Rightarrow> world_model" where
  "record_tool_outcome now tool cls success W =
     (let (s, f) = (if success then (1, 0) else (0, 1)) in
      W\<lparr>wm_tools := upsert_row (\<lambda>r. (t_tool r, t_class r))
          (\<lambda>r. r\<lparr>t_success := t_success r + s, t_failure := t_failure r + f, t_ts := now\<rparr>)
          \<lparr>t_tool = tool, t_class = cls, t_success = s, t_failure = f, t_ts = now\<rparr> (wm_tools W)\<rparr>)"

definition tool_reliability :: "string \<Rightarrow> string \<Rightarrow> world_model \<Rightarrow> tool_reliability_node option" where
  "tool_reliability tool cls W =
     map_option (\<lambda>r. \<lparr>tr_tool = tool, tr_class = cls, tr_success = nat (max 0 (t_success r)),
         tr_failure = nat (max 0 (t_failure r))\<rparr>)
       (find (\<lambda>r. t_tool r = tool \<and> t_class r = cls) (wm_tools W))"

definition success_rate :: "tool_reliability_node \<Rightarrow> rat" where
  "success_rate r = (of_nat (tr_success r) + 1) / (of_nat (tr_success r) + of_nat (tr_failure r) + 2)"

section \<open>Preferences\<close>

definition clamp :: "real \<Rightarrow> real \<Rightarrow> real \<Rightarrow> real" where
  "clamp lo hi x = (if x < lo then lo else if hi < x then hi else x)"

definition eps :: real where "eps = 1 / 1000000"

definition preference_step :: "real \<Rightarrow> real \<Rightarrow> real" where
  "preference_step p lift =
     (let q = clamp eps (1 - eps) p;
          log_odds = ln (q / (1 - q)) + clamp (- 3) 3 lift
      in 1 / (1 + exp (- log_odds)))"

definition update_preference :: "int \<Rightarrow> string \<Rightarrow> string \<Rightarrow> real \<Rightarrow> world_model \<Rightarrow> real \<times> world_model" where
  "update_preference now key evidence lift W =
     (let (n, p) = (case find (\<lambda>r. p_key r = key) (wm_prefs W) of
              Some r \<Rightarrow> (p_count r, p_probability r) | None \<Rightarrow> (0, 1 / 2));
          p' = preference_step p lift;
          r = \<lparr>p_key = key, p_count = n + 1, p_probability = p', p_last = Some evidence, p_ts = now\<rparr>
      in (p', W\<lparr>wm_prefs := upsert_row p_key (\<lambda>_. r) r (wm_prefs W)\<rparr>))"

definition pref_node :: "pref_row \<Rightarrow> preference_node" where
  "pref_node r = \<lparr>pf_key = p_key r, pf_count = nat (max 0 (p_count r)), pf_probability = p_probability r,
     pf_last = p_last r, pf_ts = p_ts r\<rparr>"

definition get_preference :: "string \<Rightarrow> world_model \<Rightarrow> preference_node option" where
  "get_preference key W = map_option pref_node (find (\<lambda>r. p_key r = key) (wm_prefs W))"

definition top_preferences :: "u64 \<Rightarrow> world_model \<Rightarrow> preference_node list" where
  "top_preferences top_n W =
     map pref_node (sql_limit top_n
       (sort_desc p_probability (sort_desc p_count (sort_key p_key (wm_prefs W)))))"

section \<open>Lemmas\<close>

lemma upsert_row_find:
  assumes "\<And>r. key (upd r) = key r"
  shows "find (\<lambda>r. key r = k) (upsert_row key upd new rs) =
    (if k = key new
     then Some (case find (\<lambda>r. key r = k) rs of Some r \<Rightarrow> upd r | None \<Rightarrow> new)
     else find (\<lambda>r. key r = k) rs)"
  using assms by (induction rs) auto

lemma upsert_row_keys:
  assumes "\<And>r. key r = key new \<Longrightarrow> key (upd r) = key new"
  shows "map key (upsert_row key upd new rs) = (if key new \<in> key ` set rs then map key rs else map key rs @ [key new])"
  using assms by (induction rs) (auto split: if_splits)

lemma clamp_bounds: "lo \<le> hi \<Longrightarrow> lo \<le> clamp lo hi x \<and> clamp lo hi x \<le> hi"
  by (simp add: clamp_def)

lemma logistic_ln:
  assumes "0 < q" "q < (1 :: real)"
  shows "1 / (1 + exp (- (ln (q / (1 - q)) + l))) = q / (q + (1 - q) * exp (- l))"
proof -
  have "exp (- (ln (q / (1 - q)) + l)) = exp (- ln (q / (1 - q))) * exp (- l)"
    by (simp only: minus_add_distrib exp_add)
  also have "exp (- ln (q / (1 - q))) = (1 - q) / q"
    using assms by (subst exp_minus) simp
  finally have e: "exp (- (ln (q / (1 - q)) + l)) = (1 - q) / q * exp (- l)" .
  show ?thesis unfolding e using assms by (simp add: field_simps)
qed

lemma preference_step_eq:
  assumes "eps \<le> p" "p \<le> 1 - eps"
  shows "preference_step p lift = p / (p + (1 - p) * exp (- clamp (- 3) 3 lift))"
proof -
  have "0 < p" "p < 1" and c: "clamp eps (1 - eps) p = p"
    using assms by (simp_all add: eps_def clamp_def)
  from logistic_ln [OF this(1,2)] c show ?thesis by (simp add: preference_step_def)
qed

lemma preference_step_bounds: "0 < preference_step p lift \<and> preference_step p lift < 1"
  by (simp add: preference_step_def Let_def add_pos_pos less_divide_eq divide_less_eq)

text \<open>The outcomes of one tool and class in a history.\<close>

type_synonym outcome = "int \<times> string \<times> string \<times> bool"

definition outcomes_of :: "string \<Rightarrow> string \<Rightarrow> bool \<Rightarrow> outcome list \<Rightarrow> nat" where
  "outcomes_of tool cls b os = length (filter (\<lambda>(_, t, c, s). t = tool \<and> c = cls \<and> s = b) os)"

definition replay_outcomes :: "outcome list \<Rightarrow> world_model \<Rightarrow> world_model" where
  "replay_outcomes os W = fold (\<lambda>(now, t, c, s). record_tool_outcome now t c s) os W"

lemma record_tool_outcome_find:
  "find (\<lambda>r. (t_tool r, t_class r) = (tool, cls)) (wm_tools (record_tool_outcome now t c s W)) =
    (if tool = t \<and> cls = c
     then Some (case find (\<lambda>r. (t_tool r, t_class r) = (tool, cls)) (wm_tools W) of
         Some r \<Rightarrow> r\<lparr>t_success := t_success r + (if s then 1 else 0), t_failure := t_failure r + (if s then 0 else 1), t_ts := now\<rparr>
       | None \<Rightarrow> \<lparr>t_tool = t, t_class = c, t_success = (if s then 1 else 0), t_failure = (if s then 0 else 1), t_ts = now\<rparr>)
     else find (\<lambda>r. (t_tool r, t_class r) = (tool, cls)) (wm_tools W))"
  unfolding record_tool_outcome_def Let_def
  by (cases s) (simp_all add: upsert_row_find [where key = "\<lambda>r. (t_tool r, t_class r)" and k = "(tool, cls)", simplified]
      split: option.split)

lemma replay_counts:
  "(case find (\<lambda>r. (t_tool r, t_class r) = (tool, cls)) (wm_tools (replay_outcomes os wm_empty)) of
      None \<Rightarrow> outcomes_of tool cls True os = 0 \<and> outcomes_of tool cls False os = 0
    | Some r \<Rightarrow> t_success r = int (outcomes_of tool cls True os) \<and> t_failure r = int (outcomes_of tool cls False os)
        \<and> 0 < outcomes_of tool cls True os + outcomes_of tool cls False os)"
proof (induction os rule: rev_induct)
  case Nil
  show ?case by (simp add: replay_outcomes_def wm_empty_def outcomes_of_def)
next
  case (snoc x os)
  obtain now t c s where o: "x = (now, t, c, s)" by (cases x)
  have "replay_outcomes (os @ [x]) wm_empty = record_tool_outcome now t c s (replay_outcomes os wm_empty)"
    by (simp add: replay_outcomes_def o)
  with snoc show ?case
    by (simp only: record_tool_outcome_find) (auto simp: outcomes_of_def o split: option.splits)
qed

section \<open>Properties\<close>

text \<open>After any history of outcomes, the reliability of a tool in a class counts exactly its
  successes and failures, and its smoothed rate lies strictly between 0 and 1; a tool never seen
  has no reliability.\<close>

theorem tool_counts_exact:
  "tool_reliability tool cls (replay_outcomes os wm_empty) =
     (if outcomes_of tool cls True os + outcomes_of tool cls False os = 0 then None
      else Some \<lparr>tr_tool = tool, tr_class = cls, tr_success = outcomes_of tool cls True os,
        tr_failure = outcomes_of tool cls False os\<rparr>)
   \<and> 0 < success_rate r \<and> success_rate r < 1"
proof -
  have "0 < success_rate r \<and> success_rate r < 1"
    by (simp add: success_rate_def add_nonneg_pos divide_less_eq)
  then show ?thesis
    using replay_counts [of tool cls os] by (auto simp: tool_reliability_def split: option.splits)
qed

text \<open>Evidence moves a preference in the direction of its lift, never to certainty, and equal
  evidence to the contrary takes it back.\<close>

theorem preference_moves_with_evidence:
  assumes "eps \<le> p" and "p \<le> 1 - eps"
  shows "0 < preference_step p lift \<and> preference_step p lift < 1
    \<and> (p < preference_step p lift \<longleftrightarrow> 0 < lift)
    \<and> (preference_step p lift < p \<longleftrightarrow> lift < 0)
    \<and> (eps \<le> preference_step p lift \<and> preference_step p lift \<le> 1 - eps
        \<longrightarrow> preference_step (preference_step p lift) (- lift) = p)"
proof -
  let ?l = "clamp (- 3) 3 lift"
  let ?d = "p + (1 - p) * exp (- ?l)"
  have p: "0 < p" "p < 1" using assms by (simp_all add: eps_def)
  have d: "0 < ?d" using p by (simp add: add_pos_pos)
  have up: "p < p / ?d \<longleftrightarrow> ?d < 1" "p / ?d < p \<longleftrightarrow> 1 < ?d"
    using p d by (simp_all add: less_divide_eq divide_less_eq)
  have "?d < 1 \<longleftrightarrow> (1 - p) * exp (- ?l) < (1 - p) * 1" "1 < ?d \<longleftrightarrow> (1 - p) * 1 < (1 - p) * exp (- ?l)"
    by auto
  then have e: "?d < 1 \<longleftrightarrow> 0 < ?l" "1 < ?d \<longleftrightarrow> ?l < 0"
    using p by (simp_all only: mult_less_cancel_left_pos diff_gt_0_iff_gt) simp_all
  have l: "0 < ?l \<longleftrightarrow> 0 < lift" "?l < 0 \<longleftrightarrow> lift < 0" "clamp (- 3) 3 (- lift) = - ?l"
    by (auto simp: clamp_def)
  have "preference_step (preference_step p lift) (- lift) = p"
    if b: "eps \<le> preference_step p lift" "preference_step p lift \<le> 1 - eps"
  proof -
    let ?q = "p / ?d"
    have q: "preference_step p lift = ?q" by (rule preference_step_eq [OF assms])
    have "1 - ?q = ?d / ?d - ?q" using d by simp
    then have "1 - ?q = (?d - p) / ?d" by (simp only: diff_divide_distrib)
    then have "1 - ?q = (1 - p) * exp (- ?l) / ?d" by simp
    then have "(1 - ?q) * exp ?l = (1 - p) * (exp (- ?l) * exp ?l) / ?d"
      by (simp only: times_divide_eq_left mult.assoc)
    then have "(1 - ?q) * exp ?l = (1 - p) / ?d"
      by (simp add: exp_minus_inverse mult.commute [of "exp (- ?l)"])
    then have "?q + (1 - ?q) * exp (- clamp (- 3) 3 (- lift)) = 1 / ?d"
      unfolding l(3) using d by (simp add: add_divide_distrib [symmetric])
    then show ?thesis
      using preference_step_eq [OF b, of "- lift"] d unfolding q by simp
  qed
  with preference_step_bounds [of p lift] up e l preference_step_eq [OF assms, of lift] show ?thesis by auto
qed

theorem preference_moves_with_evidence_witness:
  "1 / 2 < preference_step (1 / 2) 1"
  using preference_moves_with_evidence [of "1 / 2" 1] by (simp add: eps_def)

end
