(* ===== verification/McpServer.thy ===== *)
theory McpServer
  imports Recall Docs
begin

text \<open>
  The MCP server \<open>crates/amore-mcp\<close>: the tools and the start-up of \<open>main.rs\<close>, the rate limiter
  of \<open>middleware/rate_limit.rs\<close>, the gRPC surface of \<open>grpc.rs\<close> with its token bucket, the
  readiness state and the guarded bind addresses of \<open>health/http.rs\<close> and
  \<open>observability/metrics.rs\<close>, and the log format of \<open>observability/logging.rs\<close>.  The governor
  limiter, the parser of socket addresses and the serialisers are parameters.  The bucket's
  \<open>f64\<close> is an exact rational.
\<close>

section \<open>Bind addresses\<close>

text \<open>The address parsed from the variable or the default, refused when it leaves the machine
  without the opt-in.  \<open>parse_addr\<close> is \<open>str::parse::<SocketAddr>\<close>.\<close>

definition parse_health_bind ::
  "(string \<Rightarrow> 'a option) \<Rightarrow> ('a \<Rightarrow> bool) \<Rightarrow> environ \<Rightarrow> string + 'a" where
  "parse_health_bind parse_addr is_loopback env =
     (let raw = (case env_var ''AMORE_HEALTH_BIND'' env of Some v \<Rightarrow> v | None \<Rightarrow> ''127.0.0.1:9091'') in
      case parse_addr raw of
        None \<Rightarrow> Inl ''invalid AMORE_HEALTH_BIND''
      | Some addr \<Rightarrow>
          if \<not> is_loopback addr \<and> env_var ''AMORE_HEALTH_ALLOW_NETWORK'' env \<noteq> Some ''1''
          then Inl ''non-loopback health bind is blocked by default'' else Inr addr)"

definition parse_metrics_bind ::
  "(string \<Rightarrow> 'a option) \<Rightarrow> ('a \<Rightarrow> bool) \<Rightarrow> environ \<Rightarrow> string + 'a" where
  "parse_metrics_bind parse_addr is_loopback env =
     (let raw = (case env_var ''AMORE_METRICS_BIND'' env of Some v \<Rightarrow> v | None \<Rightarrow> ''127.0.0.1:9090'') in
      case parse_addr raw of
        None \<Rightarrow> Inl ''invalid AMORE_METRICS_BIND''
      | Some addr \<Rightarrow>
          if \<not> is_loopback addr \<and> env_var ''AMORE_METRICS_ALLOW_NETWORK'' env \<noteq> Some ''1''
          then Inl ''non-loopback metrics bind is blocked by default'' else Inr addr)"

datatype 'a grpc_listener = Tcp 'a | NamedPipe string

definition pipe_prefix :: string where
  "pipe_prefix = [CHR 0x5C, CHR 0x5C, CHR ''.'', CHR 0x5C] @ ''pipe'' @ [CHR 0x5C]"

definition default_grpc_listen :: "bool \<Rightarrow> string" where
  "default_grpc_listen windows = (if windows then pipe_prefix @ ''amore-mcp'' else ''tcp://127.0.0.1:7878'')"

text \<open>\<open>str::trim_start_matches\<close> drops every repetition of the prefix.\<close>

fun trim_start_matches :: "nat \<Rightarrow> string \<Rightarrow> string \<Rightarrow> string" where
  "trim_start_matches 0 p s = s"
| "trim_start_matches (Suc n) p s = (case strip_prefix p s of Some r \<Rightarrow> trim_start_matches n p r | None \<Rightarrow> s)"

definition parse_grpc_listen ::
  "(string \<Rightarrow> 'a option) \<Rightarrow> ('a \<Rightarrow> bool) \<Rightarrow> bool \<Rightarrow> environ \<Rightarrow> string option \<Rightarrow> string + 'a grpc_listener" where
  "parse_grpc_listen parse_addr is_loopback windows env raw =
     (let effective = (case raw of Some s \<Rightarrow> if s \<noteq> [] then s else default_grpc_listen windows
                        | None \<Rightarrow> default_grpc_listen windows) in
      if starts_with effective ''tcp://'' then
        (case parse_addr (trim_start_matches (length effective) ''tcp://'' effective) of
           None \<Rightarrow> Inl ''invalid tcp address''
         | Some addr \<Rightarrow>
             if \<not> is_loopback addr \<and> env_var ''AMORE_GRPC_ALLOW_NETWORK'' env \<noteq> Some ''1''
             then Inl ''non-loopback gRPC bind is blocked by default'' else Inr (Tcp addr))
      else if starts_with effective pipe_prefix then Inr (NamedPipe effective)
      else Inl ''unrecognised --grpc-listen format'')"

text \<open>What the three have in common: an address off the machine needs the opt-in.\<close>

locale bind_guard =
  fixes addresses :: "(string \<Rightarrow> 'a option) \<Rightarrow> ('a \<Rightarrow> bool) \<Rightarrow> environ \<Rightarrow> 'r \<Rightarrow> 'a option"
    and flag :: string
  assumes guarded: "addresses parse_addr is_loopback env r = Some addr
    \<Longrightarrow> is_loopback addr \<or> env_var flag env = Some ''1''"
begin

lemma closed_by_default:
  "env_var flag env = None \<Longrightarrow> addresses parse_addr is_loopback env r = Some addr \<Longrightarrow> is_loopback addr"
  using guarded by fastforce

end

definition bound :: "string + 'a \<Rightarrow> 'a option" where
  "bound r = (case r of Inl e \<Rightarrow> None | Inr a \<Rightarrow> Some a)"

definition bound_tcp :: "string + 'a grpc_listener \<Rightarrow> 'a option" where
  "bound_tcp r = (case r of Inr (Tcp a) \<Rightarrow> Some a | _ \<Rightarrow> None)"

interpretation health: bind_guard "\<lambda>p l env r. bound (parse_health_bind p l env)" "''AMORE_HEALTH_ALLOW_NETWORK''"
  by unfold_locales (auto simp: parse_health_bind_def bound_def Let_def split: option.splits if_splits)

interpretation prometheus: bind_guard "\<lambda>p l env r. bound (parse_metrics_bind p l env)" "''AMORE_METRICS_ALLOW_NETWORK''"
  by unfold_locales (auto simp: parse_metrics_bind_def bound_def Let_def split: option.splits if_splits)

interpretation grpc: bind_guard "\<lambda>p l env (w, raw). bound_tcp (parse_grpc_listen p l w env raw)" "''AMORE_GRPC_ALLOW_NETWORK''"
  by unfold_locales (auto simp: parse_grpc_listen_def bound_tcp_def Let_def split: option.splits if_splits)

section \<open>Readiness\<close>

record ready_state =
  wal_replayed :: bool
  warmed_up :: bool

definition new_ready :: ready_state where "new_ready = \<lparr>wal_replayed = False, warmed_up = False\<rparr>"

definition is_ready :: "ready_state \<Rightarrow> bool" where
  "is_ready s \<longleftrightarrow> wal_replayed s \<and> warmed_up s"

definition show_bool :: "bool \<Rightarrow> string" where
  "show_bool b = (if b then ''true'' else ''false'')"

definition readyz_handler :: "ready_state \<Rightarrow> nat \<times> string" where
  "readyz_handler s =
     (if is_ready s then (200, ''ready'')
      else (503, ''not ready: wal_replayed='' @ show_bool (wal_replayed s) @ '' warmed_up='' @ show_bool (warmed_up s)))"

definition healthz_handler :: "nat \<times> string" where
  "healthz_handler = (200, ''ok'')"

datatype log_format = LogJson | LogText

definition resolve_log_format :: "bool \<Rightarrow> environ \<Rightarrow> log_format" where
  "resolve_log_format debug_build env =
     (let v = to_lowercase (case env_var ''AMORE_LOG_FORMAT'' env of Some v \<Rightarrow> v | None \<Rightarrow> []) in
      if v = ''json'' then LogJson else if v = ''text'' then LogText
      else if debug_build then LogText else LogJson)"

section \<open>The token bucket\<close>

text \<open>Instants in nanoseconds; \<open>Instant::duration_since\<close> saturates at zero.\<close>

record rate_bucket =
  tokens :: rat
  max_tokens :: rat
  refill_per_ms :: rat
  last_refill :: nat

definition new_bucket :: "nat \<Rightarrow> u32 \<Rightarrow> rate_bucket" where
  "new_bucket now rpm =
     (let m = of_nat (unat rpm) in
      \<lparr>tokens = m, max_tokens = m, refill_per_ms = m / 60000, last_refill = now\<rparr>)"

definition elapsed_ms :: "nat \<Rightarrow> rate_bucket \<Rightarrow> nat" where
  "elapsed_ms now b = (now - last_refill b) div 1000000"

text \<open>\<^const>\<open>None\<close> grants; \<^const>\<open>Some\<close> refuses with the seconds to wait.\<close>

definition try_consume :: "nat \<Rightarrow> rate_bucket \<Rightarrow> nat option \<times> rate_bucket" where
  "try_consume now b =
     (let t = min (tokens b + of_nat (elapsed_ms now b) * refill_per_ms b) (max_tokens b);
          b' = b\<lparr>last_refill := now, tokens := t\<rparr>
      in if 1 \<le> t then (None, b'\<lparr>tokens := t - 1\<rparr>)
         else (Some (if refill_per_ms b = 0 then 2 ^ 64 - 1
                     else max 1 (nat (min (\<lceil>(1 - t) / refill_per_ms b / 1000\<rceil>) (2 ^ 64 - 1)))), b'))"

definition resolve_rpm :: "environ \<Rightarrow> u32" where
  "resolve_rpm env =
     (case env_var ''AMORE_GRPC_RATE_LIMIT_RPM'' env of
        Some v \<Rightarrow> (case parse_u32 v of Some n \<Rightarrow> n | None \<Rightarrow> 100)
      | None \<Rightarrow> 100)"

section \<open>Errors\<close>

datatype main_error = IdeDisconnected | DepUnreachable string | ConfigInvalid string | Other string

fun main_error_message :: "main_error \<Rightarrow> string" where
  "main_error_message IdeDisconnected = ''Waiting for your IDE - start the editor and connect via MCP.''"
| "main_error_message (DepUnreachable _) =
     ''Couldn't reach a required service (Ollama or Qdrant). Run `amore doctor` to diagnose.''"
| "main_error_message (ConfigInvalid _) =
     ''Amore couldn't read its configuration. Check AMORE_DATA_DIR + AMORE_BRAIN env vars.''"
| "main_error_message (Other _) = ''Amore couldn't start. Run `amore doctor` to see details.''"

datatype mcp_error = InvalidParams string | InternalError string | RateLimited

section \<open>The tools\<close>

definition MAX_TOP_K :: usize where "MAX_TOP_K = 100"
definition MAX_QUERY_BYTES :: nat where "MAX_QUERY_BYTES = 16 * 1024"
definition default_top_k :: usize where "default_top_k = 5"
definition RATE_LIMIT_RPS_DEFAULT :: u32 where "RATE_LIMIT_RPS_DEFAULT = 50"

definition build_rate_limiter :: "environ \<Rightarrow> string + u32" where
  "build_rate_limiter env =
     (let rps = (case Option.bind (env_var ''AMORE_RATE_LIMIT_RPS'' env) parse_u32 of
                   Some n \<Rightarrow> n | None \<Rightarrow> RATE_LIMIT_RPS_DEFAULT)
      in if rps = 0 then Inl ''AMORE_RATE_LIMIT_RPS=0 is invalid'' else Inr rps)"

text \<open>The server: the recall engine, the entries of the documents' directories, the governor
  limiter's state and the counter of its rejections.\<close>

record ('l, 'q) amore_server =
  am_recall :: "'q hybrid_recall"
  am_docs :: "doc_file list option list"
  am_limiter :: 'l
  am_rejected :: nat

definition check_rate_limit ::
  "(string \<Rightarrow> 'l \<Rightarrow> bool \<times> 'l) \<Rightarrow> string \<Rightarrow> ('l, 'q) amore_server \<Rightarrow> (mcp_error + unit) \<times> ('l, 'q) amore_server" where
  "check_rate_limit check_key session srv =
     (let (ok, l) = check_key session (am_limiter srv) in
      if ok then (Inr (), srv\<lparr>am_limiter := l\<rparr>)
      else (Inl RateLimited, srv\<lparr>am_limiter := l, am_rejected := Suc (am_rejected srv)\<rparr>))"

definition clamp_top_k :: "usize \<Rightarrow> usize" where
  "clamp_top_k k = (if k < 1 then 1 else if MAX_TOP_K < k then MAX_TOP_K else k)"

definition tool_recall ::
  "(string \<Rightarrow> 'l \<Rightarrow> bool \<times> 'l) \<Rightarrow> 'q recall_env \<Rightarrow> (recall_envelope \<Rightarrow> string option) \<Rightarrow> string \<Rightarrow> usize
    \<Rightarrow> ('l, 'q) amore_server \<Rightarrow> (mcp_error + string) \<times> ('l, 'q) amore_server" where
  "tool_recall check_key E to_json query k srv =
     (case check_rate_limit check_key ''default'' srv of
        (Inl e, srv) \<Rightarrow> (Inl e, srv)
      | (Inr _, srv) \<Rightarrow>
          if MAX_QUERY_BYTES < length query then (Inl (InvalidParams ''query exceeds 16384 bytes''), srv)
          else (case search E query (clamp_top_k k) (am_recall srv) of
              (Inl e, r) \<Rightarrow> (Inl (InternalError e), srv\<lparr>am_recall := r\<rparr>)
            | (Inr envelope, r) \<Rightarrow>
                (case to_json envelope of
                   None \<Rightarrow> (Inl (InternalError ''serialize recall envelope failed''), srv\<lparr>am_recall := r\<rparr>)
                 | Some body \<Rightarrow> (Inr body, srv\<lparr>am_recall := r\<rparr>))))"

definition tool_observe ::
  "(string \<Rightarrow> 'l \<Rightarrow> bool \<times> 'l) \<Rightarrow> (string \<Rightarrow> json \<Rightarrow> 'q hybrid_recall \<Rightarrow> (string + ingest_receipt) \<times> 'q hybrid_recall)
    \<Rightarrow> (json \<Rightarrow> string option) \<Rightarrow> (ingest_receipt \<Rightarrow> string option) \<Rightarrow> string \<Rightarrow> json
    \<Rightarrow> ('l, 'q) amore_server \<Rightarrow> (mcp_error + string) \<times> ('l, 'q) amore_server" where
  "tool_observe check_key run_ingest payload_text receipt_text src v srv =
     (case check_rate_limit check_key ''default'' srv of
        (Inl e, srv) \<Rightarrow> (Inl e, srv)
      | (Inr _, srv) \<Rightarrow>
          if src = [] then (Inl (InvalidParams ''observe: source must be a non-empty string''), srv)
          else (case payload_text v of
              None \<Rightarrow> (Inl (InvalidParams ''observe: payload serialisation failed''), srv)
            | Some t \<Rightarrow>
                if MAX_QUERY_BYTES < length t then (Inl (InvalidParams ''observe: payload exceeds 16384 bytes''), srv)
                else (case run_ingest src v (am_recall srv) of
                    (Inl e, r) \<Rightarrow> (Inl (InternalError e), srv\<lparr>am_recall := r\<rparr>)
                  | (Inr receipt, r) \<Rightarrow>
                      (case receipt_text receipt of
                         None \<Rightarrow> (Inl (InternalError ''serialize observe receipt failed''), srv\<lparr>am_recall := r\<rparr>)
                       | Some body \<Rightarrow> (Inr body, srv\<lparr>am_recall := r\<rparr>)))))"

definition tool_canonical_doc_lookup ::
  "(doc_hit list \<Rightarrow> string option) \<Rightarrow> string \<Rightarrow> ('l, 'q) amore_server \<Rightarrow> mcp_error + string" where
  "tool_canonical_doc_lookup hits_text query srv =
     (case hits_text (route True query (am_docs srv)) of
        None \<Rightarrow> Inl (InternalError ''serialize hits failed'')
      | Some body \<Rightarrow> Inr body)"

section \<open>The gRPC service\<close>

datatype grpc_status = ResourceExhausted nat | InvalidArgument | Internal string | Unimplemented string

record grpc_hit =
  g_doc_id :: string
  g_score :: rat
  g_excerpt :: string
  g_source :: string

record 'q grpc_service =
  g_recall :: "'q hybrid_recall"
  g_bucket :: rate_bucket

definition check_rate :: "nat \<Rightarrow> 'q grpc_service \<Rightarrow> (grpc_status + unit) \<times> 'q grpc_service" where
  "check_rate now srv =
     (case try_consume now (g_bucket srv) of
        (None, b) \<Rightarrow> (Inr (), srv\<lparr>g_bucket := b\<rparr>)
      | (Some wait, b) \<Rightarrow> (Inl (ResourceExhausted wait), srv\<lparr>g_bucket := b\<rparr>))"

definition clamp_top_k_u32 :: "u32 \<Rightarrow> usize" where
  "clamp_top_k_u32 k = ucast (if k < 1 then 1 else if 100 < k then 100 else k :: u32)"

definition grpc_recall ::
  "'q recall_env \<Rightarrow> nat \<Rightarrow> string \<Rightarrow> u32 \<Rightarrow> 'q grpc_service
    \<Rightarrow> (grpc_status + grpc_hit list \<times> bool) \<times> 'q grpc_service" where
  "grpc_recall E now query k srv =
     (case check_rate now srv of
        (Inl e, srv) \<Rightarrow> (Inl e, srv)
      | (Inr _, srv) \<Rightarrow>
          if MAX_QUERY_BYTES < length query then (Inl InvalidArgument, srv)
          else (case search E query (clamp_top_k_u32 k) (g_recall srv) of
              (Inl e, r) \<Rightarrow> (Inl (Internal e), srv\<lparr>g_recall := r\<rparr>)
            | (Inr envelope, r) \<Rightarrow>
                (Inr (map (\<lambda>h. \<lparr>g_doc_id = hit_id h, g_score = hit_score h, g_excerpt = hit_text h,
                        g_source = hit_source h\<rparr>) (hits envelope),
                      \<not> is_clean (env_degraded envelope)), srv\<lparr>g_recall := r\<rparr>)))"

definition grpc_canonical_doc_lookup :: "grpc_status + doc_hit list" where
  "grpc_canonical_doc_lookup = Inl (Unimplemented ''CanonicalDocLookup is scheduled for v0.5.0'')"

definition grpc_provenance_verify :: "grpc_status + bool" where
  "grpc_provenance_verify = Inl (Unimplemented ''ProvenanceVerify is scheduled for v0.5.0'')"

definition grpc_health :: "nat \<Rightarrow> nat option \<Rightarrow> 'q grpc_service \<Rightarrow> (grpc_status + string \<times> nat) \<times> 'q grpc_service" where
  "grpc_health now start srv =
     (case check_rate now srv of
        (Inl e, srv) \<Rightarrow> (Inl e, srv)
      | (Inr _, srv) \<Rightarrow>
          (Inr (''ok'', case start of Some t \<Rightarrow> (now - t) div 1000000 | None \<Rightarrow> 0), srv))"

section \<open>Start-up\<close>

text \<open>A path is the list of its components, as in the documents router.\<close>

definition to_path :: "string \<Rightarrow> string list" where
  "to_path s =
     (let cs = split_on (\<lambda>c. c = CHR ''/'') s in
      (if s \<noteq> [] \<and> hd cs = [] then [''/''] else if hd cs = ''.'' then [''.''] else [])
      @ filter (\<lambda>c. c \<noteq> [] \<and> c \<noteq> ''.'') cs)"

definition env_with_legacy :: "string \<Rightarrow> string \<Rightarrow> environ \<Rightarrow> string option" where
  "env_with_legacy amore_key legacy_key env =
     (case env_var amore_key env of Some v \<Rightarrow> Some v | None \<Rightarrow> env_var legacy_key env)"

text \<open>The platform directories that \<open>dirs\<close> finds.\<close>

record platform_dirs =
  pd_config :: "string list option"
  pd_data :: "string list option"
  pd_home :: "string list option"
  pd_cwd :: "string list option"

definition first_dir :: "platform_dirs \<Rightarrow> string list option" where
  "first_dir D = (case pd_config D of Some d \<Rightarrow> Some d | None \<Rightarrow>
     (case pd_data D of Some d \<Rightarrow> Some d | None \<Rightarrow> pd_home D))"

definition resolve_sqlite_path :: "environ \<Rightarrow> platform_dirs \<Rightarrow> string + string list" where
  "resolve_sqlite_path env D =
     (case env_with_legacy ''AMORE_DATA_DIR'' ''OBELION_DATA_DIR'' env of
        Some dir \<Rightarrow> Inr (to_path dir @ [''amore.db''])
      | None \<Rightarrow> (case first_dir D of
          None \<Rightarrow> Inl ''no config/data/home dir resolvable for SQLite store path''
        | Some base \<Rightarrow> Inr (base @ [''Amore'', ''amore.db''])))"

definition resolve_docs_paths :: "environ \<Rightarrow> platform_dirs \<Rightarrow> string list list" where
  "resolve_docs_paths env D =
     (let home = (case pd_home D of Some h \<Rightarrow> h | None \<Rightarrow> [''.'']) in
      case env_with_legacy ''AMORE_DOCS_PATHS'' ''OBELION_DOCS_PATHS'' env of
        Some v \<Rightarrow>
          (let sep = (if CHR '';'' \<in> set v then CHR '';'' else CHR '':'') in
           filter (\<lambda>p. validate_docs_path (env_var ''AMORE_DOCS_PATHS_ALLOW_ANY'' env) p home = Inr ())
             (map to_path (filter (\<lambda>s. s \<noteq> []) (split_on (\<lambda>c. c = sep) v))))
      | None \<Rightarrow> default_search_paths home (case pd_cwd D of Some c \<Rightarrow> c | None \<Rightarrow> [''.'']))"

text \<open>The directories that exist and the contents of the files.\<close>

record data_tree =
  dt_dirs :: "string list set"
  dt_files :: "string list \<rightharpoonup> string"

definition create_dir :: "bool \<Rightarrow> string list \<Rightarrow> data_tree \<Rightarrow> data_tree" where
  "create_dir works d T = (if works then T\<lparr>dt_dirs := insert d (dt_dirs T)\<rparr> else T)"

text \<open>\<open>works\<close>: whether \<open>create_dir_all\<close> and \<open>copy\<close> succeed.  The parent of a path is absent when
  the path has no component.\<close>

definition maybe_migrate_data_dir :: "bool \<Rightarrow> string list \<Rightarrow> data_tree \<Rightarrow> data_tree" where
  "maybe_migrate_data_dir works amore_db T =
     (if amore_db = [] then T
      else let amore_dir = butlast amore_db in
        if amore_dir \<in> dt_dirs T then T
        else if amore_dir = [] then T
        else let legacy_dir = butlast amore_dir @ [''obelion'']; legacy_db = legacy_dir @ [''obelion.db''] in
          (case dt_files T legacy_db of
             None \<Rightarrow> T
           | Some db \<Rightarrow>
               if legacy_dir \<notin> dt_dirs T then T
               else if \<not> works then T
               else (create_dir True amore_dir T)\<lparr>dt_files :=
                 (dt_files T)(amore_db \<mapsto> db, amore_dir @ [''migrated-from-obelion.txt''] \<mapsto> ''Migrated'')\<rparr>))"

text \<open>\<open>main\<close> creates the parent directory of the store first; a failure there is ignored.\<close>

definition prepare_data_dir :: "bool \<Rightarrow> bool \<Rightarrow> string list \<Rightarrow> data_tree \<Rightarrow> data_tree" where
  "prepare_data_dir works1 works2 path T =
     maybe_migrate_data_dir works2 path (if path = [] then T else create_dir works1 (butlast path) T)"

record ('a, 'q) startup_world =
  sw_env :: environ
  sw_otel :: bool
  sw_addr :: "string \<Rightarrow> 'a option"
  sw_loopback :: "'a \<Rightarrow> bool"
  sw_listen :: "'a \<Rightarrow> bool"
  sw_qdrant :: "'q qdrant_server"
  sw_dirs :: platform_dirs
  sw_mkdir1 :: bool
  sw_mkdir2 :: bool
  sw_open :: "string list \<Rightarrow> data_tree \<Rightarrow> string + sqlite_store"

record 'q running =
  run_ready :: ready_state
  run_rps :: u32
  run_recall :: "'q hybrid_recall"
  run_docs :: "string list list"
  run_tree :: data_tree

definition start_server :: "('a, 'q) startup_world \<Rightarrow> data_tree \<Rightarrow> 'q \<Rightarrow> main_error + 'q running" where
  "start_server W T q =
     (let env = sw_env W;
          get = (\<lambda>k l d. case env_with_legacy k l env of Some v \<Rightarrow> v | None \<Rightarrow> d) in
      if \<not> sw_otel W then Inl (ConfigInvalid ''OTel init failed'')
      else case Option.bind (bound (parse_metrics_bind (sw_addr W) (sw_loopback W) env)) (\<lambda>a. if sw_listen W a then Some a else None) of
        None \<Rightarrow> Inl (ConfigInvalid ''Prometheus init failed'')
      | Some _ \<Rightarrow>
      (case Option.bind (bound (parse_health_bind (sw_addr W) (sw_loopback W) env)) (\<lambda>a. if sw_listen W a then Some a else None) of
        None \<Rightarrow> Inl (ConfigInvalid ''health sidecar failed'')
      | Some _ \<Rightarrow>
      (case build_rate_limiter env of
        Inl e \<Rightarrow> Inl (ConfigInvalid e)
      | Inr rps \<Rightarrow>
      (case new_qdrant (sw_qdrant W) (get ''AMORE_COLLECTION'' ''OBELION_COLLECTION'' ''amore'') DEFAULT_VECTOR_SIZE q of
        (Inl e, q') \<Rightarrow> Inl (DepUnreachable e)
      | (Inr store, q') \<Rightarrow>
      (case resolve_sqlite_path env (sw_dirs W) of
        Inl e \<Rightarrow> Inl (ConfigInvalid e)
      | Inr path \<Rightarrow>
          (let T' = prepare_data_dir (sw_mkdir1 W) (sw_mkdir2 W) path T in
           case sw_open W path T' of
             Inl e \<Rightarrow> Inl (ConfigInvalid e)
           | Inr db \<Rightarrow>
               Inr \<lparr>run_ready = \<lparr>wal_replayed = True, warmed_up = True\<rparr>, run_rps = rps,
                 run_recall = with_sqlite db (with_embedder
                   (new_ollama (get ''AMORE_OLLAMA_URL'' ''OBELION_OLLAMA_URL'' ''http://127.0.0.1:11434'')) (store, q')),
                 run_docs = resolve_docs_paths env (sw_dirs W), run_tree = T'\<rparr>))))))"

section \<open>Lemmas\<close>

lemma clamp_top_k_bounds:
  "1 \<le> unat (clamp_top_k k) \<and> unat (clamp_top_k k) \<le> 100
    \<and> unat (fetch_limit (clamp_top_k k)) = 4 * unat (clamp_top_k k)"
proof -
  obtain n where n: "n = clamp_top_k k" by simp
  have b: "1 \<le> unat n" "unat n \<le> 100"
    unfolding n clamp_top_k_def MAX_TOP_K_def
    by (simp_all add: word_less_nat_alt not_less split: if_split)
  have "unat n * unat (4 :: usize) < 2 ^ LENGTH(64)" using b by simp
  then have m: "unat (n * 4) = 4 * unat n" by (simp only: unat_mult_lem) simp
  have "n \<le> n * 4" unfolding word_le_nat_alt m by simp
  then have "max (n * 4) n = n * 4" by (simp only: max_absorb1)
  with b m n show ?thesis by (simp add: fetch_limit_def)
qed

lemma clamp_top_k_u32_bounds:
  "1 \<le> unat (clamp_top_k_u32 k) \<and> unat (clamp_top_k_u32 k) \<le> 100
    \<and> unat (fetch_limit (clamp_top_k_u32 k)) = 4 * unat (clamp_top_k_u32 k)"
proof -
  let ?m = "if k < 1 then 1 else if 100 < k then 100 else k :: u32"
  obtain m where m: "m = ?m" by simp
  have b: "1 \<le> unat m" "unat m \<le> 100"
    unfolding m by (simp_all add: word_less_nat_alt not_less split: if_split)
  have u: "unat (clamp_top_k_u32 k) = unat m"
    unfolding clamp_top_k_u32_def m [symmetric]
    using b by (simp add: unsigned_ucast_eq take_bit_nat_eq_self)
  have "clamp_top_k (clamp_top_k_u32 k) = clamp_top_k_u32 k"
    using b u by (auto simp: clamp_top_k_def MAX_TOP_K_def word_less_nat_alt)
  with clamp_top_k_bounds [of "clamp_top_k_u32 k"] show ?thesis by simp
qed

lemma search_length:
  "fst (search E query k r) = Inr env \<Longrightarrow> length (hits env) \<le> unat k"
  by (auto simp: search_def rrf_fuse_def Let_def split: prod.splits if_splits)

text \<open>The bucket: tokens stay between 0 and the maximum, and a grant takes one of them.\<close>

definition bucket_ok :: "rate_bucket \<Rightarrow> bool" where
  "bucket_ok b \<longleftrightarrow> 0 \<le> tokens b \<and> tokens b \<le> max_tokens b \<and> 0 \<le> refill_per_ms b"

fun grants :: "nat list \<Rightarrow> rate_bucket \<Rightarrow> nat" where
  "grants [] b = 0"
| "grants (t # us) b =
     (case try_consume t b of (None, b') \<Rightarrow> Suc (grants us b') | (Some _, b') \<Rightarrow> grants us b')"

lemma try_consume_ok:
  assumes "bucket_ok b"
  shows "bucket_ok (snd (try_consume t b)) \<and> last_refill (snd (try_consume t b)) = t
    \<and> max_tokens (snd (try_consume t b)) = max_tokens b \<and> refill_per_ms (snd (try_consume t b)) = refill_per_ms b
    \<and> tokens (snd (try_consume t b)) + (if fst (try_consume t b) = None then 1 else 0)
        \<le> tokens b + of_nat (elapsed_ms t b) * refill_per_ms b"
proof -
  have "0 \<le> of_nat (elapsed_ms t b) * refill_per_ms b" using assms by (simp add: bucket_ok_def)
  then show ?thesis using assms
    by (auto simp: bucket_ok_def try_consume_def Let_def)
qed

lemma of_nat_div_le: "of_nat (m div 1000000) \<le> (of_nat m / 1000000 :: rat)"
proof -
  have "of_nat (m div 1000000 * 1000000) \<le> (of_nat m :: rat)"
    by (subst of_nat_le_iff) simp
  then show ?thesis by (simp add: le_divide_eq)
qed

lemma grants_bound:
  assumes "bucket_ok b" and "sorted (last_refill b # us)"
  shows "of_nat (grants us b) \<le> tokens b
    + refill_per_ms b * (of_nat (last (last_refill b # us) - last_refill b) / 1000000)"
  using assms
proof (induction us arbitrary: b)
  case Nil
  then show ?case by (simp add: bucket_ok_def)
next
  case (Cons t us)
  obtain r b' where c: "try_consume t b = (r, b')" by (cases "try_consume t b")
  from try_consume_ok [OF Cons.prems(1), of t] c have b': "bucket_ok b'" "last_refill b' = t"
      "refill_per_ms b' = refill_per_ms b"
    and tok: "tokens b' + (if r = None then 1 else 0) \<le> tokens b + of_nat (elapsed_ms t b) * refill_per_ms b"
    by auto
  from Cons.prems(2) have t: "last_refill b \<le> t" "t \<le> last (t # us)" and st: "sorted (t # us)"
    by (auto simp: sorted_append dest: last_in_set)
  have ih: "of_nat (grants us b') \<le> tokens b' + refill_per_ms b * (of_nat (last (t # us) - t) / 1000000)"
    using Cons.IH [OF b'(1)] b' st by simp
  have "of_nat (elapsed_ms t b) \<le> (of_nat (t - last_refill b) / 1000000 :: rat)"
    unfolding elapsed_ms_def by (rule of_nat_div_le)
  then have "of_nat (elapsed_ms t b) * refill_per_ms b \<le> refill_per_ms b * (of_nat (t - last_refill b) / 1000000)"
    using Cons.prems(1) mult_left_mono unfolding mult.commute [of _ "refill_per_ms b"] bucket_ok_def by blast
  moreover have "last (last_refill b # t # us) - last_refill b = (t - last_refill b) + (last (t # us) - t)"
    using t by simp
  then have "refill_per_ms b * (of_nat (last (last_refill b # t # us) - last_refill b) / 1000000)
      = refill_per_ms b * (of_nat (t - last_refill b) / 1000000) + refill_per_ms b * (of_nat (last (t # us) - t) / 1000000)"
    by (simp only: of_nat_add add_divide_distrib distrib_left)
  moreover have "of_nat (grants (t # us) b) = of_nat (grants us b') + (if r = None then 1 else (0 :: rat))"
    by (simp add: c split: option.split)
  ultimately show ?case using ih tok by linarith
qed

text \<open>Requests closer than a millisecond refill nothing: the elapsed time is truncated and the
  clock is set forward all the same.\<close>

lemma fast_polling_starves:
  assumes "bucket_ok b" and "successively (\<lambda>t u. t \<le> u \<and> u < t + 1000000) (last_refill b # us)"
  shows "of_nat (grants us b) \<le> tokens b"
  using assms
proof (induction us arbitrary: b)
  case Nil
  then show ?case by (simp add: bucket_ok_def)
next
  case (Cons t us)
  obtain r b' where c: "try_consume t b = (r, b')" by (cases "try_consume t b")
  have e: "elapsed_ms t b = 0" using Cons.prems(2) by (auto simp: elapsed_ms_def)
  from try_consume_ok [OF Cons.prems(1), of t] c e have "bucket_ok b'" "last_refill b' = t"
      "tokens b' + (if r = None then 1 else 0) \<le> tokens b"
    by auto
  moreover from this Cons.prems(2) Cons.IH [of b'] have "of_nat (grants us b') \<le> tokens b'"
    by (cases us) auto
  ultimately show ?case by (auto simp: c split: option.split)
qed

lemma no_qdrant_no_server:
  "(\<And>c. isl (srv_exists (sw_qdrant W) c q)) \<Longrightarrow> isl (start_server W T q)"
proof -
  assume down: "\<And>c. isl (srv_exists (sw_qdrant W) c q)"
  have "\<exists>e. new_qdrant (sw_qdrant W) c DEFAULT_VECTOR_SIZE q = (Inl e, q)" for c
    using down [of c] by (auto simp: new_qdrant_def ensure_collection_def Let_def isl_def new_lazy_def)
  then obtain f where "new_qdrant (sw_qdrant W) c DEFAULT_VECTOR_SIZE q = (Inl (f c), q)" for c
    by metis
  then show ?thesis by (simp add: start_server_def Let_def split: option.split sum.split)
qed

section \<open>Properties\<close>

text \<open>The tool \<open>recall\<close> and the gRPC call \<open>Recall\<close> never hand the engine a query above 16 KiB
  or a \<open>top_k\<close> outside 1 to 100, whose over-fetch never wraps around; they return at most 100
  hits, and a refused request leaves the engine as it was.\<close>

theorem recall_requests_bounded:
  "(case tool_recall check E to_json query k srv of (res, srv') \<Rightarrow>
      if fst (check ''default'' (am_limiter srv)) \<and> length query \<le> 16384 then
        \<exists>n. 1 \<le> unat n \<and> unat n \<le> 100 \<and> unat (fetch_limit n) = 4 * unat n
          \<and> am_recall srv' = snd (search E query n (am_recall srv))
          \<and> (case fst (search E query n (am_recall srv)) of
               Inl e \<Rightarrow> res = Inl (InternalError e)
             | Inr env \<Rightarrow> length (hits env) \<le> 100
                 \<and> (case to_json env of Some body \<Rightarrow> res = Inr body | None \<Rightarrow> isl res))
      else isl res \<and> am_recall srv' = am_recall srv)
   \<and> (case grpc_recall E now query k' g of (res, g') \<Rightarrow>
      if fst (try_consume now (g_bucket g)) = None \<and> length query \<le> 16384 then
        \<exists>n. 1 \<le> unat n \<and> unat n \<le> 100 \<and> unat (fetch_limit n) = 4 * unat n
          \<and> g_recall g' = snd (search E query n (g_recall g))
          \<and> (case fst (search E query n (g_recall g)) of
               Inl e \<Rightarrow> res = Inl (Internal e)
             | Inr env \<Rightarrow> length (hits env) \<le> 100
                 \<and> (\<exists>hs. res = Inr (hs, \<not> is_clean (env_degraded env)) \<and> map g_doc_id hs = map hit_id (hits env)))
      else isl res \<and> g_recall g' = g_recall g)"
  (is "?A \<and> ?B")
proof
  let ?n = "clamp_top_k k" and ?m = "clamp_top_k_u32 k'"
  have len: "length (hits env) \<le> 100" if "search E query n r = (Inr env, r2)" "unat n \<le> 100" for n r env r2
    using search_length [of E query n r env] that by simp
  show ?A
  proof (cases "fst (check ''default'' (am_limiter srv)) \<and> length query \<le> 16384")
    case True
    with clamp_top_k_bounds [of k] show ?thesis
      by (auto simp: tool_recall_def check_rate_limit_def MAX_QUERY_BYTES_def
          split: prod.split sum.splits option.splits intro!: exI [of _ ?n] intro: len)
  next
    case False
    then show ?thesis
      by (auto simp: tool_recall_def check_rate_limit_def MAX_QUERY_BYTES_def split: prod.splits)
  qed
  show ?B
  proof (cases "fst (try_consume now (g_bucket g)) = None \<and> length query \<le> 16384")
    case True
    with clamp_top_k_u32_bounds [of k'] show ?thesis
      by (auto simp: grpc_recall_def check_rate_def MAX_QUERY_BYTES_def comp_def
          split: prod.split sum.splits option.splits intro!: exI [of _ ?m] intro: len)
  next
    case False
    then show ?thesis
      by (auto simp: grpc_recall_def check_rate_def MAX_QUERY_BYTES_def split: prod.splits option.splits)
  qed
qed

lemma new_bucket_facts:
  "bucket_ok (new_bucket now rpm) \<and> tokens (new_bucket now rpm) = of_nat (unat rpm)
    \<and> refill_per_ms (new_bucket now rpm) * 60000 = of_nat (unat rpm)"
proof -
  have "bucket_ok b \<and> tokens b = of_nat n \<and> refill_per_ms b * 60000 = of_nat n"
    if "b = \<lparr>tokens = of_nat n, max_tokens = of_nat n, refill_per_ms = of_nat n / 60000, last_refill = now\<rparr>"
    for n :: nat and b using that by (simp add: bucket_ok_def)
  then show ?thesis unfolding new_bucket_def Let_def by blast
qed



text \<open>None of the three listeners (health, metrics, gRPC) binds an address off the machine
  unless its own opt-in variable is set to 1, and each default address is accepted when it is a
  loopback address.\<close>

theorem listeners_stay_local:
  "list_all (\<lambda>(flag, addr). case addr of None \<Rightarrow> True | Some a \<Rightarrow> is_loopback a \<or> env_var flag env = Some ''1'')
     [(''AMORE_HEALTH_ALLOW_NETWORK'', bound (parse_health_bind parse_addr is_loopback env)),
      (''AMORE_METRICS_ALLOW_NETWORK'', bound (parse_metrics_bind parse_addr is_loopback env)),
      (''AMORE_GRPC_ALLOW_NETWORK'', bound_tcp (parse_grpc_listen parse_addr is_loopback windows env raw))]"
  using health.guarded [of parse_addr is_loopback env] prometheus.guarded [of parse_addr is_loopback env]
    grpc.guarded [of parse_addr is_loopback env "(windows, raw)"]
  by (auto split: option.splits)

text \<open>The one-time migration of the legacy data directory never happens at start-up: the
  parent of the store is created before the check that it does not exist yet, so no file of the
  legacy store is copied; called on its own, the migration would copy it.\<close>

theorem migration_never_runs:
  "dt_files (prepare_data_dir True works path T) = dt_files T
   \<and> dt_files (maybe_migrate_data_dir True [''cfg'', ''Amore'', ''amore.db'']
       \<lparr>dt_dirs = {[''cfg''], [''cfg'', ''obelion'']}, dt_files = [[''cfg'', ''obelion'', ''obelion.db''] \<mapsto> ''db'']\<rparr>)
       [''cfg'', ''Amore'', ''amore.db''] = Some ''db''"
  by (simp add: prepare_data_dir_def maybe_migrate_data_dir_def create_dir_def Let_def)

end
