(* ===== verification/DataErase.thy ===== *)
theory DataErase
  imports Config
begin

text \<open>
  The erasure of local data, \<open>crates/amore-cli/src/data.rs\<close>: the targets, the dry run, the
  deletion with its receipt, and the directory of crash dumps that
  \<open>crates/amore-core/src/diag.rs\<close> writes to.  A machine is the sets of its files and directories,
  by absolute path, of its keyring entries and of the keys of its registry.  The platform is a field of the
  directories; paths are written with \<open>/\<close> on every platform.
\<close>

datatype erase_target =
    TargetFile string
  | TargetDir string
  | TargetKeyring string string
  | TargetRegistry string

definition KEYRING_SERVICE :: string where "KEYRING_SERVICE = ''amore''"

definition KEYRING_KEYS :: "string list" where
  "KEYRING_KEYS = [''machine-key'', ''key-fingerprint'']"

fun target_label :: "erase_target \<Rightarrow> string" where
  "target_label (TargetFile p) = ''file: '' @ p"
| "target_label (TargetDir p) = ''dir:  '' @ p"
| "target_label (TargetKeyring s a) = ''keyring: '' @ s @ ''/'' @ a"
| "target_label (TargetRegistry k) = ''registry: '' @ k"

record machine =
  m_files :: "string set"
  m_dirs :: "string set"
  m_keyring :: "(string \<times> string) set"
  m_registry :: "string set"

definition path_exists :: "machine \<Rightarrow> string \<Rightarrow> bool" where
  "path_exists M p \<longleftrightarrow> p \<in> m_files M \<or> p \<in> m_dirs M"

fun target_exists :: "machine \<Rightarrow> erase_target \<Rightarrow> bool" where
  "target_exists M (TargetFile p) = path_exists M p"
| "target_exists M (TargetDir p) = path_exists M p"
| "target_exists M _ = True"

text \<open>The directories that \<open>dirs\<close> resolves, and the platform the program is built for.\<close>

record home_dirs =
  hd_config :: "string option"
  hd_data :: "string option"
  hd_cache :: "string option"
  hd_home :: "string option"
  hd_local :: "string option"
  on_windows :: bool

definition or_else :: "'a option \<Rightarrow> 'a option \<Rightarrow> 'a option" where
  "or_else a b = (case a of Some x \<Rightarrow> Some x | None \<Rightarrow> b)"

definition or_dot :: "string option \<Rightarrow> string" where
  "or_dot a = (case a of Some x \<Rightarrow> x | None \<Rightarrow> ''.'')"

definition sub :: "string \<Rightarrow> string \<Rightarrow> string" where
  "sub d x = d @ ''/'' @ x"

definition resolve_data_dir :: "environ \<Rightarrow> home_dirs \<Rightarrow> string" where
  "resolve_data_dir env H =
     (case or_else (env_var ''AMORE_DATA_DIR'' env) (env_var ''OBELION_DATA_DIR'' env) of
        Some v \<Rightarrow> v
      | None \<Rightarrow> sub (or_dot (or_else (hd_config H) (or_else (hd_data H) (hd_home H)))) ''Amore'')"

definition backslash :: string where "backslash = [CHR 0x5C]"

definition resolve_local_app_data :: "home_dirs \<Rightarrow> string" where
  "resolve_local_app_data H =
     (if on_windows H
      then (case hd_local H of
              Some d \<Rightarrow> d
            | None \<Rightarrow> ''C:'' @ backslash @ ''Users'' @ backslash @ ''Public'' @ backslash @ ''AppData'' @ backslash @ ''Local'')
      else or_dot (or_else (hd_data H) (hd_home H)))"

definition resolve_crash_dir :: "environ \<Rightarrow> home_dirs \<Rightarrow> string" where
  "resolve_crash_dir env H =
     (case env_var ''AMORE_CRASH_DIR'' env of
        Some v \<Rightarrow> v
      | None \<Rightarrow> sub (sub (resolve_local_app_data H) ''Amore'') ''crashes'')"

text \<open>Where the crash handler of \<open>diag.rs\<close> writes.\<close>

definition crash_dir :: "home_dirs \<Rightarrow> string" where
  "crash_dir H =
     (case (if on_windows H then hd_local H else None) of
        Some local \<Rightarrow> sub (sub local ''Amore'') ''crashes''
      | None \<Rightarrow> sub (sub (or_dot (hd_cache H)) ''amore'') ''crashes'')"

definition registry_key :: string where
  "registry_key = ''HKCU'' @ backslash @ ''Software'' @ backslash @ ''Amore''"

definition build_targets :: "environ \<Rightarrow> home_dirs \<Rightarrow> erase_target list" where
  "build_targets env H =
     (let data_dir = resolve_data_dir env H; local_dir = resolve_local_app_data H in
      [TargetFile (sub data_dir ''amore.db''), TargetFile (sub data_dir ''amore.db-wal''),
       TargetFile (sub data_dir ''amore.db-shm''),
       TargetDir (sub (sub (sub local_dir ''Amore'') ''qdrant'') ''storage''),
       TargetDir (sub data_dir ''wal''), TargetDir data_dir]
      @ map (TargetKeyring KEYRING_SERVICE) KEYRING_KEYS
      @ [TargetDir (resolve_crash_dir env H)]
      @ (if on_windows H then [TargetRegistry registry_key] else []))"

definition manifest_fingerprint :: "(bytes \<Rightarrow> bytes) \<Rightarrow> erase_target list \<Rightarrow> string" where
  "manifest_fingerprint sha256 targets = hex_encode (sha256 (concat (map (\<lambda>t. target_label t @ [CHR 0x0A]) targets)))"

text \<open>The lines the dry run prints; \<open>{n:>3}\<close> pads with spaces on the left.\<close>

definition pad3 :: "nat \<Rightarrow> string" where
  "pad3 n = replicate (3 - length (dec_nat n)) CHR '' '' @ dec_nat n"

definition em_dash :: string where "em_dash = [CHR 0xE2, CHR 0x80, CHR 0x94]"

definition dry_lines :: "erase_target list \<Rightarrow> string list" where
  "dry_lines found = map (\<lambda>(n, t). ''  ['' @ pad3 n @ ''] '' @ target_label t) (enumerate 0 found)"

definition cmd_data_erase_dry :: "machine \<Rightarrow> erase_target list \<Rightarrow> string list" where
  "cmd_data_erase_dry M targets =
     (let found = filter (target_exists M) targets in
      (''Amore data-erasure dry run '' @ em_dash @ '' would delete:'') # dry_lines found
      @ (if found = [] then [''  (nothing to delete '' @ em_dash @ '' no Amore data found on this system)'']
         else [[CHR 0x0A] @ ''Run with --confirm to permanently erase '' @ dec_nat (length found)
               @ '' item(s). This action is IRREVERSIBLE.'']))"

record receipt =
  files_deleted :: nat
  dirs_deleted :: nat
  keyring_deleted :: nat
  registry_deleted :: nat
  erase_errors :: "string list"

definition empty_receipt :: receipt where
  "empty_receipt = \<lparr>files_deleted = 0, dirs_deleted = 0, keyring_deleted = 0, registry_deleted = 0, erase_errors = []\<rparr>"

text \<open>\<open>remove_dir_all\<close> takes what lies under a directory with it.\<close>

definition under :: "string \<Rightarrow> string \<Rightarrow> bool" where
  "under d p \<longleftrightarrow> p = d \<or> starts_with p (d @ ''/'')"

text \<open>What the system may answer.  A removal can fail with an error text; when a directory is removed, a part of
  what lies under it may be gone by then.  A path of the wrong kind always fails.  An entry of the keyring may not be
  accessible: the error is the list of its contexts, the outermost first, ending in its cause.  \<open>reg delete\<close> ends with
  success, or with a text on its error output, or cannot be spawned.\<close>

datatype reg_reply =
    RegDone
  | RegFailed string
  | RegNoSpawn string

record erase_faults =
  ef_remove :: "string \<Rightarrow> string option"
  ef_remove_dir :: "string \<Rightarrow> (string \<times> string set) option"
  ef_wrong_kind :: "string \<Rightarrow> string"
  ef_keyring :: "string \<Rightarrow> string \<Rightarrow> string list option"
  ef_reg :: "string \<Rightarrow> bool \<Rightarrow> reg_reply"

text \<open>\<open>{e:#}\<close> joins the contexts, \<open>to_string\<close> shows the outermost only.\<close>

fun error_chain :: "string list \<Rightarrow> string" where
  "error_chain [] = []"
| "error_chain [e] = e"
| "error_chain (e # es) = e @ '': '' @ error_chain es"

definition add_error :: "string \<Rightarrow> receipt \<Rightarrow> receipt" where
  "add_error e R = R\<lparr>erase_errors := erase_errors R @ [e]\<rparr>"

text \<open>Deleting an entry that is not there fails with \<open>NoEntry\<close>, whose text is the library's.\<close>

definition keyring_delete :: "erase_faults \<Rightarrow> string \<Rightarrow> string \<Rightarrow> machine \<Rightarrow> string list + machine" where
  "keyring_delete F s a M =
     (case ef_keyring F s a of
        Some chain \<Rightarrow> Inl chain
      | None \<Rightarrow>
          (if (s, a) \<in> m_keyring M then Inr (M\<lparr>m_keyring := m_keyring M - {(s, a)}\<rparr>)
           else Inl [''keyring delete'', ''No matching entry found in secure storage'']))"

definition erase_registry_key :: "erase_faults \<Rightarrow> string \<Rightarrow> receipt \<times> machine \<Rightarrow> receipt \<times> machine" where
  "erase_registry_key F key = (\<lambda>(R, M).
     case ef_reg F key (key \<in> m_registry M) of
       RegDone \<Rightarrow> (R\<lparr>registry_deleted := Suc (registry_deleted R)\<rparr>, M\<lparr>m_registry := m_registry M - {key}\<rparr>)
     | RegFailed err \<Rightarrow>
         (if contains_str err ''system cannot find'' \<or> contains_str err ''ERROR: The system cannot find'' then (R, M)
          else (add_error (''registry '' @ key @ '': '' @ err) R, M))
     | RegNoSpawn e \<Rightarrow> (add_error (''registry '' @ key @ '': spawn reg.exe: '' @ e) R, M))"

fun erase_one :: "bool \<Rightarrow> erase_faults \<Rightarrow> erase_target \<Rightarrow> receipt \<times> machine \<Rightarrow> receipt \<times> machine" where
  "erase_one win F (TargetFile p) (R, M) =
     (if path_exists M p then
        (case (if p \<in> m_dirs M then Some (ef_wrong_kind F p) else ef_remove F p) of
           None \<Rightarrow> (R\<lparr>files_deleted := Suc (files_deleted R)\<rparr>, M\<lparr>m_files := m_files M - {p}\<rparr>)
         | Some e \<Rightarrow> (add_error (error_chain [''remove file '' @ p, e]) R, M))
      else (R, M))"
| "erase_one win F (TargetDir p) (R, M) =
     (if path_exists M p then
        (case (if p \<notin> m_dirs M then Some (ef_wrong_kind F p, {}) else ef_remove_dir F p) of
           None \<Rightarrow> (R\<lparr>dirs_deleted := Suc (dirs_deleted R)\<rparr>,
                    M\<lparr>m_files := {q \<in> m_files M. \<not> under p q}, m_dirs := {q \<in> m_dirs M. \<not> under p q}\<rparr>)
         | Some (e, gone) \<Rightarrow>
             (add_error (error_chain [''remove dir '' @ p, e]) R,
              M\<lparr>m_files := {q \<in> m_files M. under p q \<longrightarrow> q \<notin> gone}, m_dirs := {q \<in> m_dirs M. under p q \<longrightarrow> q \<notin> gone}\<rparr>))
      else (R, M))"
| "erase_one win F (TargetKeyring s a) (R, M) =
     (case keyring_delete F s a M of
        Inr M' \<Rightarrow> (R\<lparr>keyring_deleted := Suc (keyring_deleted R)\<rparr>, M')
      | Inl chain \<Rightarrow>
          (let msg = hd chain in
           if \<not> contains_str msg ''NoEntry'' \<and> \<not> contains_str msg ''no entry''
           then (add_error (''keyring '' @ s @ ''/'' @ a @ '': '' @ error_chain chain) R, M)
           else (R, M)))"
| "erase_one win F (TargetRegistry k) (R, M) = (if win then erase_registry_key F k (R, M) else (R, M))"

text \<open>What goes to the error output: the receipt, then the errors.\<close>

definition receipt_text :: "string \<Rightarrow> receipt \<Rightarrow> string" where
  "receipt_text fingerprint R =
     ''[amore data erase] GDPR erasure receipt:'' @ [CHR 0x0A]
     @ ''files='' @ dec_nat (files_deleted R) @ '' dirs='' @ dec_nat (dirs_deleted R)
     @ '' keyring='' @ dec_nat (keyring_deleted R) @ '' registry='' @ dec_nat (registry_deleted R)
     @ '' errors='' @ dec_nat (length (erase_errors R)) @ [CHR 0x0A]
     @ ''pre-deletion manifest SHA-256: '' @ fingerprint"

definition cmd_data_erase ::
  "(bytes \<Rightarrow> bytes) \<Rightarrow> bool \<Rightarrow> erase_faults \<Rightarrow> erase_target list \<Rightarrow> machine
    \<Rightarrow> string list \<times> (string + unit) \<times> machine" where
  "cmd_data_erase sha256 win F targets M =
     (let fingerprint = manifest_fingerprint sha256 targets;
          (R, M') = fold (erase_one win F) targets (empty_receipt, M)
      in (receipt_text fingerprint R # map (\<lambda>e. ''[amore data erase] ERROR: '' @ e) (erase_errors R),
          if erase_errors R \<noteq> [] then Inl (''data erase completed with '' @ dec_nat (length (erase_errors R)) @ '' error(s)'')
          else Inr (),
          M'))"

definition run_data_erase ::
  "(bytes \<Rightarrow> bytes) \<Rightarrow> erase_faults \<Rightarrow> bool \<Rightarrow> environ \<Rightarrow> home_dirs \<Rightarrow> machine
    \<Rightarrow> string list \<times> (string + unit) \<times> machine" where
  "run_data_erase sha256 F confirm env H M =
     (if confirm then cmd_data_erase sha256 (on_windows H) F (build_targets env H) M
      else (cmd_data_erase_dry M (build_targets env H), Inr (), M))"

text \<open>The entry that holds the key of the write-ahead log.\<close>

definition wal_keyring_entry :: "string \<times> string" where
  "wal_keyring_entry = (''amore'', ''wal-hmac-key'')"

section \<open>Lemmas\<close>

lemma under_trans: "under a b \<Longrightarrow> under b c \<Longrightarrow> under a c"
  by (auto simp: under_def starts_with_iff_prefix prefix_def)

fun covers :: "erase_target \<Rightarrow> string \<Rightarrow> bool" where
  "covers (TargetFile p) q = (q = p)"
| "covers (TargetDir d) q = under d q"
| "covers _ q = False"

text \<open>A file target is no directory, a directory target no file, and a directory with files in it
  exists.\<close>

fun tidy :: "machine \<Rightarrow> erase_target \<Rightarrow> bool" where
  "tidy M (TargetFile p) = (p \<notin> m_dirs M)"
| "tidy M (TargetDir d) = (d \<notin> m_files M \<and> (\<forall>q \<in> m_files M. under d q \<longrightarrow> d \<in> m_dirs M))"
| "tidy M _ = True"

definition smooth :: "erase_faults \<Rightarrow> bool" where
  "smooth F \<longleftrightarrow> (\<forall>p. ef_remove F p = None) \<and> (\<forall>p. ef_remove_dir F p = None) \<and> (\<forall>s a. ef_keyring F s a = None)"

text \<open>The answers of \<open>reg delete\<close> that count as no error.\<close>

definition reg_quiet :: "erase_faults \<Rightarrow> string \<Rightarrow> bool \<Rightarrow> bool" where
  "reg_quiet F k there \<longleftrightarrow>
     (case ef_reg F k there of
        RegDone \<Rightarrow> True
      | RegFailed err \<Rightarrow> contains_str err ''system cannot find'' \<or> contains_str err ''ERROR: The system cannot find''
      | RegNoSpawn e \<Rightarrow> False)"

lemma keyring_error_shown: "\<not> contains_str ''keyring delete'' ''NoEntry'' \<and> \<not> contains_str ''keyring delete'' ''no entry''"
  by (simp add: starts_with_def)

lemma erase_one_step:
  assumes "tidy M t" and "smooth F"
  shows "let (R', M') = erase_one win F t (R, M) in
     m_files M' = {q \<in> m_files M. \<not> covers t q}
     \<and> m_dirs M' \<subseteq> m_dirs M \<and> (\<forall>d \<in> m_dirs M. d \<notin> m_dirs M' \<longrightarrow> covers t d \<and> (\<exists>p. t = TargetDir p))
     \<and> m_keyring M' = m_keyring M - {(s, a). t = TargetKeyring s a}
     \<and> m_registry M' = m_registry M - {k. t = TargetRegistry k \<and> win \<and> ef_reg F k (k \<in> m_registry M) = RegDone}
     \<and> (erase_errors R' = [] \<longleftrightarrow> erase_errors R = [] \<and> (\<forall>s a. t = TargetKeyring s a \<longrightarrow> (s, a) \<in> m_keyring M)
          \<and> (\<forall>k. t = TargetRegistry k \<longrightarrow> win \<longrightarrow> reg_quiet F k (k \<in> m_registry M)))"
proof (cases t)
  case (TargetFile p)
  then show ?thesis using assms by (auto simp: path_exists_def smooth_def)
next
  case (TargetDir d)
  have "under d d" by (simp add: under_def)
  then show ?thesis using assms TargetDir by (auto simp: path_exists_def smooth_def)
next
  case (TargetKeyring s a)
  then show ?thesis using keyring_error_shown assms by (auto simp: keyring_delete_def Let_def smooth_def add_error_def)
next
  case (TargetRegistry k)
  then show ?thesis by (auto simp: erase_registry_key_def add_error_def reg_quiet_def split: reg_reply.splits)
qed

lemma tidy_step:
  assumes "tidy M t" and "tidy M u" and "erase_one win F t (R, M) = (R', M')" and "smooth F"
  shows "tidy M' u"
proof -
  note st = erase_one_step [OF assms(1,4), of win R, unfolded assms(3) Let_def, simplified]
  show ?thesis
  proof (cases u)
    case (TargetFile p)
    with st assms(2) show ?thesis by auto
  next
    case (TargetDir d)
    have "d \<in> m_dirs M'" if q: "q \<in> m_files M'" "under d q" for q
    proof (rule ccontr)
      assume n: "d \<notin> m_dirs M'"
      from q st TargetDir assms(2) have "d \<in> m_dirs M" by auto
      with n st obtain p where "t = TargetDir p" "under p d" by auto
      with q(2) have "covers t q" by (auto dest: under_trans)
      with q(1) st show False by auto
    qed
    with st assms(2) TargetDir show ?thesis by auto
  qed simp_all
qed

definition is_single :: "erase_target \<Rightarrow> bool" where
  "is_single t \<longleftrightarrow> (case t of TargetFile p \<Rightarrow> False | TargetDir p \<Rightarrow> False | TargetKeyring s a \<Rightarrow> True | TargetRegistry k \<Rightarrow> True)"

lemma erase_all:
  assumes "\<forall>t \<in> set ts. tidy M t" and "distinct (filter is_single ts)" and "smooth F"
  shows "let (R', M') = fold (erase_one win F) ts (R, M) in
     m_files M' = {q \<in> m_files M. \<forall>t \<in> set ts. \<not> covers t q}
     \<and> m_keyring M' = m_keyring M - {(s, a). TargetKeyring s a \<in> set ts}
     \<and> m_registry M' = m_registry M - {k. TargetRegistry k \<in> set ts \<and> win \<and> ef_reg F k (k \<in> m_registry M) = RegDone}
     \<and> (erase_errors R' = [] \<longleftrightarrow>
          erase_errors R = [] \<and> (\<forall>s a. TargetKeyring s a \<in> set ts \<longrightarrow> (s, a) \<in> m_keyring M)
          \<and> (\<forall>k. TargetRegistry k \<in> set ts \<longrightarrow> win \<longrightarrow> reg_quiet F k (k \<in> m_registry M)))"
  using assms(1,2)
proof (induction ts arbitrary: R M)
  case (Cons t ts)
  obtain R1 M1 where o: "erase_one win F t (R, M) = (R1, M1)"
    by (cases "erase_one win F t (R, M)")
  have t: "tidy M t" using Cons.prems(1) by simp
  note st = erase_one_step [OF t assms(3), of win R, unfolded o Let_def, simplified]
  have tidy: "\<forall>u \<in> set ts. tidy M1 u" using tidy_step [OF t _ o assms(3)] Cons.prems(1) by simp
  have k: "TargetKeyring s a \<in> set ts \<Longrightarrow> t \<noteq> TargetKeyring s a" for s a
    using Cons.prems(2) by (auto simp: is_single_def)
  have r: "TargetRegistry k \<in> set ts \<Longrightarrow> t \<noteq> TargetRegistry k" for k
    using Cons.prems(2) by (auto simp: is_single_def)
  have "distinct (filter is_single ts)" using Cons.prems(2) by (simp split: if_splits)
  note ih = Cons.IH [OF tidy this, of R1]
  have "TargetRegistry k \<in> set ts \<Longrightarrow> k \<in> m_registry M1 \<longleftrightarrow> k \<in> m_registry M" for k
    using st r [of k] by auto
  then show ?case using ih st k r by (auto simp: o Let_def split: prod.splits)
qed simp

text \<open>No more is erased, or fails, than the dry run lists: whatever the system answers, a target that is counted was
  there at the start.\<close>

definition erase_outcomes :: "receipt \<Rightarrow> nat" where
  "erase_outcomes R = files_deleted R + dirs_deleted R + keyring_deleted R + registry_deleted R + length (erase_errors R)"

lemma erase_one_outcomes:
  assumes "erase_one win F t (R, M) = (R', M')"
  shows "erase_outcomes R' \<le> erase_outcomes R + (if target_exists M t then 1 else 0)"
    and "m_files M' \<subseteq> m_files M" and "m_dirs M' \<subseteq> m_dirs M"
  using assms
  by (cases t; auto simp: erase_outcomes_def add_error_def erase_registry_key_def keyring_delete_def Let_def
      split: if_splits option.splits sum.splits reg_reply.splits prod.splits)+

lemma erased_within_dry_run:
  assumes "fold (erase_one win F) ts (R, M) = (R', M')"
  shows "erase_outcomes R' \<le> erase_outcomes R + length (filter (target_exists M) ts)"
  using assms
proof (induction ts arbitrary: R M)
  case (Cons t ts)
  obtain R1 M1 where o: "erase_one win F t (R, M) = (R1, M1)"
    by (cases "erase_one win F t (R, M)")
  note st = erase_one_outcomes [OF o]
  have "target_exists M1 u \<Longrightarrow> target_exists M u" for u
    using st(2,3) by (cases u) (auto simp: path_exists_def)
  then have "length (filter (target_exists M1) ts) \<le> length (filter (target_exists M) ts)"
    by (induction ts) auto
  moreover have "erase_outcomes R' \<le> erase_outcomes R1 + length (filter (target_exists M1) ts)"
    using Cons.IH [of R1 M1] Cons.prems o by simp
  ultimately show ?case using st(1) by (auto split: if_splits)
qed simp

lemma dry_run_lists:
  "length (dry_lines found) = length found"
  by (simp add: dry_lines_def)

lemma under_sub: "under d (sub d x)"
  by (simp add: under_def sub_def starts_with_iff_prefix)

lemma build_targets_covers:
  "(\<forall>t \<in> set (build_targets env H). \<not> covers t q) \<longleftrightarrow>
    \<not> under (resolve_data_dir env H) q
    \<and> \<not> under (sub (sub (sub (resolve_local_app_data H) ''Amore'') ''qdrant'') ''storage'') q
    \<and> \<not> under (resolve_crash_dir env H) q"
  by (auto simp: build_targets_def Let_def intro: under_sub under_trans)

lemma build_targets_keyring:
  "TargetKeyring s a \<in> set (build_targets env H) \<longleftrightarrow> s = ''amore'' \<and> a \<in> {''machine-key'', ''key-fingerprint''}"
  by (auto simp: build_targets_def Let_def KEYRING_SERVICE_def KEYRING_KEYS_def)

lemma build_targets_registry:
  "TargetRegistry k \<in> set (build_targets env H) \<longleftrightarrow> on_windows H \<and> k = registry_key"
  by (auto simp: build_targets_def Let_def)

lemma build_targets_single: "distinct (filter is_single (build_targets env H))"
  by (simp add: build_targets_def Let_def is_single_def KEYRING_KEYS_def)

text \<open>On Windows the dumps lie where the erasure looks for them, unless \<open>AMORE_CRASH_DIR\<close> says otherwise.\<close>

lemma crash_dumps_on_windows:
  assumes "on_windows H" and "hd_local H = Some d" and "env_var ''AMORE_CRASH_DIR'' env = None"
  shows "resolve_crash_dir env H = crash_dir H"
  using assms by (simp add: resolve_crash_dir_def crash_dir_def resolve_local_app_data_def)

section \<open>Properties\<close>

text \<open>C38: where no removal fails, \<open>amore data erase --confirm\<close> removes exactly the files under the
  data directory, the vector storage and the directory of crash dumps it knows, the two keyring entries it names and,
  on Windows, the registry key; it reports success exactly when both entries were there (and \<open>reg\<close> answered well),
  because the benign missing entry is looked for in a message that never names it.  The entry that holds the
  key of the write-ahead log is not among them and stays.  The dry run changes nothing.\<close>

theorem erase_effect:
  assumes "\<forall>t \<in> set (build_targets env H). tidy M t" and "smooth F"
  shows "let (out, res, M') = run_data_erase sha256 F True env H M in
     m_files M' = {q \<in> m_files M. \<not> under (resolve_data_dir env H) q
        \<and> \<not> under (sub (sub (sub (resolve_local_app_data H) ''Amore'') ''qdrant'') ''storage'') q
        \<and> \<not> under (resolve_crash_dir env H) q}
     \<and> m_keyring M' = m_keyring M - {(''amore'', ''machine-key''), (''amore'', ''key-fingerprint'')}
     \<and> m_registry M' = m_registry M - {k. k = registry_key \<and> on_windows H \<and> ef_reg F k (k \<in> m_registry M) = RegDone}
     \<and> (wal_keyring_entry \<in> m_keyring M' \<longleftrightarrow> wal_keyring_entry \<in> m_keyring M)
     \<and> (isl res \<longleftrightarrow> \<not> ({(''amore'', ''machine-key''), (''amore'', ''key-fingerprint'')} \<subseteq> m_keyring M
          \<and> (on_windows H \<longrightarrow> reg_quiet F registry_key (registry_key \<in> m_registry M))))
     \<and> snd (run_data_erase sha256 F False env H M) = (Inr (), M)"
proof -
  obtain R' M' where f: "fold (erase_one (on_windows H) F) (build_targets env H) (empty_receipt, M) = (R', M')"
    using prod.exhaust by metis
  note all = erase_all [OF assms(1) build_targets_single assms(2), of "on_windows H" empty_receipt, unfolded f Let_def prod.case]
  have gone: "{(s, a). TargetKeyring s a \<in> set (build_targets env H)}
      = {(''amore'', ''machine-key''), (''amore'', ''key-fingerprint'')}"
    by (auto simp: build_targets_keyring)
  have ok: "erase_errors R' = [] \<longleftrightarrow> {(''amore'', ''machine-key''), (''amore'', ''key-fingerprint'')} \<subseteq> m_keyring M
      \<and> (on_windows H \<longrightarrow> reg_quiet F registry_key (registry_key \<in> m_registry M))"
    using all by (auto simp: build_targets_keyring build_targets_registry empty_receipt_def)
  have res: "m_keyring M' = m_keyring M - {(''amore'', ''machine-key''), (''amore'', ''key-fingerprint'')}"
      "m_files M' = {q \<in> m_files M. \<forall>t \<in> set (build_targets env H). \<not> covers t q}"
      "m_registry M' = m_registry M - {k. k = registry_key \<and> on_windows H \<and> ef_reg F k (k \<in> m_registry M) = RegDone}"
    using all unfolding gone build_targets_registry by auto
  show ?thesis
    unfolding run_data_erase_def cmd_data_erase_def Let_def f prod.case if_True res build_targets_covers
    using ok by (simp add: wal_keyring_entry_def res)
qed

text \<open>The crash dumps of a Linux machine and the key of the log survive an erasure.\<close>

definition quiet_system :: erase_faults where
  "quiet_system = \<lparr>ef_remove = (\<lambda>_. None), ef_remove_dir = (\<lambda>_. None), ef_wrong_kind = (\<lambda>_. []),
     ef_keyring = (\<lambda>_ _. None), ef_reg = (\<lambda>_ _. RegDone)\<rparr>"

theorem erase_effect_witness:
  "let M = \<lparr>m_files = {''/d/amore.db'', ''/c/amore/crashes/1.dmp''}, m_dirs = {''/d''}, m_keyring = {wal_keyring_entry}, m_registry = {}\<rparr>;
       H = \<lparr>hd_config = None, hd_data = Some ''/s'', hd_cache = Some ''/c'', hd_home = None, hd_local = None, on_windows = False\<rparr>;
       (out, res, M') = run_data_erase (\<lambda>b. b) quiet_system True [(''AMORE_DATA_DIR'', ''/d'')] H M
   in isl res \<and> m_files M' = {''/c/amore/crashes/1.dmp''} \<and> wal_keyring_entry \<in> m_keyring M'
     \<and> under (crash_dir H) ''/c/amore/crashes/1.dmp''"
proof -
  let ?M = "\<lparr>m_files = {''/d/amore.db'', ''/c/amore/crashes/1.dmp''}, m_dirs = {''/d''}, m_keyring = {wal_keyring_entry}, m_registry = {}\<rparr>"
  let ?H = "\<lparr>hd_config = None, hd_data = Some ''/s'', hd_cache = Some ''/c'', hd_home = None, hd_local = None, on_windows = False\<rparr>"
  let ?env = "[(''AMORE_DATA_DIR'', ''/d'')]"
  have dirs: "resolve_data_dir ?env ?H = ''/d''" "resolve_crash_dir ?env ?H = ''/s/Amore/crashes''"
      "resolve_local_app_data ?H = ''/s''"
    by (simp_all add: resolve_data_dir_def resolve_crash_dir_def resolve_local_app_data_def or_else_def or_dot_def
        env_var_def sub_def)
  have tidy: "\<forall>t \<in> set (build_targets ?env ?H). tidy ?M t"
    by (simp add: build_targets_def dirs Let_def KEYRING_KEYS_def sub_def under_def starts_with_def)
  have smooth: "smooth quiet_system" by (simp add: smooth_def quiet_system_def)
  note effect = erase_effect [OF tidy smooth, of "\<lambda>b. b", unfolded dirs]
  obtain out res M' where run: "run_data_erase (\<lambda>b. b) quiet_system True ?env ?H ?M = (out, res, M')"
    by (rule prod_cases3)
  have u: "under ''/d'' ''/d/amore.db''" "\<not> under ''/d'' ''/c/amore/crashes/1.dmp''"
      "\<not> under (sub (sub (sub ''/s'' ''Amore'') ''qdrant'') ''storage'') ''/c/amore/crashes/1.dmp''"
      "\<not> under ''/s/Amore/crashes'' ''/c/amore/crashes/1.dmp''"
      "under (crash_dir ?H) ''/c/amore/crashes/1.dmp''"
    by (simp_all add: under_def sub_def starts_with_def crash_dir_def or_dot_def)
  from effect have f: "m_files M' = {q \<in> {''/d/amore.db'', ''/c/amore/crashes/1.dmp''}. \<not> under ''/d'' q
        \<and> \<not> under (sub (sub (sub ''/s'' ''Amore'') ''qdrant'') ''storage'') q
        \<and> \<not> under ''/s/Amore/crashes'' q}"
      and k: "wal_keyring_entry \<in> m_keyring M' \<longleftrightarrow> wal_keyring_entry \<in> {wal_keyring_entry}"
      and r: "isl res \<longleftrightarrow> \<not> {(''amore'', ''machine-key''), (''amore'', ''key-fingerprint'')} \<subseteq> {wal_keyring_entry}"
    unfolding run Let_def prod.case by (simp_all add: wal_keyring_entry_def)
  have "m_files M' = {''/c/amore/crashes/1.dmp''}" unfolding f using u(1-4) by blast
  moreover have "isl res" unfolding r by (simp add: wal_keyring_entry_def)
  ultimately show ?thesis unfolding Let_def run prod.case using k u(5) by simp
qed

end
