(* ===== verification/Update.thy ===== *)
theory Update
  imports DataErase
begin

text \<open>
  The self-update of \<open>crates/amore-cli/src/update.rs\<close>: the daily gate, the check and the
  confirmation before the binary is replaced.  The release server, the comparison of versions and
  the installation are parameters; time is in seconds.
\<close>

datatype update_status = Disabled | UpToDate | Available string | TooSoon

definition CHECK_INTERVAL_SECS :: nat where "CHECK_INTERVAL_SECS = 60 * 60 * 24"

definition timestamp_path :: "home_dirs \<Rightarrow> string" where
  "timestamp_path H =
     (case (if on_windows H then hd_local H else None) of
        Some local \<Rightarrow> sub (sub local ''Amore'') ''.last-update-check''
      | None \<Rightarrow> sub (sub (or_dot (hd_cache H)) ''amore'') ''.last-update-check'')"

text \<open>\<open>stamp\<close> is the content of the timestamp file, if it can be read.\<close>

definition cooldown_elapsed :: "nat \<Rightarrow> string option \<Rightarrow> bool" where
  "cooldown_elapsed now stamp =
     (case stamp of
        Some s \<Rightarrow> (let stored = (case parse_u64 (trim s) of Some n \<Rightarrow> unat n | None \<Rightarrow> 0) in
                  CHECK_INTERVAL_SECS \<le> now - stored)
      | None \<Rightarrow> True)"

definition write_timestamp :: "bool \<Rightarrow> nat \<Rightarrow> string option \<Rightarrow> string option" where
  "write_timestamp writable now stamp = (if writable then Some (dec_nat now) else stamp)"

definition resolve_repo :: "environ \<Rightarrow> string \<times> string" where
  "resolve_repo env =
     (case env_var ''AMORE_UPDATE_REPO'' env of
        Some r \<Rightarrow> (if CHR ''/'' \<in> set r
                  then (takeWhile (\<lambda>c. c \<noteq> CHR ''/'') r, tl (dropWhile (\<lambda>c. c \<noteq> CHR ''/'') r))
                  else (''antonio-amore-akiki'', ''amore''))
      | None \<Rightarrow> (''antonio-amore-akiki'', ''amore''))"

text \<open>\<open>fetch\<close>: the version of the latest release; \<open>newer\<close>: \<open>bump_is_greater\<close>.  The result comes
  with the timestamp file afterwards; \<open>writable\<close>: whether it can be written.\<close>

definition check_for_update ::
  "(string \<Rightarrow> string \<Rightarrow> string + string) \<Rightarrow> (string \<Rightarrow> string \<Rightarrow> bool option) \<Rightarrow> string \<Rightarrow> bool \<Rightarrow> environ \<Rightarrow> nat
    \<Rightarrow> string option \<Rightarrow> (string + update_status) \<times> string option" where
  "check_for_update fetch newer current writable env now stamp =
     (if env_var ''AMORE_NO_AUTOUPDATE'' env = Some ''1'' then (Inr Disabled, stamp)
      else if \<not> cooldown_elapsed now stamp then (Inr TooSoon, stamp)
      else let (owner, repo) = resolve_repo env in
        (case fetch owner repo of
           Inl e \<Rightarrow> (Inl e, stamp)
         | Inr version \<Rightarrow>
             (let latest = dropWhile (\<lambda>c. c = CHR ''v'') version;
                  status = (if newer current latest = Some True then Available latest else UpToDate)
              in (Inr status, write_timestamp writable now stamp))))"

datatype apply_result = NoUpdate | TrayPending | Skipped | Updated string

text \<open>\<open>install\<close> replaces the binary or fails.\<close>

definition apply_update ::
  "('b \<Rightarrow> string + 'b) \<Rightarrow> update_status \<Rightarrow> bool \<Rightarrow> string \<Rightarrow> 'b \<Rightarrow> (string + apply_result) \<times> 'b" where
  "apply_update install status gui answer bin =
     (case status of
        Available version \<Rightarrow>
          if gui then (Inr TrayPending, bin)
          else if to_lowercase (trim answer) \<noteq> ''y'' then (Inr Skipped, bin)
          else (case install bin of Inl e \<Rightarrow> (Inl e, bin) | Inr bin' \<Rightarrow> (Inr (Updated version), bin'))
      | _ \<Rightarrow> (Inr NoUpdate, bin))"

text \<open>\<open>amore update apply\<close>: a check, then the application of its result.\<close>

definition cmd_update_apply ::
  "(string \<Rightarrow> string \<Rightarrow> string + string) \<Rightarrow> (string \<Rightarrow> string \<Rightarrow> bool option) \<Rightarrow> ('b \<Rightarrow> string + 'b) \<Rightarrow> string
    \<Rightarrow> bool \<Rightarrow> environ \<Rightarrow> nat \<Rightarrow> string \<Rightarrow> string option \<times> 'b \<Rightarrow> (string + apply_result) \<times> string option \<times> 'b" where
  "cmd_update_apply fetch newer install current writable env now answer st =
     (case check_for_update fetch newer current writable env now (fst st) of
        (Inl e, stamp) \<Rightarrow> (Inl e, stamp, snd st)
      | (Inr status, stamp) \<Rightarrow>
          (let (r, bin) = apply_update install status False answer (snd st) in (r, stamp, bin)))"

section \<open>Lemmas\<close>

lemma digit_not_ws: "is_digit c \<Longrightarrow> \<not> is_ws c \<and> c \<noteq> CHR ''+''"
  by (auto simp: is_digit_def is_ws_def Let_def)

lemma trim_digits: "list_all is_digit s \<Longrightarrow> trim s = s"
proof -
  assume d: "list_all is_digit s"
  then have "dropWhile is_ws s = s"
    by (cases s) (auto simp: digit_not_ws)
  moreover have "dropWhile is_ws (rev s) = rev s"
    using d by (cases "rev s") (auto simp: list_all_iff digit_not_ws dropWhile_eq_self_iff)
  ultimately show ?thesis by (simp add: trim_def trim_start_def trim_end_def)
qed

lemma parse_dec_nat:
  assumes "n < 2 ^ 64"
  shows "parse_u64 (trim (dec_nat n)) = Some (of_nat n)"
proof -
  have "(case dec_nat n of [] \<Rightarrow> [] | c # r \<Rightarrow> if c = CHR ''+'' then r else dec_nat n) = dec_nat n"
    using dec_nat_digits [of n] by (auto split: list.split dest: digit_not_ws)
  then show ?thesis
    using dec_nat_digits [of n] dec_nat_nonempty [of n] assms
    by (simp add: trim_digits parse_u64_def parse_uint_def Let_def digits_val_dec_nat)
qed

section \<open>Properties\<close>

text \<open>A check that reached the release server and recorded its time closes the gate for a
  day: for the next 24 hours a check does not go out and changes nothing, and \<open>amore update apply\<close>
  installs nothing, whatever the user answers and however new the release is; and a check that
  fails records nothing, so it is repeated at once.\<close>

theorem update_check_gated:
  assumes "check_for_update fetch newer current True env now stamp = (Inr status, stamp')"
    and "status \<notin> {Disabled, TooSoon}" and "now < 2 ^ 64" and "later < now + 86400"
  shows "check_for_update fetch' newer' current' w env later stamp' = (Inr TooSoon, stamp')
    \<and> cmd_update_apply fetch' newer' install current' w env later answer (stamp', bin) = (Inr NoUpdate, stamp', bin)
    \<and> (\<forall>e. fetch (fst (resolve_repo env)) (snd (resolve_repo env)) \<noteq> Inl e)"
proof -
  from assms(1,2) have env: "env_var ''AMORE_NO_AUTOUPDATE'' env \<noteq> Some ''1''" and s: "stamp' = Some (dec_nat now)"
    and ok: "\<forall>e. fetch (fst (resolve_repo env)) (snd (resolve_repo env)) \<noteq> Inl e"
    by (auto simp: check_for_update_def write_timestamp_def Let_def split: if_splits prod.splits sum.splits)
  have "\<not> cooldown_elapsed later stamp'"
    using assms(3,4) by (simp add: cooldown_elapsed_def s parse_dec_nat CHECK_INTERVAL_SECS_def unsigned_of_nat take_bit_nat_eq_self)
  with env have "check_for_update fetch' newer' current' w env later stamp' = (Inr TooSoon, stamp')"
    by (simp add: check_for_update_def)
  with ok show ?thesis by (simp add: cmd_update_apply_def apply_update_def)
qed

theorem update_check_gated_witness:
  "check_for_update (\<lambda>_ _. Inr ''v9'') (\<lambda>_ _. Some True) ''1'' True [] 100001 (Some (dec_nat 100000)) = (Inr TooSoon, Some (dec_nat 100000))"
proof -
  have "check_for_update (\<lambda>_ _. Inr ''v2'') (\<lambda>_ _. Some True) ''1'' True [] 100000 None
      = (Inr (Available ''2''), Some (dec_nat 100000))"
    by (simp add: check_for_update_def write_timestamp_def env_var_def cooldown_elapsed_def resolve_repo_def)
  then show ?thesis by (rule update_check_gated [THEN conjunct1]) simp_all
qed

end
