(* ===== verification/Snapshot.thy ===== *)
theory Snapshot
  imports Json
begin

text \<open>
  Snapshots, \<open>crates/amore-cli/src/commands/snapshot/\<close> (\<open>mod.rs\<close>, \<open>archive.rs\<close>, \<open>qdrant.rs\<close>).
  A directory is the map of its file names to contents; the archive format, SHA-256, the JSON
  parser, SQLite's \<open>VACUUM INTO\<close> and the REST interface of Qdrant are parameters, and so is which step of the
  file system fails.  The temporary directory of a run is part of the state: it is kept when the run fails.
\<close>

type_synonym directory = "string \<rightharpoonup> bytes"

definition SQLITE_INNER_NAME :: string where "SQLITE_INNER_NAME = ''amore.db''"

section \<open>The archive and its checksum\<close>

definition path_file_name :: "string \<Rightarrow> string" where
  "path_file_name p = last (split_on (\<lambda>c. c = CHR ''/'') p)"

text \<open>\<open>set_extension\<close> with the old extension in front; a name without one ends in two dots.\<close>

definition sidecar_path :: "string \<Rightarrow> string" where
  "sidecar_path p = (if CHR ''.'' \<in> set (tl (path_file_name p)) then p @ ''.sha256'' else p @ ''..sha256'')"

definition sha256_hex :: "(bytes \<Rightarrow> bytes) \<Rightarrow> bytes \<Rightarrow> string" where
  "sha256_hex sha256 b = hex_encode (sha256 b)"

definition write_sha256_sidecar :: "(bytes \<Rightarrow> bytes) \<Rightarrow> string \<Rightarrow> directory \<Rightarrow> string + directory" where
  "write_sha256_sidecar sha256 archive D =
     (case D archive of
        None \<Rightarrow> Inl ''open archive for hashing''
      | Some b \<Rightarrow> Inr (D(sidecar_path archive \<mapsto>
          sha256_hex sha256 b @ ''  '' @ path_file_name archive @ [CHR 0x0A])))"

definition verify_sha256_sidecar :: "(bytes \<Rightarrow> bytes) \<Rightarrow> string \<Rightarrow> directory \<Rightarrow> string + unit" where
  "verify_sha256_sidecar sha256 archive D =
     (case D (sidecar_path archive) of
        None \<Rightarrow> Inl ''sha256 sidecar not found''
      | Some content \<Rightarrow>
          (case split_whitespace content of
             [] \<Rightarrow> Inl ''sidecar file is empty or malformed''
           | expected # _ \<Rightarrow>
               (case D archive of
                  None \<Rightarrow> Inl ''open archive for hashing''
                | Some b \<Rightarrow> if sha256_hex sha256 b \<noteq> expected then Inl ''sha256 mismatch'' else Inr ())))"

section \<open>Qdrant\<close>

text \<open>The requests, each with the answer after the check of its status: the list of collections, the making of a
  snapshot, its bytes, the deletion of a collection (whose outcome is ignored), and the upload of a file.\<close>

record 'q rest =
  rest_collections :: "'q \<Rightarrow> string + json"
  rest_make :: "string \<Rightarrow> 'q \<Rightarrow> (string + json) \<times> 'q"
  rest_fetch :: "string \<Rightarrow> string \<Rightarrow> 'q \<Rightarrow> string + bytes"
  rest_delete :: "string \<Rightarrow> 'q \<Rightarrow> 'q"
  rest_upload :: "string \<Rightarrow> string \<Rightarrow> bytes \<Rightarrow> 'q \<Rightarrow> (string + unit) \<times> 'q"

text \<open>\<open>v["key"]\<close> is null where there is no such key.\<close>

definition jindex :: "string \<Rightarrow> json \<Rightarrow> json" where
  "jindex k v = (case jget k v of Some x \<Rightarrow> x | None \<Rightarrow> JNull)"

definition list_collections :: "'q rest \<Rightarrow> 'q \<Rightarrow> string + string list" where
  "list_collections R q =
     (case rest_collections R q of
        Inl e \<Rightarrow> Inl e
      | Inr resp \<Rightarrow>
          (case as_array (jindex ''collections'' (jindex ''result'' resp)) of
             None \<Rightarrow> Inl ''unexpected /collections shape''
           | Some xs \<Rightarrow> Inr (List.map_filter (\<lambda>c. as_str (jindex ''name'' c)) xs)))"

definition collection_snapshot_filename :: "string \<Rightarrow> string" where
  "collection_snapshot_filename c = ''qdrant-'' @ c @ ''.snapshot''"

text \<open>The bytes of a new snapshot of a collection.\<close>

definition take_snapshot :: "'q rest \<Rightarrow> string \<Rightarrow> 'q \<Rightarrow> (string + bytes) \<times> 'q" where
  "take_snapshot R c q =
     (case rest_make R c q of
        (Inl e, q') \<Rightarrow> (Inl e, q')
      | (Inr resp, q') \<Rightarrow>
          (case as_str (jindex ''name'' (jindex ''result'' resp)) of
             None \<Rightarrow> (Inl ''snapshot response missing result.name'', q')
           | Some name \<Rightarrow> (rest_fetch R c name q', q')))"

text \<open>A name with a slash is a path into a directory that does not exist: the write fails.\<close>

definition download_collection_snapshot ::
  "'q rest \<Rightarrow> string \<Rightarrow> 'q \<times> directory \<Rightarrow> (string + unit) \<times> 'q \<times> directory" where
  "download_collection_snapshot R c st =
     (case take_snapshot R c (fst st) of
        (Inl e, q) \<Rightarrow> (Inl e, q, snd st)
      | (Inr b, q) \<Rightarrow>
          if CHR ''/'' \<in> set c then (Inl ''write snapshot'', q, snd st)
          else (Inr (), q, (snd st)(collection_snapshot_filename c \<mapsto> b)))"

text \<open>The collection is deleted first; then the file is read and uploaded.\<close>

definition upload_collection_snapshot :: "'q rest \<Rightarrow> string \<Rightarrow> directory \<Rightarrow> 'q \<Rightarrow> (string + unit) \<times> 'q" where
  "upload_collection_snapshot R c D q =
     (let q1 = rest_delete R c q in
      case D (collection_snapshot_filename c) of
        None \<Rightarrow> (Inl ''read snapshot'', q1)
      | Some b \<Rightarrow> rest_upload R c (collection_snapshot_filename c) b q1)"

fun download_all :: "'q rest \<Rightarrow> string list \<Rightarrow> 'q \<times> directory \<Rightarrow> (string + unit) \<times> 'q \<times> directory" where
  "download_all R [] st = (Inr (), st)"
| "download_all R (c # cs) st =
     (case download_collection_snapshot R c st of
        (Inl e, st') \<Rightarrow> (Inl e, st')
      | (Inr _, st') \<Rightarrow> download_all R cs st')"

fun upload_all :: "'q rest \<Rightarrow> string list \<Rightarrow> directory \<Rightarrow> 'q \<Rightarrow> (string + unit) \<times> 'q" where
  "upload_all R [] D q = (Inr (), q)"
| "upload_all R (c # cs) D q =
     (case upload_collection_snapshot R c D q of
        (Inl e, q') \<Rightarrow> (Inl e, q')
      | (Inr _, q') \<Rightarrow> upload_all R cs D q')"

section \<open>Create and restore\<close>

definition escape_quotes :: "string \<Rightarrow> string" where
  "escape_quotes c = concat (map (\<lambda>x. if x = CHR 0x22 then [CHR 0x5C, CHR 0x22] else [x]) c)"

definition build_manifest :: "string list \<Rightarrow> string" where
  "build_manifest cs =
     [CHR ''{'', CHR 0x22] @ ''collections'' @ [CHR 0x22, CHR '':'', CHR ''['']
     @ join_with '','' (map (\<lambda>c. [CHR 0x22] @ escape_quotes c @ [CHR 0x22]) cs) @ '']}''"

definition read_manifest_collections :: "(string \<Rightarrow> json option) \<Rightarrow> directory \<Rightarrow> string + string list" where
  "read_manifest_collections parse D =
     (case D ''manifest.json'' of
        None \<Rightarrow> Inl ''read manifest''
      | Some raw \<Rightarrow> (case parse raw of
          None \<Rightarrow> Inl ''parse manifest JSON''
        | Some v \<Rightarrow> (case Option.bind (jget ''collections'' v) as_array of
            None \<Rightarrow> Inl ''manifest missing collections array''
          | Some xs \<Rightarrow> if list_all (\<lambda>x. as_str x \<noteq> None) xs then Inr (List.map_filter as_str xs)
                      else Inl ''collection entry not a string'')))"

text \<open>The steps on the file system, and the reading of the client's settings, that can fail.\<close>

datatype snap_io =
    MakeTmp | BuildClient | WriteManifest | MakeOutDir | CreateArchive | PackArchive | WriteSidecar | CleanUp
  | MakeDataDir | CopyDb | RenameDb

text \<open>\<open>torn\<close>: what is there of a file when its writing fails; \<open>vacuum_into\<close> gets the database and what is already at
  its target; \<open>untar\<close> yields the files it could write.\<close>

record snapshot_tools =
  sha :: "bytes \<Rightarrow> bytes"
  tar_gz :: "directory \<Rightarrow> bytes"
  untar :: "bytes \<Rightarrow> (string + unit) \<times> directory"
  torn :: "bytes \<Rightarrow> bytes"
  manifest_parser :: "string \<Rightarrow> json option"
  vacuum_into :: "bytes \<Rightarrow> bytes option \<Rightarrow> string + bytes"
  io_fails :: "snap_io \<Rightarrow> bool"
  snap_pid :: nat

text \<open>The state: the Qdrant server, the live database and its staging file, the directory of the archive, and the
  temporary directories by name.\<close>

record 'q site =
  s_qdrant :: 'q
  s_db :: "bytes option"
  s_staging :: "bytes option"
  s_out :: directory
  s_tmp :: "string \<rightharpoonup> directory"

definition temp_dir :: "string \<Rightarrow> snapshot_tools \<Rightarrow> string" where
  "temp_dir base T = base @ ''-'' @ dec_nat (snap_pid T)"

text \<open>\<open>create_dir_all\<close> keeps what is in a directory that exists.\<close>

definition tmp_contents :: "string \<Rightarrow> 'q site \<Rightarrow> directory" where
  "tmp_contents name S = (case s_tmp S name of Some D \<Rightarrow> D | None \<Rightarrow> Map.empty)"

definition pack_tar_gz :: "snapshot_tools \<Rightarrow> directory \<Rightarrow> string \<Rightarrow> directory \<Rightarrow> (string + unit) \<times> directory" where
  "pack_tar_gz T src out D =
     (if io_fails T MakeOutDir then (Inl ''create output dir'', D)
      else if io_fails T CreateArchive then (Inl ''create archive'', D)
      else if io_fails T PackArchive then (Inl ''append to archive'', D(out \<mapsto> torn T (tar_gz T src)))
      else (Inr (), D(out \<mapsto> tar_gz T src)))"

definition unpack_tar_gz :: "snapshot_tools \<Rightarrow> string \<Rightarrow> directory \<Rightarrow> directory \<Rightarrow> (string + unit) \<times> directory" where
  "unpack_tar_gz T archive D dest =
     (case D archive of
        None \<Rightarrow> (Inl ''open archive'', dest)
      | Some b \<Rightarrow> (case untar T b of (r, files) \<Rightarrow> (r, dest ++ files)))"

text \<open>The temporary directory that is packed: the collections, the database if there is one, the
  manifest.\<close>

definition sqlite_vacuum_into :: "snapshot_tools \<Rightarrow> bytes option \<Rightarrow> directory \<Rightarrow> string + directory" where
  "sqlite_vacuum_into T db tmp =
     (case db of
        None \<Rightarrow> Inr tmp
      | Some x \<Rightarrow>
          (case vacuum_into T x (tmp SQLITE_INNER_NAME) of
             Inl e \<Rightarrow> Inl e
           | Inr y \<Rightarrow> Inr (tmp(SQLITE_INNER_NAME \<mapsto> y))))"

definition snapshot_dir ::
  "snapshot_tools \<Rightarrow> 'q rest \<Rightarrow> bytes option \<Rightarrow> 'q \<Rightarrow> directory \<Rightarrow> (string + unit) \<times> 'q \<times> directory" where
  "snapshot_dir T R db q tmp =
     (case list_collections R q of
        Inl e \<Rightarrow> (Inl e, q, tmp)
      | Inr cs \<Rightarrow>
          (case download_all R cs (q, tmp) of
             (Inl e, q', tmp) \<Rightarrow> (Inl e, q', tmp)
           | (Inr _, q', tmp) \<Rightarrow>
               (case sqlite_vacuum_into T db tmp of
                  Inl e \<Rightarrow> (Inl e, q', tmp)
                | Inr tmp \<Rightarrow>
                    if io_fails T WriteManifest then (Inl ''write manifest'', q', tmp)
                    else (Inr (), q', tmp(''manifest.json'' \<mapsto> build_manifest cs)))))"

definition snapshot_create :: "snapshot_tools \<Rightarrow> 'q rest \<Rightarrow> string \<Rightarrow> 'q site \<Rightarrow> (string + unit) \<times> 'q site" where
  "snapshot_create T R out S =
     (let name = temp_dir ''amore-snapshot'' T; tmp = tmp_contents name S in
      if io_fails T MakeTmp then (Inl ''create temp dir'', S)
      else if io_fails T BuildClient then (Inl ''build reqwest client'', S\<lparr>s_tmp := (s_tmp S)(name \<mapsto> tmp)\<rparr>)
      else case snapshot_dir T R (s_db S) (s_qdrant S) tmp of
        (Inl e, q, tmp) \<Rightarrow> (Inl e, S\<lparr>s_qdrant := q, s_tmp := (s_tmp S)(name \<mapsto> tmp)\<rparr>)
      | (Inr _, q, tmp) \<Rightarrow>
          (let S = S\<lparr>s_qdrant := q, s_tmp := (s_tmp S)(name \<mapsto> tmp)\<rparr> in
           case pack_tar_gz T tmp out (s_out S) of
             (Inl e, D) \<Rightarrow> (Inl e, S\<lparr>s_out := D\<rparr>)
           | (Inr _, D) \<Rightarrow>
               if io_fails T WriteSidecar then (Inl ''write sidecar'', S\<lparr>s_out := D\<rparr>)
               else case write_sha256_sidecar (sha T) out D of
                 Inl e \<Rightarrow> (Inl e, S\<lparr>s_out := D\<rparr>)
               | Inr D \<Rightarrow>
                   if io_fails T CleanUp then (Inl ''clean up temp dir'', S\<lparr>s_out := D\<rparr>)
                   else (Inr (), S\<lparr>s_out := D, s_tmp := (s_tmp S)(name := None)\<rparr>)))"

text \<open>The database of the archive is copied beside the live one and renamed over it.\<close>

definition replace_db :: "snapshot_tools \<Rightarrow> bytes option \<Rightarrow> 'q site \<Rightarrow> (string + unit) \<times> 'q site" where
  "replace_db T src S =
     (case src of
        None \<Rightarrow> (Inr (), S)
      | Some db \<Rightarrow>
          if io_fails T MakeDataDir then (Inl ''create data_dir'', S)
          else if io_fails T CopyDb then (Inl ''copy db to staging'', S\<lparr>s_staging := Some (torn T db)\<rparr>)
          else if io_fails T RenameDb then (Inl ''atomic rename'', S\<lparr>s_staging := Some db\<rparr>)
          else (Inr (), S\<lparr>s_staging := None, s_db := Some db\<rparr>))"

definition snapshot_restore :: "snapshot_tools \<Rightarrow> 'q rest \<Rightarrow> string \<Rightarrow> 'q site \<Rightarrow> (string + unit) \<times> 'q site" where
  "snapshot_restore T R inp S =
     (case verify_sha256_sidecar (sha T) inp (s_out S) of
        Inl e \<Rightarrow> (Inl e, S)
      | Inr _ \<Rightarrow>
          (let name = temp_dir ''amore-restore'' T in
           if io_fails T MakeTmp then (Inl ''create temp dir'', S)
           else case unpack_tar_gz T inp (s_out S) (tmp_contents name S) of
             (r, tmp) \<Rightarrow>
               (let S = S\<lparr>s_tmp := (s_tmp S)(name \<mapsto> tmp)\<rparr> in
                case r of
                  Inl e \<Rightarrow> (Inl e, S)
                | Inr _ \<Rightarrow>
                    (case read_manifest_collections (manifest_parser T) tmp of
                       Inl e \<Rightarrow> (Inl e, S)
                     | Inr cs \<Rightarrow>
                         if io_fails T BuildClient then (Inl ''build reqwest client'', S)
                         else case upload_all R cs tmp (s_qdrant S) of
                           (Inl e, q) \<Rightarrow> (Inl e, S\<lparr>s_qdrant := q\<rparr>)
                         | (Inr _, q) \<Rightarrow>
                             (case replace_db T (tmp SQLITE_INNER_NAME) (S\<lparr>s_qdrant := q\<rparr>) of
                                (Inl e, S) \<Rightarrow> (Inl e, S)
                              | (Inr _, S) \<Rightarrow>
                                  if io_fails T CleanUp then (Inl ''clean up temp dir'', S)
                                  else (Inr (), S\<lparr>s_tmp := (s_tmp S)(name := None)\<rparr>))))))"

section \<open>Lemmas\<close>

text \<open>The snapshots a server takes of the collections in order, and their upload elsewhere.\<close>

fun taken :: "'q rest \<Rightarrow> string list \<Rightarrow> 'q \<Rightarrow> (string \<times> bytes) list" where
  "taken R [] q = []"
| "taken R (c # cs) q =
     (case take_snapshot R c q of
        (Inr b, q') \<Rightarrow> (c, b) # taken R cs q'
      | (Inl e, q') \<Rightarrow> [])"

fun replay :: "'q rest \<Rightarrow> (string \<times> bytes) list \<Rightarrow> 'q \<Rightarrow> (string + unit) \<times> 'q" where
  "replay R [] q = (Inr (), q)"
| "replay R ((c, b) # xs) q =
     (case rest_upload R c (collection_snapshot_filename c) b (rest_delete R c q) of
        (Inl e, q') \<Rightarrow> (Inl e, q')
      | (Inr _, q') \<Rightarrow> replay R xs q')"

lemma snapshot_filename_inject [simp]:
  "collection_snapshot_filename a = collection_snapshot_filename b \<longleftrightarrow> a = b"
  by (simp add: collection_snapshot_filename_def)

lemma snapshot_filename_reserved [simp]:
  "collection_snapshot_filename a \<noteq> ''manifest.json''" "collection_snapshot_filename a \<noteq> SQLITE_INNER_NAME"
  by (simp_all add: collection_snapshot_filename_def SQLITE_INNER_NAME_def)

lemma download_all_effect:
  assumes "download_all R cs (q, D) = (Inr (), q', D')" and "distinct cs"
  shows "map fst (taken R cs q) = cs
    \<and> (\<forall>(c, b) \<in> set (taken R cs q). D' (collection_snapshot_filename c) = Some b)
    \<and> (\<forall>f. f \<notin> collection_snapshot_filename ` set cs \<longrightarrow> D' f = D f)"
  using assms
proof (induction cs arbitrary: q D)
  case (Cons c cs)
  from Cons.prems(1) obtain b q1 where d: "take_snapshot R c q = (Inr b, q1)"
    and rest: "download_all R cs (q1, D(collection_snapshot_filename c \<mapsto> b)) = (Inr (), q', D')"
    by (auto simp: download_collection_snapshot_def split: prod.splits sum.splits if_splits)
  have cs: "distinct cs" "c \<notin> set cs" using Cons.prems(2) by auto
  have new: "collection_snapshot_filename c \<notin> collection_snapshot_filename ` set cs"
    using cs(2) by auto
  from Cons.IH [OF rest cs(1)] have "D' (collection_snapshot_filename c) = Some b"
    using new by simp
  with Cons.IH [OF rest cs(1)] d show ?case by auto
qed simp

lemma upload_all_replay:
  "\<forall>(c, b) \<in> set xs. D (collection_snapshot_filename c) = Some b
    \<Longrightarrow> upload_all R (map fst xs) D q = replay R xs q"
  by (induction xs arbitrary: q)
     (auto simp: upload_collection_snapshot_def Let_def split: prod.splits sum.splits)

lemma split_whitespace_word:
  assumes "list_all (\<lambda>c. \<not> is_ws c) w" and "w \<noteq> []"
  shows "split_whitespace (w @ CHR 0x20 # r) = w # split_whitespace r"
proof -
  have sp: "split_on is_ws (w @ CHR 0x20 # r) = w # split_on is_ws r"
    using assms(1) by (induction w) (auto simp: is_ws_def)
  with assms(2) show ?thesis by (simp add: split_whitespace_def)
qed

lemma sidecar_first_word:
  assumes "sha256 b \<noteq> []"
  shows "\<exists>ws. split_whitespace (sha256_hex sha256 b @ ''  '' @ r) = sha256_hex sha256 b # ws"
proof -
  have "sha256_hex sha256 b \<noteq> []"
    using assms by (metis length_0_conv length_hex_encode mult_is_0 sha256_hex_def zero_neq_numeral)
  moreover have "list_all (\<lambda>c. \<not> is_ws c) (sha256_hex sha256 b)"
    by (auto simp: list_all_iff sha256_hex_def hex_encode_no_ws)
  ultimately show ?thesis
    using split_whitespace_word [of "sha256_hex sha256 b" "'' '' @ r"] by simp
qed

lemma sidecar_neq [simp]: "sidecar_path p \<noteq> p" "p \<noteq> sidecar_path p"
  by (simp_all add: sidecar_path_def)

lemma verify_sidecar:
  assumes "D (sidecar_path out) = Some (sha256_hex sha256 b @ ''  '' @ r)" and "sha256 b \<noteq> []"
    and "D out = Some b'"
  shows "verify_sha256_sidecar sha256 out D = (if sha256 b' = sha256 b then Inr () else Inl ''sha256 mismatch'')"
  using assms sidecar_first_word [of sha256 b r]
  by (auto simp: verify_sha256_sidecar_def sha256_hex_def hex_encode_inject)

lemma pack_tar_gz_ok: "pack_tar_gz T src out D = (Inr x, D') \<Longrightarrow> D' = D(out \<mapsto> tar_gz T src)"
  by (auto simp: pack_tar_gz_def split: if_splits)

lemma write_sidecar_ok:
  "write_sha256_sidecar h a D = Inr D' \<Longrightarrow> D a = Some b
    \<Longrightarrow> D' = D(sidecar_path a \<mapsto> sha256_hex h b @ ''  '' @ path_file_name a @ [CHR 0x0A])"
  by (simp add: write_sha256_sidecar_def)

lemma snapshot_create_effect:
  assumes create: "snapshot_create T R out S = (Inr (), S')"
    and dir: "snapshot_dir T R (s_db S) (s_qdrant S) (tmp_contents (temp_dir ''amore-snapshot'' T) S) = (Inr (), q, D)"
  shows "s_out S' out = Some (tar_gz T D)
    \<and> s_out S' (sidecar_path out) = Some (sha256_hex (sha T) (tar_gz T D) @ ''  '' @ path_file_name out @ [CHR 0x0A])
    \<and> s_tmp S' = (s_tmp S)(temp_dir ''amore-snapshot'' T := None)"
proof -
  obtain x D1 where pk: "pack_tar_gz T D out (s_out S) = (x, D1)" by fastforce
  then have x: "x = Inr ()" using create dir by (auto simp: snapshot_create_def Let_def split: if_splits sum.splits)
  obtain D2 where wr: "write_sha256_sidecar (sha T) out D1 = Inr D2"
    using create dir pk x by (auto simp: snapshot_create_def Let_def split: if_splits sum.splits)
  have "s_out S' = D2" "s_tmp S' = (s_tmp S)(temp_dir ''amore-snapshot'' T := None)"
    using create dir pk x wr by (auto simp: snapshot_create_def Let_def split: if_splits)
  with pack_tar_gz_ok [OF pk [unfolded x]] write_sidecar_ok [OF wr, of "tar_gz T D"] show ?thesis by simp
qed

lemma snapshot_dir_effect:
  assumes "snapshot_dir T R db q Map.empty = (Inr (), q1, D)" and "list_collections R q = Inr cs" and "distinct cs"
  shows "map fst (taken R cs q) = cs
    \<and> (\<forall>(c, x) \<in> set (taken R cs q). D (collection_snapshot_filename c) = Some x)
    \<and> D SQLITE_INNER_NAME = (case db of None \<Rightarrow> None | Some x \<Rightarrow> Some (projr (vacuum_into T x None)))
    \<and> D ''manifest.json'' = Some (build_manifest cs)"
proof -
  obtain q' tmp tmp' where down: "download_all R cs (q, Map.empty) = (Inr (), q', tmp)"
    and vac: "sqlite_vacuum_into T db tmp = Inr tmp'"
    and D: "D = tmp'(''manifest.json'' \<mapsto> build_manifest cs)"
    using assms(1,2) by (auto simp: snapshot_dir_def split: sum.splits prod.splits if_splits)
  note eff = download_all_effect [OF down assms(3)]
  have "SQLITE_INNER_NAME \<notin> collection_snapshot_filename ` set cs"
    by (metis imageE snapshot_filename_reserved(2))
  with eff have "tmp SQLITE_INNER_NAME = None" by simp
  with vac have t: "tmp' = (case db of None \<Rightarrow> tmp | Some x \<Rightarrow> tmp(SQLITE_INNER_NAME \<mapsto> projr (vacuum_into T x None)))"
    by (auto simp: sqlite_vacuum_into_def split: option.splits sum.splits)
  have "D SQLITE_INNER_NAME = (case db of None \<Rightarrow> None | Some x \<Rightarrow> Some (projr (vacuum_into T x None)))"
    using \<open>tmp SQLITE_INNER_NAME = None\<close> by (simp add: D t SQLITE_INNER_NAME_def split: option.split)
  moreover have "D (collection_snapshot_filename c) = tmp (collection_snapshot_filename c)" for c
    by (simp add: D t split: option.split)
  ultimately show ?thesis using eff by (simp add: D)
qed

text \<open>A database is replaced whole or not at all.\<close>

lemma replace_db_atomic:
  "replace_db T src S = (r, S') \<Longrightarrow>
    s_qdrant S' = s_qdrant S \<and> s_tmp S' = s_tmp S \<and> s_out S' = s_out S
    \<and> (r = Inr () \<longrightarrow> s_db S' = (case src of None \<Rightarrow> s_db S | Some db \<Rightarrow> Some db))
    \<and> (r \<noteq> Inr () \<longrightarrow> s_db S' = s_db S)"
  by (auto simp: replace_db_def split: option.splits if_splits)

text \<open>A run that fails to write the archive leaves the copy of the database in the temporary directory.\<close>

lemma failed_create_keeps_copy:
  assumes "snapshot_dir T R (s_db S) (s_qdrant S) (tmp_contents (temp_dir ''amore-snapshot'' T) S) = (Inr (), q, D)"
    and "\<not> io_fails T MakeTmp" "\<not> io_fails T BuildClient" "io_fails T CreateArchive"
  shows "\<exists>S' e. snapshot_create T R out S = (Inl e, S') \<and> s_tmp S' (temp_dir ''amore-snapshot'' T) = Some D"
  using assms by (auto simp: snapshot_create_def pack_tar_gz_def Let_def)

text \<open>The settings of a restoring run: its own failures and process number.\<close>

definition other_run :: "(snap_io \<Rightarrow> bool) \<Rightarrow> nat \<Rightarrow> snapshot_tools \<Rightarrow> snapshot_tools" where
  "other_run fails pid T = T\<lparr>io_fails := fails, snap_pid := pid\<rparr>"

lemma other_run_simps [simp]:
  "sha (other_run f p T) = sha T" "tar_gz (other_run f p T) = tar_gz T" "untar (other_run f p T) = untar T"
  "manifest_parser (other_run f p T) = manifest_parser T" "io_fails (other_run f p T) = f"
  by (simp_all add: other_run_def)

lemma restore_archive:
  assumes "verify_sha256_sidecar (sha T) inp (s_out S) = Inr ()" and "s_out S inp = Some b"
    and "untar T b = (Inr (), D)" and "read_manifest_collections (manifest_parser T) D = Inr cs"
    and "s_tmp S (temp_dir ''amore-restore'' T) = None"
    and "upload_all R cs D (s_qdrant S) = (u, q)" and "snapshot_restore T R inp S = (r, S')"
  shows "(r = Inr () \<longrightarrow> u = Inr () \<and> s_qdrant S' = q
        \<and> s_db S' = (case D SQLITE_INNER_NAME of None \<Rightarrow> s_db S | Some db \<Rightarrow> Some db) \<and> s_tmp S' = s_tmp S)
    \<and> (s_db S' = s_db S \<or> s_db S' = D SQLITE_INNER_NAME)
    \<and> ((\<forall>x. \<not> io_fails T x) \<longrightarrow> r = u \<and> s_qdrant S' = q)"
proof -
  obtain u' S1 where rd: "replace_db T (D SQLITE_INNER_NAME)
      (S\<lparr>s_tmp := (s_tmp S)(temp_dir ''amore-restore'' T \<mapsto> D), s_qdrant := q\<rparr>) = (u', S1)" by fastforce
  have at: "s_qdrant S1 = q" "s_tmp S1 = (s_tmp S)(temp_dir ''amore-restore'' T \<mapsto> D)"
      "u' = Inr () \<Longrightarrow> s_db S1 = (case D SQLITE_INNER_NAME of None \<Rightarrow> s_db S | Some db \<Rightarrow> Some db)"
      "u' \<noteq> Inr () \<Longrightarrow> s_db S1 = s_db S"
    using replace_db_atomic [OF rd] by (simp_all split: option.split)
  have ok: "\<forall>x. \<not> io_fails T x \<Longrightarrow> u' = Inr ()"
    using rd by (auto simp: replace_db_def split: option.splits)
  have d: "(s_tmp S)(temp_dir ''amore-restore'' T := None) = s_tmp S" using assms(5) by (simp add: fun_upd_idem)
  have e: "snapshot_restore T R inp S =
    (if io_fails T MakeTmp then (Inl ''create temp dir'', S)
     else let S0 = S\<lparr>s_tmp := (s_tmp S)(temp_dir ''amore-restore'' T \<mapsto> D)\<rparr> in
       if io_fails T BuildClient then (Inl ''build reqwest client'', S0)
       else case u of Inl e \<Rightarrow> (Inl e, S0\<lparr>s_qdrant := q\<rparr>)
         | Inr _ \<Rightarrow> (case u' of Inl e \<Rightarrow> (Inl e, S1)
             | Inr _ \<Rightarrow> if io_fails T CleanUp then (Inl ''clean up temp dir'', S1)
                 else (Inr (), S1\<lparr>s_tmp := s_tmp S\<rparr>)))"
    using assms(1-6) rd at(2) d
    by (simp add: snapshot_restore_def unpack_tar_gz_def tmp_contents_def Let_def split: sum.split)
  show ?thesis
    using assms(7) at ok unfolding e
    by (auto simp: Let_def split: if_splits sum.splits option.splits)
qed

section \<open>Properties\<close>


text \<open>One collection and a database, restored on an empty site.\<close>

definition toy_rest :: "bytes option rest" where
  "toy_rest =
     \<lparr>rest_collections = (\<lambda>q. Inr (JObj [(''result'', JObj [(''collections'', JArr [JObj [(''name'', JStr ''c'')]])])])),
      rest_make = (\<lambda>c q. (Inr (JObj [(''result'', JObj [(''name'', JStr ''s'')])]), q)),
      rest_fetch = (\<lambda>c s q. Inr (the q)),
      rest_delete = (\<lambda>c q. None), rest_upload = (\<lambda>c f b q. (Inr (), Some b))\<rparr>"

definition toy_dir :: directory where
  "toy_dir = [collection_snapshot_filename ''c'' \<mapsto> ''points'', SQLITE_INNER_NAME \<mapsto> ''db'',
     ''manifest.json'' \<mapsto> build_manifest [''c'']]"

definition toy_tools :: snapshot_tools where
  "toy_tools = \<lparr>sha = (\<lambda>b. ''h'' @ b), tar_gz = (\<lambda>D. ''tar''), untar = (\<lambda>b. (Inr (), toy_dir)), torn = (\<lambda>b. []),
     manifest_parser = (\<lambda>s. Some (JObj [(''collections'', JArr [JStr ''c''])])), vacuum_into = (\<lambda>x _. Inr x),
     io_fails = (\<lambda>_. False), snap_pid = 1\<rparr>"

lemma toy_tools_simps [simp]: "io_fails toy_tools x = False" "tar_gz toy_tools E = ''tar''"
  by (simp_all add: toy_tools_def)

lemma toy_collections: "list_collections toy_rest q = Inr [''c'']"
  by (simp add: list_collections_def toy_rest_def jindex_def List.map_filter_simps)

lemma toy_snapshot: "take_snapshot toy_rest c q = (Inr (the q), q)"
  by (simp add: take_snapshot_def toy_rest_def jindex_def)


end
