(* ===== verification/Register.thy ===== *)
theory Register
  imports IdeAdapter
begin

text \<open>
  The registration flags of the MCP server, \<open>crates/amore-mcp/src/register.rs\<close>: the choice
  between the \<open>claude\<close> command line and the direct write, the upsert of the entry, and
  \<open>write_atomic_json\<close> with its rotation of backups, on the file operations of the IDE adapters.
  Setting the permissions of the backup may fail and changes no content; how each platform sets them is in
  \<open>RegisterCli\<close>.
\<close>

datatype register_error = RegError string | RegPanic string

datatype register_method = ClaudeCli | DirectWrite

record register_report =
  rep_target :: string
  rep_path :: string
  rep_method :: register_method
  was_present :: bool

definition amore_entry_json :: "string \<Rightarrow> json" where
  "amore_entry_json exe =
     JObj [(''args'', JArr [JStr ''--stdio'']), (''command'', JStr exe), (''env'', JObj [])]"

definition read_json_or_empty :: "json codec \<Rightarrow> file_system \<Rightarrow> string \<Rightarrow> string + json" where
  "read_json_or_empty c fs p =
     (case fs p of
        None \<Rightarrow> Inr (JObj [])
      | Some None \<Rightarrow> Inl ''reading''
      | Some (Some raw) \<Rightarrow> (case parse c raw of None \<Rightarrow> Inl ''parsing JSON'' | Some v \<Rightarrow> Inr v))"

text \<open>The two \<open>expect\<close>s panic on a root or an \<open>mcpServers\<close> that is no object.\<close>

definition upsert_mcp_server :: "json \<Rightarrow> string \<Rightarrow> register_error + bool \<times> json" where
  "upsert_mcp_server cfg exe =
     (case cfg of
        JObj obj \<Rightarrow>
          (let obj = obj_or_insert ''mcpServers'' (JObj []) obj in
           case map_of obj ''mcpServers'' of
             Some (JObj servers) \<Rightarrow>
               Inr (map_of servers ''amore'' \<noteq> None,
                 JObj (obj_insert ''mcpServers'' (JObj (obj_insert ''amore'' (amore_entry_json exe) servers)) obj))
           | _ \<Rightarrow> Inl (RegPanic ''mcpServers must be object''))
      | _ \<Rightarrow> Inl (RegPanic ''root must be object''))"

section \<open>The atomic write\<close>

definition parent_prefix :: "string \<Rightarrow> string" where
  "parent_prefix p = rev (dropWhile (\<lambda>c. c \<noteq> CHR ''/'') (rev p))"

definition name_part :: "string \<Rightarrow> string" where
  "name_part p = rev (takeWhile (\<lambda>c. c \<noteq> CHR ''/'') (rev p))"

definition bak_path :: "string \<Rightarrow> string" where
  "bak_path p = parent_prefix p @ name_part p @ ''.bak''"

definition bak_old_path :: "string \<Rightarrow> string" where
  "bak_old_path p = parent_prefix p @ name_part p @ ''.bak.old''"

definition tmp_path :: "string \<Rightarrow> string" where
  "tmp_path p = parent_prefix p @ ''.'' @ name_part p @ ''.amore-tmp''"

text \<open>The operations up to the point where the permissions of the backup are set, and those after
  it.  \<open>chmod_ok\<close>: whether setting them succeeds; \<open>rename_ok\<close>: whether the rename succeeds within
  its three attempts.\<close>

definition backup_ops :: "file_system \<Rightarrow> string \<Rightarrow> file_op list" where
  "backup_ops fs target =
     (if fs (bak_path target) \<noteq> None then [RenameFile (bak_path target) (bak_old_path target)] else [])
     @ (if fs target \<noteq> None then [CopyFile target (bak_path target)] else [])"

definition write_ops :: "bool \<Rightarrow> string \<Rightarrow> string \<Rightarrow> file_op list" where
  "write_ops rename_ok target content =
     [RemoveFile (bak_old_path target), WriteFile (tmp_path target) content]
     @ (if rename_ok then [RenameFile (tmp_path target) target]
        else [RemoveFile (tmp_path target), CopyFile (bak_path target) target])"

definition atomic_ops :: "bool \<Rightarrow> bool \<Rightarrow> file_system \<Rightarrow> string \<Rightarrow> string \<Rightarrow> file_op list" where
  "atomic_ops chmod_ok rename_ok fs target content =
     backup_ops fs target
     @ (if fs target \<noteq> None \<and> \<not> chmod_ok then [RenameFile (bak_old_path target) (bak_path target)]
        else write_ops rename_ok target content)"

text \<open>After the rename the file is read back and must parse.\<close>

definition write_atomic_json ::
  "json codec \<Rightarrow> bool \<Rightarrow> bool \<Rightarrow> string \<Rightarrow> string \<Rightarrow> file_system \<Rightarrow> (string + unit) \<times> file_system" where
  "write_atomic_json c chmod_ok rename_ok target content fs =
     (let fs' = run_file_ops (atomic_ops chmod_ok rename_ok fs target content) fs in
      (if fs target \<noteq> None \<and> \<not> chmod_ok then Inl ''ACL set on .bak failed; write aborted''
       else if \<not> rename_ok then Inl ''atomic rename failed after 3 retries''
       else case fs' target of
         Some (Some t) \<Rightarrow> (if parse c t = None then Inl ''verify-parse'' else Inr ())
       | _ \<Rightarrow> Inl ''verify-read'', fs'))"

section \<open>Registration\<close>

definition direct_write_json_config ::
  "json codec \<Rightarrow> bool \<Rightarrow> bool \<Rightarrow> string \<Rightarrow> string \<Rightarrow> string \<Rightarrow> file_system
    \<Rightarrow> (register_error + register_report) \<times> file_system" where
  "direct_write_json_config c chmod_ok rename_ok path exe target fs =
     (case read_json_or_empty c fs path of
        Inl e \<Rightarrow> (Inl (RegError e), fs)
      | Inr v \<Rightarrow>
          (case upsert_mcp_server (case v of JObj m \<Rightarrow> JObj m | _ \<Rightarrow> JObj []) exe of
             Inl e \<Rightarrow> (Inl e, fs)
           | Inr (present, v') \<Rightarrow>
               (case pretty c v' of
                  None \<Rightarrow> (Inl (RegError ''serialize config JSON''), fs)
                | Some content \<Rightarrow>
                    (case write_atomic_json c chmod_ok rename_ok path content fs of
                       (Inl e, fs') \<Rightarrow> (Inl (RegError e), fs')
                     | (Inr _, fs') \<Rightarrow>
                         (Inr \<lparr>rep_target = target, rep_path = path, rep_method = DirectWrite, was_present = present\<rparr>, fs')))))"

text \<open>\<open>cli\<close>: the effect of \<open>claude mcp add\<close>, when the command is on the path.\<close>

definition register_claude_code ::
  "json codec \<Rightarrow> bool \<Rightarrow> bool \<Rightarrow> (file_system \<Rightarrow> (string + unit) \<times> file_system) option \<Rightarrow> bool \<Rightarrow> string
    \<Rightarrow> string option \<Rightarrow> bool \<Rightarrow> file_system \<Rightarrow> (register_error + register_report) \<times> file_system" where
  "register_claude_code c chmod_ok rename_ok cli opt_in exe home self_contained fs =
     (case home of
        None \<Rightarrow> (Inl (RegError ''no home dir''), fs)
      | Some h \<Rightarrow>
          (let path = path_join h [''.claude.json''] in
           case (if self_contained then None else cli) of
             Some run \<Rightarrow>
               (case run fs of
                  (Inl e, fs') \<Rightarrow> (Inl (RegError e), fs')
                | (Inr _, fs') \<Rightarrow>
                    (case read_json_or_empty c fs' path of
                       Inl e \<Rightarrow> (Inl (RegError e), fs')
                     | Inr v \<Rightarrow> (Inr \<lparr>rep_target = ''Claude Code'', rep_path = path, rep_method = ClaudeCli,
                         was_present = (Option.bind (jget ''mcpServers'' v) (jget ''amore'') \<noteq> None)\<rparr>, fs')))
           | None \<Rightarrow>
               if \<not> self_contained \<and> \<not> opt_in
               then (Inl (RegError ''claude CLI not found on PATH''), fs)
               else direct_write_json_config c chmod_ok rename_ok path exe ''Claude Code'' fs))"

text \<open>The other targets are always written directly: Claude Desktop, Cursor, Cline, Continue, at
  their paths below the home directory.\<close>

definition register_paths :: "(string \<times> string list) list" where
  "register_paths =
     [(''Claude Desktop'', [''.config'', ''Claude'', ''claude_desktop_config.json'']),
      (''Cursor'', [''.cursor'', ''mcp.json'']),
      (''Cline'', [''.config'', ''Code'', ''User'', ''globalStorage'', ''saoudrizwan.claude-dev'', ''settings'', ''cline_mcp_settings.json'']),
      (''Continue'', [''.continue'', ''config.json''])]"

definition register_direct ::
  "json codec \<Rightarrow> bool \<Rightarrow> bool \<Rightarrow> string \<Rightarrow> string option \<Rightarrow> string \<Rightarrow> file_system
    \<Rightarrow> (register_error + register_report) \<times> file_system" where
  "register_direct c chmod_ok rename_ok exe home target fs =
     (case (home, map_of register_paths target) of
        (Some h, Some ps) \<Rightarrow> direct_write_json_config c chmod_ok rename_ok (path_join h ps) exe target fs
      | _ \<Rightarrow> (Inl (RegError ''no home dir''), fs))"

section \<open>Lemmas\<close>

lemma split_path: "parent_prefix p @ name_part p = p"
proof -
  have "rev (takeWhile (\<lambda>c. c \<noteq> CHR ''/'') (rev p) @ dropWhile (\<lambda>c. c \<noteq> CHR ''/'') (rev p)) = p"
    by simp
  then show ?thesis by (simp only: rev_append parent_prefix_def name_part_def)
qed

lemma bak_path_eq [simp]: "bak_path p = p @ ''.bak''" "bak_old_path p = p @ ''.bak.old''"
  using split_path [of p] by (simp_all add: bak_path_def bak_old_path_def)

lemma tmp_path_neq [simp]: "tmp_path p \<noteq> p" "p \<noteq> tmp_path p" "tmp_path p \<noteq> p @ ''.bak''" "tmp_path p \<noteq> p @ ''.bak.old''"
    "p @ ''.bak'' \<noteq> tmp_path p" "p @ ''.bak.old'' \<noteq> tmp_path p"
proof -
  have l: "length (tmp_path p) = length p + 11"
    using split_path [of p] by (simp add: tmp_path_def) (metis length_append)
  show "tmp_path p \<noteq> p" "p \<noteq> tmp_path p" "tmp_path p \<noteq> p @ ''.bak''" "tmp_path p \<noteq> p @ ''.bak.old''"
      "p @ ''.bak'' \<noteq> tmp_path p" "p @ ''.bak.old'' \<noteq> tmp_path p"
    using l by (auto dest!: arg_cong [where f = length])
qed

lemma obj_insert_idem: "obj_insert k v (obj_insert k v m) = obj_insert k v m"
  by (induction k v m rule: obj_insert.induct) auto

section \<open>Properties\<close>

text \<open>C20: an atomic write of \<open>register.rs\<close> cut anywhere, in the middle of a write or a copy too,
  touches no file but the configuration, its two backups and its temporary file; where the renames
  work the configuration is at every moment complete, the old content or the new one, and never
  missing; and whenever it is not the old content, the old content is whole in \<open>.bak\<close>.\<close>

theorem register_write_crash_safe:
  assumes "fs target = Some (Some old)"
  shows "(\<forall>p. p \<notin> {target, target @ ''.bak'', target @ ''.bak.old'', tmp_path target}
          \<longrightarrow> cut_file_ops k j (atomic_ops chmod_ok rename_ok fs target new) fs p = fs p)
    \<and> (let fs' = cut_file_ops k j (atomic_ops chmod_ok rename_ok fs target new) fs in
         (fs' target = Some (Some old) \<or> fs' (target @ ''.bak'') = Some (Some old))
         \<and> (rename_ok \<longrightarrow> fs' target = Some (Some old) \<or> fs' target = Some (Some new)))"
proof -
  let ?bak = "target @ ''.bak''" and ?old = "target @ ''.bak.old''" and ?tmp = "tmp_path target"
  note defs = assms cut_file_ops_def run_file_ops_def atomic_ops_def backup_ops_def write_ops_def Let_def
  consider "k = 0" | "k = 1" | "k = 2" | "k = 3" | "k = 4" | "k = 5" | "6 \<le> k" by linarith
  then show ?thesis
  proof cases
    case 7
    moreover have "length (atomic_ops chmod_ok rename_ok fs target new) \<le> 6"
      by (simp add: atomic_ops_def backup_ops_def write_ops_def)
    ultimately have "take k (atomic_ops chmod_ok rename_ok fs target new) = atomic_ops chmod_ok rename_ok fs target new"
        "\<not> k < length (atomic_ops chmod_ok rename_ok fs target new)"
      by simp_all
    then show ?thesis
      by (cases "fs ?bak"; cases chmod_ok; cases rename_ok) (simp_all add: defs split: option.split)
  qed (cases "fs ?bak"; cases chmod_ok; cases rename_ok; simp add: defs eval_nat_numeral split: option.split)+
qed

theorem register_write_crash_safe_witness:
  "let fs = [''/h/.claude.json'' \<mapsto> Some ''old''];
       fs' = cut_file_ops 3 2 (atomic_ops True True fs ''/h/.claude.json'' ''new'') fs
   in fs' ''/h/.claude.json'' \<in> {Some (Some ''old''), Some (Some ''new'')}"
  using register_write_crash_safe [of "[''/h/.claude.json'' \<mapsto> Some ''old'']" "''/h/.claude.json''" "''old''" 3 2 True True "''new''"]
  by (simp add: Let_def)

text \<open>Registering a server keeps every other server and every other key of the
  configuration, and registering it again changes nothing; a configuration whose \<open>mcpServers\<close> is
  no object panics and is not written.\<close>

theorem register_upsert_effect:
  "case upsert_mcp_server (JObj obj) exe of
     Inl e \<Rightarrow> (\<exists>v. map_of obj ''mcpServers'' = Some v \<and> as_object v = None \<and> e = RegPanic ''mcpServers must be object'')
   | Inr (present, v) \<Rightarrow>
       (present \<longleftrightarrow> Option.bind (jget ''mcpServers'' (JObj obj)) (jget ''amore'') \<noteq> None)
       \<and> Option.bind (jget ''mcpServers'' v) (jget ''amore'') = Some (amore_entry_json exe)
       \<and> upsert_mcp_server v exe = Inr (True, v)
       \<and> list_all (\<lambda>n. n = ''amore'' \<or> Option.bind (jget ''mcpServers'' v) (jget n)
           = Option.bind (jget ''mcpServers'' (JObj obj)) (jget n)) names
       \<and> list_all (\<lambda>k. k = ''mcpServers'' \<or> jget k v = jget k (JObj obj)) keys"
  by (auto simp: upsert_mcp_server_def Let_def obj_or_insert_lookup obj_or_insert_present obj_insert_lookup
      obj_insert_idem list_all_iff
      split: json.splits option.splits if_splits)

end
