(* ===== verification/TantivyIndex.thy ===== *)
theory TantivyIndex
  imports SqliteStore Porter1
begin

text \<open>
  The alternative full-text lane \<open>crates/amore-core/src/tantivy_index.rs\<close>: the schema and the analyzer, the opening of
  an index in memory or in a directory, a writer that buffers documents until a commit, and the search over the
  committed ones.  The tokenizer and the lower-casing filter, the query parser and the scoring of Tantivy are
  parameters; which of its calls fail is an input.
\<close>

section \<open>Schema and analyzer\<close>

text \<open>A field: a stored number, or a stored text with the name of its tokenizer, indexed with frequencies and
  positions.\<close>

datatype schema_field = U64Field | TextField string

definition PORTER1_TOKENIZER :: string where "PORTER1_TOKENIZER = ''porter1''"

definition build_schema :: "(string \<times> schema_field) list" where
  "build_schema = [(''doc_id'', U64Field), (''body'', TextField PORTER1_TOKENIZER)]"

text \<open>The analyzers by name; \<open>simple\<close> and \<open>lower\<close> are those of Tantivy.\<close>

type_synonym analyzers = "string \<rightharpoonup> (string \<Rightarrow> string list option)"

definition register_porter1 :: "(string \<Rightarrow> string list) \<Rightarrow> (string \<Rightarrow> string) \<Rightarrow> analyzers \<Rightarrow> analyzers" where
  "register_porter1 simple lower A = A(PORTER1_TOKENIZER \<mapsto> (\<lambda>text. porter1_stream (map lower (simple text))))"

section \<open>The index\<close>

record tantivy_index =
  buffered :: "(u64 \<times> string) list"
  committed :: "(u64 \<times> string) list"

datatype tantivy_io = CreateIndexDir | OpenMmapDir | OpenIndex | CreateWriter | AddDocument | CommitWriter

definition get_field :: "string \<Rightarrow> (string \<times> schema_field) list \<Rightarrow> string + schema_field" where
  "get_field name schema =
     (case map_of schema name of
        Some f \<Rightarrow> Inr f
      | None \<Rightarrow> Inl (''invariant: '' @ name @ '' field must exist in schema''))"

text \<open>The committed documents of the index directories; \<open>:memory:\<close> is none.\<close>

type_synonym index_dirs = "string \<rightharpoonup> (u64 \<times> string) list"

definition in_memory :: "string \<Rightarrow> bool" where
  "in_memory path \<longleftrightarrow> path = '':memory:''"

definition tantivy_new :: "(tantivy_io \<Rightarrow> bool) \<Rightarrow> string \<Rightarrow> index_dirs \<Rightarrow> string + tantivy_index" where
  "tantivy_new fails path disk =
     (case get_field ''doc_id'' build_schema of Inl e \<Rightarrow> Inl e | Inr _ \<Rightarrow>
      case get_field ''body'' build_schema of Inl e \<Rightarrow> Inl e | Inr _ \<Rightarrow>
      case (if in_memory path then Inr []
            else if fails CreateIndexDir then Inl (''create tantivy dir at '' @ path)
            else if fails OpenMmapDir then Inl (''open mmap dir at '' @ path)
            else if fails OpenIndex then Inl (''open_or_create tantivy index at '' @ path)
            else Inr (case disk path of Some ds \<Rightarrow> ds | None \<Rightarrow> []))
      of Inl e \<Rightarrow> Inl e
       | Inr ds \<Rightarrow>
           if fails CreateWriter then Inl ''create tantivy IndexWriter''
           else Inr \<lparr>buffered = [], committed = ds\<rparr>)"

definition tantivy_add :: "(tantivy_io \<Rightarrow> bool) \<Rightarrow> u64 \<Rightarrow> string \<Rightarrow> tantivy_index \<Rightarrow> (string + unit) \<times> tantivy_index" where
  "tantivy_add fails i text T =
     (if fails AddDocument then (Inl ''add document to tantivy writer'', T)
      else (Inr (), T\<lparr>buffered := buffered T @ [(i, text)]\<rparr>))"

text \<open>A commit makes the documents searchable and, for an index in a directory, durable.\<close>

definition tantivy_commit ::
  "(tantivy_io \<Rightarrow> bool) \<Rightarrow> string \<Rightarrow> index_dirs \<Rightarrow> tantivy_index \<Rightarrow> (string + unit) \<times> index_dirs \<times> tantivy_index" where
  "tantivy_commit fails path disk T =
     (if fails CommitWriter then (Inl ''tantivy writer commit'', disk, T)
      else let ds = committed T @ buffered T in
           (Inr (), if in_memory path then disk else disk(path \<mapsto> ds), T\<lparr>buffered := [], committed := ds\<rparr>))"

datatype search_failure = SearchError string | LimitPanic

text \<open>\<open>parses\<close>: the query parser accepts the text; \<open>run\<close>: the best documents for a query, with
  their scores, at most as many as asked.  A limit of zero panics in \<open>TopDocs::with_limit\<close>.\<close>

definition tantivy_search ::
  "(string \<Rightarrow> bool) \<Rightarrow> (string \<Rightarrow> (u64 \<times> string) list \<Rightarrow> nat \<Rightarrow> string + (u64 \<times> rat) list) \<Rightarrow> string \<Rightarrow> usize
    \<Rightarrow> tantivy_index \<Rightarrow> search_failure + (u64 \<times> rat) list" where
  "tantivy_search parses run query top_k T =
     (let q = sanitize query in
      if q = [] then Inr []
      else if \<not> parses q then Inr []
      else if top_k = 0 then Inl LimitPanic
      else (case run q (committed T) (unat top_k) of
          Inl e \<Rightarrow> Inl (SearchError e)
        | Inr hs \<Rightarrow> Inr (sort_desc snd (sort_key fst hs))))"

section \<open>Lemmas\<close>

lemma schema_complete: "get_field ''doc_id'' build_schema = Inr U64Field" "get_field ''body'' build_schema = Inr (TextField PORTER1_TOKENIZER)"
  by (simp_all add: get_field_def build_schema_def)

text \<open>The tokenizer that the schema names is registered, and it never panics: every text can be indexed.\<close>

lemma body_analyzer_total:
  "\<exists>analyze. get_field ''body'' build_schema = Inr (TextField PORTER1_TOKENIZER)
    \<and> register_porter1 simple lower A PORTER1_TOKENIZER = Some analyze
    \<and> (\<exists>ts. analyze text = Some ts \<and> length ts = length (simple text))"
  using porter1_stream_result [of "map lower (simple text)"]
  by (auto simp: schema_complete register_porter1_def dest: list_all2_lengthD)

lemma uncommitted_invisible:
  "tantivy_search parses run query k (snd (tantivy_add fails i text T)) = tantivy_search parses run query k T"
  by (simp add: tantivy_search_def tantivy_add_def Let_def)

text \<open>An index in a directory that is opened again has what was committed, and loses what was only buffered.\<close>

lemma reopen_keeps_committed:
  assumes "\<not> in_memory path" and "tantivy_commit fails path disk T = (Inr (), disk', T')"
    and "tantivy_new fails' path disk' = Inr T2"
  shows "T2 = T' \<and> committed T2 = committed T @ buffered T
    \<and> tantivy_new fails' path disk' = (if fails' CreateWriter then Inl ''create tantivy IndexWriter'' else Inr T')"
  using assms
  by (auto simp: tantivy_new_def tantivy_commit_def schema_complete Let_def split: if_splits)

lemma sort_desc_tie_order:
  assumes "sorted_wrt (\<lambda>x y. g x \<le> (g y :: 'b :: linorder)) xs"
  shows "sorted_wrt (\<lambda>x y. f y < f x \<or> f x = f y \<and> g x \<le> g y) (sort_desc f xs)"
  using assms
proof -
  have fil: "sorted_wrt (\<lambda>x y. g x \<le> g y) (filter (\<lambda>z. f z = k) (sort_desc f xs))" for k
    using assms by (simp add: sort_desc_stable sorted_wrt_filter)
  have "f y < f x \<or> f x = f y \<and> g x \<le> g y"
    if ij: "i < j" "j < length (sort_desc f xs)" "x = sort_desc f xs ! i" "y = sort_desc f xs ! j" for i j x y
  proof (cases "f x = f y")
    case True
    let ?l = "sort_desc f xs"
    have sp: "?l = take j ?l @ y # drop (Suc j) ?l" using ij by (simp add: id_take_nth_drop)
    have "x \<in> set (take j ?l)" using ij by (auto simp: in_set_conv_nth)
    with True have "x \<in> set (filter (\<lambda>z. f z = f y) (take j ?l))" by simp
    moreover have "filter (\<lambda>z. f z = f y) ?l
        = filter (\<lambda>z. f z = f y) (take j ?l) @ y # filter (\<lambda>z. f z = f y) (drop (Suc j) ?l)"
      by (subst sp) simp
    ultimately have "g x \<le> g y" using fil [of "f y"] by (simp add: sorted_wrt_append)
    with True show ?thesis by simp
  next
    case False
    have "f y \<le> f x" using sorted_wrt_nth_less [OF sort_desc_sorted ij(1,2)] ij(3,4) by simp
    with False show ?thesis by simp
  qed
  then show ?thesis by (simp add: sorted_wrt_iff_nth_less)
qed

text \<open>Best score first, ties by ascending document id.\<close>

lemma tantivy_search_order:
  assumes "tantivy_search parses run query k T = Inr hs"
  shows "sorted_wrt (\<lambda>x y. snd y < snd x \<or> snd x = snd y \<and> fst x \<le> fst y) hs"
proof -
  have "sorted_wrt (\<lambda>x y. fst x \<le> fst y) (sort_key fst xs)" for xs :: "(u64 \<times> rat) list"
    using sorted_sort_key [of fst xs] by (simp add: sorted_wrt_map)
  then show ?thesis
    using assms sort_desc_tie_order [of fst _ snd]
    by (auto simp: tantivy_search_def Let_def split: if_splits sum.splits)
qed

end
