(* ===== verification/Reranker.thy ===== *)
theory Reranker
  imports Complex_Main Prelude
begin

text \<open>
  The cross-encoder reranker \<open>crates/amore-core/src/reranker.rs\<close>: the padding of a batch of token
  sequences into flat tensors, and the selection of the best candidates by the model's scores.
  The tokenizer and the ONNX session are parameters.
\<close>

definition DEFAULT_MAX_LENGTH :: nat where "DEFAULT_MAX_LENGTH = 512"

record encoding =
  enc_ids :: "u32 list"
  enc_mask :: "u32 list"
  enc_types :: "u32 list"

definition batch_len :: "nat \<Rightarrow> encoding list \<Rightarrow> nat" where
  "batch_len max_length es = min (foldr max (map (\<lambda>e. length (enc_ids e)) es) 0) max_length"

text \<open>One row: the first \<open>seq_len\<close> entries, padded with zeros.\<close>

definition pad_row :: "nat \<Rightarrow> nat \<Rightarrow> u32 list \<Rightarrow> int list" where
  "pad_row seq_len actual xs = map (\<lambda>i. if i < actual then uint (xs ! i) else 0) [0..<seq_len]"

definition flatten :: "nat \<Rightarrow> (encoding \<Rightarrow> u32 list) \<Rightarrow> encoding list \<Rightarrow> int list" where
  "flatten seq_len part es =
     concat (map (\<lambda>e. pad_row seq_len (min (length (enc_ids e)) seq_len) (part e)) es)"

text \<open>\<open>encode\<close>: the encodings of the pairs of the query and the texts; \<open>session\<close>: the logits for a
  shape and three flat tensors.\<close>

definition rerank ::
  "(string \<Rightarrow> string list \<Rightarrow> string + encoding list) \<Rightarrow> (nat \<Rightarrow> nat \<Rightarrow> int list \<Rightarrow> int list \<Rightarrow> int list \<Rightarrow> string + rat list)
    \<Rightarrow> nat \<Rightarrow> string \<Rightarrow> (u64 \<times> string) list \<Rightarrow> usize \<Rightarrow> string + (u64 \<times> rat) list" where
  "rerank encode session max_length query candidates top_k =
     (if candidates = [] then Inr []
      else (case encode query (map snd candidates) of
          Inl e \<Rightarrow> Inl e
        | Inr es \<Rightarrow>
            (let seq_len = batch_len max_length es in
             if seq_len = 0 then Inr []
             else (case session (length candidates) seq_len (flatten seq_len enc_ids es)
                     (flatten seq_len enc_mask es) (flatten seq_len enc_types es) of
                 Inl e \<Rightarrow> Inl e
               | Inr logits \<Rightarrow>
                   Inr (take (unat top_k) (sort_desc snd (zip (map fst candidates) logits)))))))"

text \<open>Construction: the two files are looked for first, then the runtime library is loaded, then the
  session and the tokenizer are built from the files.  \<open>ort_init\<close>, \<open>open_session\<close> and \<open>open_tokenizer\<close>
  are the libraries' loaders.\<close>

definition ensure_ort_init :: "(string \<rightharpoonup> string) \<Rightarrow> (string \<Rightarrow> string + unit) \<Rightarrow> string + unit" where
  "ensure_ort_init env ort_init =
     (case env ''ORT_DYLIB_PATH'' of
        None \<Rightarrow> Inl ''ORT_DYLIB_PATH is not set''
      | Some p \<Rightarrow> ort_init p)"

definition new_with_max_length ::
  "(string \<Rightarrow> bool) \<Rightarrow> (string \<rightharpoonup> string) \<Rightarrow> (string \<Rightarrow> string + unit) \<Rightarrow> (string \<Rightarrow> string + 's) \<Rightarrow> (string \<Rightarrow> string + 't)
    \<Rightarrow> string \<Rightarrow> string \<Rightarrow> nat \<Rightarrow> string + 's \<times> 't \<times> nat" where
  "new_with_max_length exists env ort_init open_session open_tokenizer model_path tokenizer_path max_length =
     (if \<not> exists model_path then Inl (''ONNX model not found at '' @ model_path)
      else if \<not> exists tokenizer_path then Inl (''tokenizer.json not found at '' @ tokenizer_path)
      else (case ensure_ort_init env ort_init of
          Inl e \<Rightarrow> Inl e
        | Inr _ \<Rightarrow> (case open_session model_path of
            Inl e \<Rightarrow> Inl e
          | Inr s \<Rightarrow> (case open_tokenizer tokenizer_path of
              Inl e \<Rightarrow> Inl e
            | Inr t \<Rightarrow> Inr (s, t, max_length)))))"

definition from_default_paths ::
  "(string \<Rightarrow> bool) \<Rightarrow> (string \<rightharpoonup> string) \<Rightarrow> (string \<Rightarrow> string + unit) \<Rightarrow> (string \<Rightarrow> string + 's) \<Rightarrow> (string \<Rightarrow> string + 't)
    \<Rightarrow> string option \<Rightarrow> string + 's \<times> 't \<times> nat" where
  "from_default_paths exists env ort_init open_session open_tokenizer data_local_dir =
     (case data_local_dir of
        None \<Rightarrow> Inl ''could not resolve data_local_dir''
      | Some d \<Rightarrow>
          new_with_max_length exists env ort_init open_session open_tokenizer
            (d @ ''/Amore/models/bge-reranker-base.onnx'') (d @ ''/Amore/models/tokenizer.json'') DEFAULT_MAX_LENGTH)"

section \<open>Lemmas\<close>

lemma length_pad_row [simp]: "length (pad_row n m xs) = n"
  by (simp add: pad_row_def)

text \<open>The tensors have the shape that is announced, a row per candidate.\<close>

lemma length_flatten: "length (flatten n part es) = length es * n"
  by (simp add: flatten_def length_concat comp_def sum_list_triv)

lemma flatten_row:
  assumes "i < length es"
  shows "take n (drop (i * n) (flatten n part es))
    = pad_row n (min (length (enc_ids (es ! i))) n) (part (es ! i))"
  using assms
proof (induction es arbitrary: i)
  case (Cons e es)
  show ?case
  proof (cases i)
    case 0
    then show ?thesis by (simp add: flatten_def)
  next
    case (Suc j)
    with Cons have "take n (drop (j * n) (flatten n part es))
        = pad_row n (min (length (enc_ids (es ! j))) n) (part (es ! j))" by simp
    with Suc show ?thesis by (simp add: flatten_def add.commute)
  qed
qed simp

lemma rerank_result:
  assumes "rerank encode session m query cs k = Inr out"
  shows "length out \<le> unat k \<and> fst ` set out \<subseteq> fst ` set cs
    \<and> sorted_wrt (\<lambda>a b. snd b \<le> snd a) out"
  using assms
  by (auto simp: rerank_def Let_def sort_desc_sorted sorted_wrt_take dest!: in_set_takeD set_zip_leftD
      split: if_splits sum.splits)

end
