(* ===== verification/Calendar.thy ===== *)
theory Calendar
  imports Prelude
begin

text \<open>
  The time stamps of the evaluation programs: \<open>now_ts\<close> and \<open>epoch_days_to_ymd\<close>, which
  \<open>crates/amore-eval/src/bin/benchmark.rs\<close> and \<open>longmemeval_runner.rs\<close> each contain.  The code
  computes in \<open>u64\<close>; the days of a \<open>u64\<close> number of seconds are below \<open>2^48\<close>, no subtraction goes
  below zero and nothing wraps, so the model is on natural numbers.  The reference is the civil
  calendar itself: the successor of a date by the lengths of the months and the leap years.
\<close>

definition epoch_days_to_ymd :: "nat \<Rightarrow> nat \<times> nat \<times> nat" where
  "epoch_days_to_ymd z =
     (let z = z + 719468;
          era = z div 146097;
          doe = z - era * 146097;
          yoe = (doe - doe div 1460 + doe div 36524 - doe div 146096) div 365;
          y = yoe + era * 400;
          doy = doe - (365 * yoe + yoe div 4 - yoe div 100);
          mp = (5 * doy + 2) div 153;
          d = doy - (153 * mp + 2) div 5 + 1;
          m = (if mp < 10 then mp + 3 else mp - 9);
          y = (if m \<le> 2 then y + 1 else y)
      in (y, m, d))"

definition now_ts :: "nat \<Rightarrow> string" where
  "now_ts secs =
     (let sec = secs mod 60;
          mins = (secs div 60) mod 60;
          hour = (secs div 3600) mod 24;
          days = secs div 86400;
          (y, m, d) = epoch_days_to_ymd days
      in (if y < 10000 then dec_pad 4 y else dec_nat y) @ dec_pad 2 m @ dec_pad 2 d @ ''T''
         @ dec_pad 2 hour @ dec_pad 2 mins @ dec_pad 2 sec @ ''Z'')"

section \<open>The civil calendar\<close>

definition leap_year :: "nat \<Rightarrow> bool" where
  "leap_year y \<longleftrightarrow> (4 dvd y \<and> \<not> 100 dvd y) \<or> 400 dvd y"

definition month_length :: "nat \<Rightarrow> nat \<Rightarrow> nat" where
  "month_length y m =
     (if m = 2 then (if leap_year y then 29 else 28)
      else if m \<in> {4, 6, 9, 11} then 30 else 31)"

fun next_day :: "nat \<times> nat \<times> nat \<Rightarrow> nat \<times> nat \<times> nat" where
  "next_day (y, m, d) =
     (if d < month_length y m then (y, m, d + 1)
      else if m < 12 then (y, m + 1, 1)
      else (y + 1, 1, 1))"

definition valid_date :: "nat \<times> nat \<times> nat \<Rightarrow> bool" where
  "valid_date = (\<lambda>(y, m, d). 1 \<le> m \<and> m \<le> 12 \<and> 1 \<le> d \<and> d \<le> month_length y m)"

lemma next_day_valid: "valid_date x \<Longrightarrow> valid_date (next_day x)"
  by (cases x) (auto simp: valid_date_def month_length_def)

section \<open>The parts of the conversion\<close>

definition year_start :: "nat \<Rightarrow> nat" where
  "year_start yoe = 365 * yoe + yoe div 4 - yoe div 100"

definition year_index :: "nat \<Rightarrow> nat" where
  "year_index doe = (doe - doe div 1460 + doe div 36524 - doe div 146096) div 365"

definition month_day :: "nat \<Rightarrow> nat \<times> nat" where
  "month_day doy =
     (let mp = (5 * doy + 2) div 153
      in (if mp < 10 then mp + 3 else mp - 9, doy - (153 * mp + 2) div 5 + 1))"

definition civil :: "nat \<Rightarrow> nat \<Rightarrow> nat \<times> nat \<times> nat" where
  "civil yy doy = (let (m, d) = month_day doy in (if m \<le> 2 then yy + 1 else yy, m, d))"

lemma epoch_days_civil:
  "epoch_days_to_ymd z =
     (let n = z + 719468; era = n div 146097; doe = n mod 146097; yoe = year_index doe
      in civil (yoe + era * 400) (doe - year_start yoe))"
proof -
  have "n - n div 146097 * 146097 = n mod 146097" for n :: nat
    by (rule minus_div_mult_eq_mod)
  then show ?thesis
    by (simp only: epoch_days_to_ymd_def civil_def month_day_def year_start_def year_index_def Let_def prod.case)
qed

section \<open>Days of a year, counted from March\<close>

definition month_start :: "nat \<Rightarrow> nat" where
  "month_start mp = (153 * mp + 2) div 5"

lemma month_day_mp:
  assumes "month_start mp \<le> doy" and "doy < month_start (mp + 1)"
  shows "month_day doy = (if mp < 10 then mp + 3 else mp - 9, doy - month_start mp + 1)"
proof -
  have "153 * mp \<le> 5 * doy + 2" "5 * doy + 2 < 153 * (mp + 1)"
    using assms unfolding month_start_def by (linarith, linarith)
  then have "(5 * doy + 2) div 153 = mp" by (intro div_nat_eqI) (auto simp: mult.commute)
  then show ?thesis by (simp only: month_day_def month_start_def Let_def)
qed

lemma month_cases:
  assumes "doy < 366"
  obtains mp where "mp \<in> {0, 1, 2, 3, 4, 5, 6, 7, 8, 9, 10, 11}"
    and "month_start mp \<le> doy" and "doy < month_start (mp + 1)"
proof
  define q where "q = (5 * doy + 2) div 153"
  have "q \<le> 11" using assms unfolding q_def by linarith
  then show "q \<in> {0, 1, 2, 3, 4, 5, 6, 7, 8, 9, 10, 11}"
    by (simp only: insert_iff empty_iff) presburger
  define m where "m = (5 * doy + 2) mod 153"
  have "5 * doy + 2 = 153 * q + m" "m < 153"
    by (simp_all add: q_def m_def)
  then have "153 * q \<le> 5 * doy + 2" "5 * doy + 2 < 153 * (q + 1)"
    by simp_all
  then show "month_start q \<le> doy" "doy < month_start (q + 1)"
    unfolding month_start_def by linarith+
qed

lemma civil_same_year:
  assumes "doy < 364 \<or> doy = 364 \<and> leap_year (yy + 1)"
  shows "civil yy (doy + 1) = next_day (civil yy doy)"
proof -
  from assms have "doy < 366" by auto
  then obtain mp where mp: "mp \<in> {0, 1, 2, 3, 4, 5, 6, 7, 8, 9, 10, 11}"
    and b: "month_start mp \<le> doy" "doy < month_start (mp + 1)"
    by (rule month_cases)
  show ?thesis
  proof (cases "doy + 1 < month_start (mp + 1)")
    case True
    then have "month_day (doy + 1) = (if mp < 10 then mp + 3 else mp - 9, doy + 1 - month_start mp + 1)"
      using b by (intro month_day_mp) auto
    with mp show ?thesis
      by (elim insertE emptyE)
        (use month_day_mp [OF b] b True assms in \<open>auto simp: civil_def month_length_def month_start_def\<close>)
  next
    case False
    then have e: "doy + 1 = month_start (mp + 1)" using b by simp
    have "month_start (mp + 1) < month_start (mp + 1 + 1)" by (simp add: month_start_def)
    then have "month_day (doy + 1) = (if mp + 1 < 10 then mp + 1 + 3 else mp + 1 - 9, doy + 1 - month_start (mp + 1) + 1)"
      using e by (intro month_day_mp) auto
    with mp show ?thesis
      by (elim insertE emptyE)
        (use month_day_mp [OF b] e assms in \<open>auto simp: civil_def month_length_def month_start_def\<close>)
  qed
qed

lemma civil_next_year:
  assumes "doy = (if leap_year (yy + 1) then 365 else 364)"
  shows "civil (yy + 1) 0 = next_day (civil yy doy)"
  using assms by (simp add: civil_def month_day_def month_length_def)

section \<open>Years of an era\<close>

text \<open>A day of the era of 400 years is a century, a block of four years in it, a year of the block
  and a day of the year; only the last year of a block may have 366 days.\<close>

definition era_day :: "nat \<Rightarrow> nat \<Rightarrow> nat \<Rightarrow> nat \<Rightarrow> nat" where
  "era_day c b a r = 36524 * c + 1461 * b + 365 * a + r"

definition era_pos :: "nat \<Rightarrow> nat \<Rightarrow> nat \<Rightarrow> nat \<Rightarrow> bool" where
  "era_pos c b a r \<longleftrightarrow> c < 4 \<and> b < 25 \<and> a < 4 \<and> r \<le> 365 \<and> (r = 365 \<longrightarrow> a = 3 \<and> (b = 24 \<longrightarrow> c = 3))"

lemma era_day_ex:
  assumes "doe < 146097"
  shows "\<exists>c b a r. doe = era_day c b a r \<and> era_pos c b a r"
proof -
  define c where "c = min 3 (doe div 36524)"
  define n where "n = doe - 36524 * c"
  define b where "b = n div 1461"
  define k where "k = n mod 1461"
  define a where "a = min 3 (k div 365)"
  define r where "r = k - 365 * a"
  have n: "doe = 36524 * c + n" "c < 4" "n \<le> 36524" "n = 36524 \<longrightarrow> c = 3"
    using assms unfolding n_def c_def by (auto simp: min_def)
  have k: "n = 1461 * b + k" "k \<le> 1460" unfolding b_def k_def by simp_all
  then have b: "b < 25" using n by linarith
  have r: "k = 365 * a + r" "a < 4" "r \<le> 365" "r = 365 \<longrightarrow> a = 3"
    using k unfolding r_def a_def by (auto simp: min_def)
  have "r = 365 \<longrightarrow> b = 24 \<longrightarrow> c = 3" using r k n by auto
  with n k b r have "doe = era_day c b a r \<and> era_pos c b a r"
    by (simp add: era_day_def era_pos_def)
  then show ?thesis by blast
qed

lemma year_start_era:
  assumes "era_pos c b a r"
  shows "year_start (100 * c + 4 * b + a) = era_day c b a 0"
proof -
  have "(100 * c + 4 * b + a) div 4 = 25 * c + b" "(100 * c + 4 * b + a) div 100 = c"
    using assms by (auto simp: era_pos_def intro!: div_nat_eqI)
  then show ?thesis by (simp add: year_start_def era_day_def)
qed

lemma year_index_era:
  assumes "era_pos c b a r"
  shows "year_index (era_day c b a r) = 100 * c + 4 * b + a"
proof -
  let ?doe = "era_day c b a r"
  note P = assms [unfolded era_pos_def]
  define e where "e = (24 * c + b + 365 * a + r) div 1460"
  have e: "e \<le> 1" "e = 1 \<longleftrightarrow> 1460 \<le> 24 * c + b + 365 * a + r"
    unfolding e_def using P by (auto simp: div_nat_eqI)
  have q1: "?doe div 1460 = 25 * c + b + e"
    unfolding e_def era_day_def by linarith
  define f where "f = (if ?doe = 146096 then 1 else 0 :: nat)"
  have last: "?doe = 146096 \<longleftrightarrow> c = 3 \<and> b = 24 \<and> a = 3 \<and> r = 365"
  proof
    assume "?doe = 146096"
    then have s: "36524 * c + 1461 * b + 365 * a + r = 146096" by (simp add: era_day_def)
    have "c = 3" using s P by linarith
    moreover from this have "b = 24" using s P by linarith
    moreover from calculation have "a = 3" using s P by linarith
    ultimately show "c = 3 \<and> b = 24 \<and> a = 3 \<and> r = 365" using s by simp
  qed (simp add: era_day_def)
  have q2: "?doe div 36524 = c + f" and q3: "?doe div 146096 = f"
    using P last by (auto simp: f_def era_day_def intro!: div_nat_eqI)
  have re: "e \<le> r" "r - e < 365" using e P by auto
  have "?doe - ?doe div 1460 + ?doe div 36524 - ?doe div 146096 = 365 * (100 * c + 4 * b + a) + (r - e)"
    unfolding q1 q2 q3 using re by (simp add: era_day_def)
  then show ?thesis using re by (simp add: year_index_def)
qed

lemma leap_year_era:
  assumes "era_pos c b a r"
  shows "leap_year (100 * c + 4 * b + a + era * 400 + 1) \<longleftrightarrow> a = 3 \<and> (b = 24 \<longrightarrow> c = 3)"
proof -
  note P = assms [unfolded era_pos_def]
  define k where "k = 4 * b + a + 1"
  have k: "0 < k" "k \<le> 100" using P by (simp_all add: k_def)
  have y: "100 * c + 4 * b + a + era * 400 + 1 = 100 * (c + 4 * era) + k" by (simp add: k_def)
  have 100: "100 dvd 100 * n + k \<longleftrightarrow> k = 100" for n
    using k by (auto simp: dvd_add_right_iff dest: dvd_imp_le)
  have 4: "4 dvd 100 * n + k \<longleftrightarrow> a = 3" for n
  proof -
    have "100 * n + k = 4 * (25 * n + b) + (a + 1)" by (simp add: k_def)
    then have "4 dvd 100 * n + k \<longleftrightarrow> 4 dvd a + 1" by (simp only: dvd_add_right_iff dvd_triv_left)
    also have "\<dots> \<longleftrightarrow> a = 3" using P by presburger
    finally show ?thesis .
  qed
  have 400: "400 dvd 100 * (c + 4 * era) + k \<longleftrightarrow> k = 100 \<and> c = 3"
  proof
    assume a: "400 dvd 100 * (c + 4 * era) + k"
    then have "100 dvd 100 * (c + 4 * era) + k" by (rule dvd_trans [rotated]) simp
    then have "k = 100" by (simp only: 100)
    moreover from this a have "400 dvd 100 * (c + 1) + 400 * era" by (simp add: algebra_simps)
    then have "400 dvd 100 * (c + 1)" by (simp only: dvd_add_left_iff dvd_triv_left)
    then have "4 dvd c + 1" by presburger
    ultimately show "k = 100 \<and> c = 3" using P by presburger
  next
    assume "k = 100 \<and> c = 3"
    then have "100 * (c + 4 * era) + k = 400 * (era + 1)" by simp
    then show "400 dvd 100 * (c + 4 * era) + k" by (simp only: dvd_triv_left)
  qed
  have "k = 100 \<longleftrightarrow> b = 24 \<and> a = 3" using P unfolding k_def by presburger
  then show ?thesis unfolding leap_year_def y 100 4 400 by auto
qed

lemma epoch_days_era:
  assumes "z + 719468 = 146097 * era + era_day c b a r" and "era_pos c b a r"
  shows "epoch_days_to_ymd z = civil (100 * c + 4 * b + a + era * 400) r"
proof -
  have l: "era_day c b a r < 146097" using assms(2) by (auto simp: era_pos_def era_day_def)
  have "(z + 719468) div 146097 = era" "(z + 719468) mod 146097 = era_day c b a r"
    unfolding assms(1) using l by simp_all
  then show ?thesis
    by (simp only: epoch_days_civil Let_def year_index_era [OF assms(2)] year_start_era [OF assms(2)])
      (simp add: era_day_def)
qed

text \<open>The day after the last one of a year is the first one of the next year of the era, or of the
  next era.\<close>

lemma epoch_days_Suc: "epoch_days_to_ymd (Suc z) = next_day (epoch_days_to_ymd z)"
proof -
  define era where "era = (z + 719468) div 146097"
  have "(z + 719468) mod 146097 < 146097" by simp
  from era_day_ex [OF this] obtain c b a r where
    d: "(z + 719468) mod 146097 = era_day c b a r" and P: "era_pos c b a r" by blast
  have z: "z + 719468 = 146097 * era + era_day c b a r"
    unfolding era_def d [symmetric] by simp
  have z': "Suc z + 719468 = 146097 * era + era_day c b a r + 1" using z by (simp only: add_Suc Suc_eq_plus1)
  note now = epoch_days_era [OF z P]
  let ?yy = "100 * c + 4 * b + a + era * 400"
  note leap = leap_year_era [OF P, of era]
  note Q = P [unfolded era_pos_def]
  show ?thesis
  proof (cases "r < 364 \<or> r = 364 \<and> leap_year (?yy + 1)")
    case True
    then have P': "era_pos c b a (r + 1)" using Q leap by (auto simp: era_pos_def)
    have "Suc z + 719468 = 146097 * era + era_day c b a (r + 1)" unfolding z' by (simp add: era_day_def)
    from epoch_days_era [OF this P'] civil_same_year [OF True] now show ?thesis by (simp only:)
  next
    case False
    then have r: "r = (if leap_year (?yy + 1) then 365 else 364)" using Q leap by auto
    have r1: "r = 364" if "a < 3 \<or> b = 24 \<and> c < 3" using r leap that by auto
    have r2: "r = 365" if "a = 3" "b = 24 \<longrightarrow> c = 3" using r leap that by auto
    have "epoch_days_to_ymd (Suc z) = civil (?yy + 1) 0"
    proof -
      consider "a < 3" | "a = 3" "b < 24" | "a = 3" "b = 24" "c < 3" | "a = 3" "b = 24" "c = 3"
        using Q by linarith
      then show ?thesis
      proof cases
        case 1
        then have e: "r = 364" by (intro r1) simp_all
        with 1 Q have "era_pos c b (a + 1) 0" "Suc z + 719468 = 146097 * era + era_day c b (a + 1) 0"
          unfolding z' by (simp_all add: era_day_def era_pos_def)
        from epoch_days_era [OF this(2,1)] show ?thesis by (simp add: ac_simps)
      next
        case 2
        then have e: "r = 365" by (intro r2) simp_all
        with 2 Q have "era_pos c (b + 1) 0 0" "Suc z + 719468 = 146097 * era + era_day c (b + 1) 0 0"
          unfolding z' by (simp_all add: era_day_def era_pos_def)
        from epoch_days_era [OF this(2,1)] 2 show ?thesis by (simp add: ac_simps)
      next
        case 3
        then have e: "r = 364" by (intro r1) simp_all
        with 3 Q have "era_pos (c + 1) 0 0 0" "Suc z + 719468 = 146097 * era + era_day (c + 1) 0 0 0"
          unfolding z' by (simp_all add: era_day_def era_pos_def)
        from epoch_days_era [OF this(2,1)] 3 show ?thesis by (simp add: ac_simps)
      next
        case 4
        then have e: "r = 365" by (intro r2) simp_all
        with 4 Q have "era_pos 0 0 0 0" "Suc z + 719468 = 146097 * (era + 1) + era_day 0 0 0 0"
          unfolding z' by (simp_all add: era_day_def era_pos_def)
        from epoch_days_era [OF this(2,1)] 4 show ?thesis by (simp add: ac_simps)
      qed
    qed
    with civil_next_year [OF r] now show ?thesis by (simp only:)
  qed
qed

section \<open>Properties\<close>

text \<open>C17: The day numbers of \<open>epoch_days_to_ymd\<close> are the civil calendar: day zero is the first of January
  1970 and every further day is its successor by the lengths of the months, with the leap years of
  the Gregorian rule, so that every result is a valid date.\<close>

theorem epoch_days_is_calendar:
  "epoch_days_to_ymd z = (next_day ^^ z) (1970, 1, 1) \<and> valid_date (epoch_days_to_ymd z)"
proof (induction z)
  case 0
  have "epoch_days_to_ymd 0 = civil (100 * 3 + 4 * 17 + 1 + 4 * 400) 306"
    by (rule epoch_days_era) (simp_all add: era_day_def era_pos_def)
  then show ?case by (simp add: civil_def month_day_def valid_date_def month_length_def)
next
  case (Suc z)
  have "epoch_days_to_ymd (Suc z) = next_day (epoch_days_to_ymd z)"
    by (rule epoch_days_Suc)
  moreover have "valid_date (next_day (epoch_days_to_ymd z))"
    using Suc by (intro next_day_valid) blast
  ultimately show ?case using Suc by (simp only: funpow.simps comp_apply simp_thms)
qed

end
