(* ===== verification/Benchmark.thy ===== *)
theory Benchmark
  imports Calendar Float32 SqliteStore
begin

text \<open>
  The benchmark program \<open>crates/amore-eval/src/bin/benchmark.rs\<close>: the Zipf sampler and its
  generator, the simulation of the two cache levels, the latency, throughput and cold-start runs
  over an in-process store, and the sizes of the binaries.  Durations are measured inputs, in
  microseconds; the histogram of \<open>hdrhistogram\<close> is a parameter, and so are FTS5, the file system
  and the network.  A ratio with the divisor zero is NaN in the code and \<open>None\<close> here.
\<close>

section \<open>Zipf sampler and generator\<close>

record zipfian =
  z_n :: usize
  h_n :: rat

definition zipf_term :: "nat \<Rightarrow> rat" where
  "zipf_term k = f64 (1 / f64 (of_nat k))"

definition zipf_new :: "usize \<Rightarrow> zipfian" where
  "zipf_new n = \<lparr>z_n = n, h_n = foldl (\<lambda>s k. f64 (s + zipf_term k)) 0 [1..<Suc (unat n)]\<rparr>"

fun zipf_scan :: "rat \<Rightarrow> rat \<Rightarrow> nat list \<Rightarrow> nat option" where
  "zipf_scan target acc [] = None"
| "zipf_scan target acc (k # ks) =
     (let acc = f64 (acc + zipf_term k) in
      if target \<le> acc then Some (k - 1) else zipf_scan target acc ks)"

definition zipf_sample :: "zipfian \<Rightarrow> rat \<Rightarrow> usize" where
  "zipf_sample z u =
     (case zipf_scan (f64 (u * h_n z)) 0 [1..<Suc (unat (z_n z))] of
        Some i \<Rightarrow> of_nat i
      | None \<Rightarrow> z_n z - 1)"

definition lcg_next :: "u64 \<Rightarrow> u64" where
  "lcg_next s = s * 6364136223846793005 + 1442695040888963407"

definition next_f64 :: "u64 \<Rightarrow> rat \<times> u64" where
  "next_f64 s = (let s' = lcg_next s in (f64 (f64 (of_nat (unat (drop_bit 11 s'))) / 2 ^ 53), s'))"

section \<open>The two cache levels\<close>

record lru =
  lru_cap :: nat
  lru_data :: "usize set"
  lru_ord :: "usize list"

definition lru_new :: "nat \<Rightarrow> lru" where
  "lru_new cap = \<lparr>lru_cap = cap, lru_data = {}, lru_ord = []\<rparr>"

definition lru_hit :: "lru \<Rightarrow> usize \<Rightarrow> bool" where
  "lru_hit c k \<longleftrightarrow> k \<in> lru_data c"

definition lru_evict :: "lru \<Rightarrow> lru" where
  "lru_evict c =
     (if lru_cap c \<le> card (lru_data c)
      then (case lru_ord c of
          [] \<Rightarrow> c
        | ev # rest \<Rightarrow> c\<lparr>lru_data := lru_data c - {ev}, lru_ord := rest\<rparr>)
      else c)"

definition lru_access :: "usize \<Rightarrow> lru \<Rightarrow> lru" where
  "lru_access k c =
     (if k \<in> lru_data c then c
      else let c = lru_evict c
           in c\<lparr>lru_data := insert k (lru_data c), lru_ord := lru_ord c @ [k]\<rparr>)"

record cache_sim =
  sim_rng :: u64
  sim_l1 :: lru
  sim_l2 :: lru
  sim_h1 :: nat
  sim_h2 :: nat
  sim_miss :: nat

definition warm_step :: "zipfian \<Rightarrow> cache_sim \<Rightarrow> cache_sim" where
  "warm_step z c =
     (let (u, g) = next_f64 (sim_rng c); k = zipf_sample z u
      in c\<lparr>sim_rng := g, sim_l1 := lru_access k (sim_l1 c), sim_l2 := lru_access k (sim_l2 c)\<rparr>)"

definition measure_step :: "zipfian \<Rightarrow> cache_sim \<Rightarrow> cache_sim" where
  "measure_step z c =
     (let (u, g) = next_f64 (sim_rng c); k = zipf_sample z u; c = c\<lparr>sim_rng := g\<rparr> in
      if lru_hit (sim_l1 c) k then c\<lparr>sim_h1 := sim_h1 c + 1, sim_l1 := lru_access k (sim_l1 c)\<rparr>
      else if lru_hit (sim_l2 c) k then c\<lparr>sim_h2 := sim_h2 c + 1, sim_l1 := lru_access k (sim_l1 c)\<rparr>
      else c\<lparr>sim_miss := sim_miss c + 1, sim_l1 := lru_access k (sim_l1 c), sim_l2 := lru_access k (sim_l2 c)\<rparr>)"

definition sim_run :: "nat \<Rightarrow> cache_sim" where
  "sim_run queries =
     (let warmup = queries div 2; z = zipf_new 10000;
          start = \<lparr>sim_rng = 42, sim_l1 = lru_new 256, sim_l2 = lru_new 4096, sim_h1 = 0, sim_h2 = 0, sim_miss = 0\<rparr>
      in (measure_step z ^^ (queries - warmup)) ((warm_step z ^^ warmup) start))"

definition ratio64 :: "nat \<Rightarrow> nat \<Rightarrow> rat option" where
  "ratio64 a b = (if b = 0 then None else Some (f64 (f64 (of_nat a) / f64 (of_nat b))))"

record cache_hit_ratio_result =
  l1_hit_ratio :: "rat option"
  l2_hit_ratio :: "rat option"
  combined_hit_ratio :: "rat option"
  warmup_queries :: nat
  measurement_queries :: nat

definition run_cache_hit_ratio :: "nat \<Rightarrow> cache_hit_ratio_result" where
  "run_cache_hit_ratio queries =
     (let warmup = queries div 2; measured = queries - warmup; c = sim_run queries
      in \<lparr>l1_hit_ratio = ratio64 (sim_h1 c) measured, l2_hit_ratio = ratio64 (sim_h2 c) measured,
          combined_hit_ratio = ratio64 (sim_h1 c + sim_h2 c) measured,
          warmup_queries = warmup, measurement_queries = measured\<rparr>)"

section \<open>Lemmas on the sampler and the caches\<close>

lemma u64_bound: "unat (w :: u64) < 2 ^ 64"
  using unsigned_less [of w, where ?'a = nat] by simp

lemma zipf_scan_Some: "zipf_scan t a ks = Some i \<Longrightarrow> \<exists>k \<in> set ks. i = k - 1"
  by (induction ks arbitrary: a) (auto simp: Let_def split: if_splits)

text \<open>A sample is an index of the corpus.\<close>

lemma zipf_sample_range:
  assumes "0 < z_n z"
  shows "zipf_sample z u < z_n z"
proof (cases "zipf_scan (f64 (u * h_n z)) 0 [1..<Suc (unat (z_n z))]")
  case None
  have "z_n z \<noteq> 0" using assms by auto
  with None show ?thesis by (simp add: zipf_sample_def measure_unat word_less_nat_alt)
next
  case (Some i)
  from zipf_scan_Some [OF Some] assms have "i < unat (z_n z)" by (auto simp: word_less_nat_alt)
  moreover from this have "unat (of_nat i :: usize) = i"
    using u64_bound [of "z_n z"] by (simp add: unsigned_of_nat take_bit_nat_eq_self)
  ultimately show ?thesis using Some by (simp add: zipf_sample_def word_less_nat_alt)
qed

text \<open>The 53 bits of a draw are exact, so it lies in the unit interval.\<close>

lemma next_f64_exact:
  "fst (next_f64 s) = of_nat (unat (drop_bit 11 (lcg_next s))) / 2 ^ 53"
  and next_f64_unit: "0 \<le> fst (next_f64 s)" "fst (next_f64 s) < 1"
proof -
  define n where "n = unat (drop_bit 11 (lcg_next s))"
  have n: "n < 2 ^ 53" unfolding n_def
    using u64_bound [of "lcg_next s"] by (simp add: drop_bit_eq_div unat_div less_mult_imp_div_less)
  let ?y = "of_nat n / 2 ^ 53 :: rat"
  have "(of_nat n :: rat) < of_nat (2 ^ 53)" using n of_nat_less_iff by blast
  then have lt: "?y < 1" by (simp add: divide_less_eq)
  have "f64 ?y = ?y"
  proof (cases "n = 0")
    case False
    then have y: "0 < ?y" by simp
    then have "(2 :: rat) powi (flog2 ?y) < 2 powi 0" using flog2_bounds(1) [OF y] lt by simp
    then have "flog2 ?y < 0" by (simp only: powi_less_iff)
    then have "ulp_exp 52 (- 1074) ?y \<le> - 53" by (simp add: ulp_exp_def)
    moreover have "?y = of_int (int n) * 2 powi (- 53)" by (simp add: power_int_def field_simps)
    ultimately have "round_pos 52 (- 1074) ?y = ?y" by (rule round_pos_exact [rotated])
    with y show ?thesis by (simp add: f64_def round_to_def)
  qed simp
  then have e: "fst (next_f64 s) = ?y"
    unfolding next_f64_def Let_def n_def [symmetric] by (simp only: f64_of_nat [OF n] fst_conv)
  then show "fst (next_f64 s) = of_nat (unat (drop_bit 11 (lcg_next s))) / 2 ^ 53" by (simp only: n_def)
  show "0 \<le> fst (next_f64 s)" "fst (next_f64 s) < 1" unfolding e using lt by simp_all
qed

definition lru_ok :: "lru \<Rightarrow> bool" where
  "lru_ok c \<longleftrightarrow> lru_data c = set (lru_ord c) \<and> distinct (lru_ord c)
     \<and> length (lru_ord c) \<le> lru_cap c \<and> 0 < lru_cap c"

lemma lru_new_ok: "0 < n \<Longrightarrow> lru_ok (lru_new n)"
  by (simp add: lru_ok_def lru_new_def)

lemma lru_access_ok: "lru_ok c \<Longrightarrow> lru_ok (lru_access k c) \<and> lru_cap (lru_access k c) = lru_cap c \<and> lru_hit (lru_access k c) k"
  by (cases "lru_ord c")
    (auto simp: lru_ok_def lru_access_def lru_evict_def lru_hit_def Let_def distinct_card)

text \<open>The replacement is first in, first out: a hit does not renew an entry, and what leaves is
  the entry that came first, however often it was used since.\<close>

lemma lru_is_fifo:
  assumes "lru_ok c"
  shows "lru_ord (lru_access k c) =
    (if lru_hit c k then lru_ord c
     else (if length (lru_ord c) = lru_cap c then tl (lru_ord c) else lru_ord c) @ [k])"
  using assms
  by (cases "lru_ord c") (auto simp: lru_ok_def lru_access_def lru_evict_def lru_hit_def Let_def distinct_card)

text \<open>A simulated access keeps both levels well formed and counts exactly one of hit, second-level
  hit and miss.\<close>

definition sim_ok :: "cache_sim \<Rightarrow> bool" where
  "sim_ok c \<longleftrightarrow> lru_ok (sim_l1 c) \<and> lru_ok (sim_l2 c) \<and> lru_cap (sim_l1 c) = 256 \<and> lru_cap (sim_l2 c) = 4096"

definition sim_count :: "cache_sim \<Rightarrow> nat" where
  "sim_count c = sim_h1 c + sim_h2 c + sim_miss c"

lemma warm_step_ok: "sim_ok c \<Longrightarrow> sim_ok (warm_step z c) \<and> sim_count (warm_step z c) = sim_count c"
  by (simp add: sim_ok_def sim_count_def warm_step_def lru_access_ok Let_def split: prod.split)

lemma measure_step_ok: "sim_ok c \<Longrightarrow> sim_ok (measure_step z c) \<and> sim_count (measure_step z c) = sim_count c + 1"
  by (simp add: sim_ok_def sim_count_def measure_step_def lru_access_ok Let_def split: prod.split)

lemma warm_run_ok: "sim_ok c \<Longrightarrow> sim_ok ((warm_step z ^^ n) c) \<and> sim_count ((warm_step z ^^ n) c) = sim_count c"
  by (induction n) (use warm_step_ok in auto)

lemma measure_run_ok: "sim_ok c \<Longrightarrow> sim_ok ((measure_step z ^^ n) c) \<and> sim_count ((measure_step z ^^ n) c) = sim_count c + n"
  by (induction n) (use measure_step_ok in auto)

lemma sim_run_ok: "sim_ok (sim_run q) \<and> sim_count (sim_run q) = q - q div 2"
proof -
  let ?s = "\<lparr>sim_rng = 42, sim_l1 = lru_new 256, sim_l2 = lru_new 4096, sim_h1 = 0, sim_h2 = 0, sim_miss = 0\<rparr>"
  have s: "sim_ok ?s" "sim_count ?s = 0"
    by (simp_all add: sim_ok_def sim_count_def lru_new_ok) (simp_all add: lru_new_def)
  from warm_run_ok [OF s(1), where z = "zipf_new 10000" and n = "q div 2"]
  have "sim_ok ((warm_step (zipf_new 10000) ^^ (q div 2)) ?s)"
    "sim_count ((warm_step (zipf_new 10000) ^^ (q div 2)) ?s) = 0" using s(2) by auto
  from measure_run_ok [OF this(1), where z = "zipf_new 10000" and n = "q - q div 2"] this(2) show ?thesis
    unfolding sim_run_def Let_def by simp
qed

lemma ratio64_unit: "a \<le> b \<Longrightarrow> 0 < b \<Longrightarrow> \<exists>r. ratio64 a b = Some r \<and> 0 \<le> r \<and> r \<le> 1"
proof -
  assume "a \<le> b" "0 < b"
  then have "0 \<le> f64 (of_nat a)" "f64 (of_nat a) \<le> f64 (of_nat b)" by (simp_all add: f64_mono)
  moreover have "1 \<le> f64 (of_nat b)" using f64_mono [of 1 "of_nat b"] \<open>0 < b\<close> by (simp add: Suc_leI)
  ultimately have "0 \<le> f64 (of_nat a) / f64 (of_nat b)" "f64 (of_nat a) / f64 (of_nat b) \<le> 1"
    by (auto simp: divide_le_eq_1)
  with \<open>0 < b\<close> show ?thesis by (simp add: ratio64_def f64_le_1)
qed

section \<open>The runs over an in-process store\<close>

definition doc_words :: string where
  "doc_words = '' rust async memory agent recall session context embedding bm25 fts5 tantivy hybrid search index corpus benchmark query latency throughput token reduction canonical docs router excerpt provenance snapshot backup kopia qdrant ollama sqlite worker compaction wal circuit breaker cross encoder reranker cosine rrf score''"

definition doc_id_of :: "nat \<Rightarrow> string" where
  "doc_id_of i = ''doc-'' @ dec_nat i"

definition doc_payload :: "nat \<Rightarrow> json" where
  "doc_payload i =
     JObj [(''session_id'', JStr (doc_id_of i)), (''text'', JStr (''observation '' @ dec_nat i @ doc_words))]"

text \<open>The libraries and the clocks of a run: SHA-256, the canonical form, FTS5, whether the
  \<open>i\<close>-th insertion fails, and its clock readings.\<close>

record mock_env =
  me_sha :: "bytes \<Rightarrow> bytes"
  me_canon :: "json \<Rightarrow> string option"
  me_fts :: fts5
  me_fault :: "nat \<Rightarrow> bool"
  me_nanos :: "nat \<Rightarrow> nat"
  me_now :: "nat \<Rightarrow> int"

fun seed_docs :: "mock_env \<Rightarrow> nat list \<Rightarrow> sqlite_store \<Rightarrow> string + sqlite_store" where
  "seed_docs E [] S = Inr S"
| "seed_docs E (i # is) S =
     (case insert_observation (me_sha E) (me_canon E) (me_fault E i) (me_nanos E i) (me_now E i)
             (doc_id_of i) (doc_payload i) S of
        (Inl e, _) \<Rightarrow> Inl (''seed doc '' @ dec_nat i)
      | (Inr _, S') \<Rightarrow> seed_docs E is S')"

definition seed_mock_store :: "mock_env \<Rightarrow> nat \<Rightarrow> string + sqlite_store" where
  "seed_mock_store E n = seed_docs E [0..<n] empty_store"

definition QUERIES :: "string list" where
  "QUERIES = [''rust async memory recall'', ''bm25 search index corpus'', ''session context embedding'',
     ''canonical docs router excerpt'', ''tantivy hybrid search'', ''snapshot backup kopia'',
     ''circuit breaker latency'', ''token reduction benchmark'', ''qdrant vector cosine'', ''compaction wal worker'']"

definition query_for_idx :: "nat \<Rightarrow> string" where
  "query_for_idx i = QUERIES ! (i mod length QUERIES)"

text \<open>\<open>reachable\<close>: a TCP connection to a socket address within two seconds; an address that is no
  socket address, a host name for instance, does not parse.\<close>

function trim_prefixes :: "string \<Rightarrow> string \<Rightarrow> string" where
  "trim_prefixes p s = (if p \<noteq> [] \<and> starts_with s p then trim_prefixes p (drop (length p) s) else s)"
  by pat_completeness auto
termination
  by (relation "measure (\<lambda>(p, s). length s)") (auto simp: starts_with_def neq_Nil_conv intro: diff_less)

declare trim_prefixes.simps [simp del]

definition daemon_reachable :: "(string \<Rightarrow> 'a option) \<Rightarrow> ('a \<Rightarrow> bool) \<Rightarrow> string \<Rightarrow> bool" where
  "daemon_reachable parse_addr connects addr =
     (let a = trim_prefixes ''http://'' addr;
          a = trim_prefixes ''https://'' a;
          a = rev (dropWhile (\<lambda>c. c = CHR ''/'') (rev a))
      in (case parse_addr a of None \<Rightarrow> False | Some x \<Rightarrow> connects x))"

definition qdrant_addr :: "(string \<rightharpoonup> string) \<Rightarrow> string" where
  "qdrant_addr env = (case env ''AMORE_QDRANT_URL'' of Some v \<Rightarrow> v | None \<Rightarrow> ''127.0.0.1:6333'')"

record latency_result =
  p50_ms :: rat
  p95_ms :: rat
  p99_ms :: rat
  p99_9_ms :: rat
  lat_total :: nat
  lat_errors :: nat
  lat_status :: string

text \<open>\<open>quant hs q\<close>: the value at a quantile of the recorded samples.\<close>

definition build_latency_histogram :: "(nat list \<Rightarrow> rat \<Rightarrow> nat) \<Rightarrow> nat list \<Rightarrow> latency_result" where
  "build_latency_histogram quant samples =
     (let ms = (\<lambda>q. f64 (f64 (of_nat (quant samples q)) / 1000))
      in \<lparr>p50_ms = ms (1/2), p95_ms = ms (95/100), p99_ms = ms (99/100), p99_9_ms = ms (999/1000),
          lat_total = length samples, lat_errors = 0, lat_status = ''pass''\<rparr>)"

text \<open>\<open>elapsed i\<close>: the duration of the \<open>i\<close>-th search.\<close>

fun latency_loop :: "mock_env \<Rightarrow> (nat \<Rightarrow> nat) \<Rightarrow> sqlite_store \<Rightarrow> nat list \<Rightarrow> nat list \<times> nat" where
  "latency_loop E elapsed S [] = ([], 0)"
| "latency_loop E elapsed S (i # is) =
     (let (samples, errors) = latency_loop E elapsed S is in
      case bm25_search (me_fts E) (query_for_idx i) 10 S of
        Inr _ \<Rightarrow> (elapsed i # samples, errors)
      | Inl _ \<Rightarrow> (samples, errors + 1))"

definition run_latency ::
  "mock_env \<Rightarrow> (nat list \<Rightarrow> rat \<Rightarrow> nat) \<Rightarrow> (nat \<Rightarrow> nat) \<Rightarrow> bool \<Rightarrow> nat \<Rightarrow> nat \<Rightarrow> bool \<Rightarrow> string + latency_result" where
  "run_latency E quant elapsed reachable corpus_size queries mock_deps =
     (if mock_deps
      then (case seed_mock_store E (min corpus_size 5000) of
          Inl e \<Rightarrow> Inl e
        | Inr S \<Rightarrow>
            (let (samples, errors) = latency_loop E elapsed S [0..<queries]
             in Inr ((build_latency_histogram quant samples)\<lparr>lat_errors := errors, lat_status := ''mock-deps-bm25-only''\<rparr>)))
      else if \<not> reachable
      then Inr \<lparr>p50_ms = 0, p95_ms = 0, p99_ms = 0, p99_9_ms = 0, lat_total = 0, lat_errors = 0,
             lat_status = ''skipped-no-daemon''\<rparr>
      else Inr \<lparr>p50_ms = 0, p95_ms = 0, p99_ms = 0, p99_9_ms = 0, lat_total = queries, lat_errors = 0,
             lat_status = ''pending-daemon''\<rparr>)"

record throughput_result =
  achieved_qps :: "rat option"
  error_rate :: "rat option"
  duration_s :: rat
  tp_total :: nat
  tp_errors :: nat
  tp_status :: string

text \<open>The loop of the timed window; \<open>before i\<close>: the deadline has not passed at its \<open>i\<close>-th test.  It may
  run forever if the clock stands still and no number of queries is given.\<close>

partial_function (option) throughput_loop ::
  "(nat \<Rightarrow> bool) \<Rightarrow> (nat \<Rightarrow> bool) \<Rightarrow> nat \<Rightarrow> nat \<Rightarrow> nat \<Rightarrow> nat \<Rightarrow> (nat \<times> nat) option" where
  "throughput_loop before ok queries i cnt errors =
     (if before i
      then (let cnt' = (if ok i then cnt + 1 else cnt);
                errors' = (if ok i then errors else errors + 1)
            in if queries \<le> i + 1 \<and> 0 < queries then Some (cnt', errors')
               else throughput_loop before ok queries (i + 1) cnt' errors')
      else Some (cnt, errors))"

definition run_throughput ::
  "mock_env \<Rightarrow> (nat \<Rightarrow> bool) \<Rightarrow> rat \<Rightarrow> bool \<Rightarrow> nat \<Rightarrow> nat \<Rightarrow> bool \<Rightarrow> (string + throughput_result) option" where
  "run_throughput E before elapsed reachable corpus_size queries mock_deps =
     (if mock_deps
      then (case seed_mock_store E (min corpus_size 5000) of
          Inl e \<Rightarrow> Some (Inl e)
        | Inr S \<Rightarrow>
            map_option (\<lambda>(cnt, errors). Inr
                \<lparr>achieved_qps = (if elapsed = 0 then None else Some (f64 (f64 (of_nat cnt) / elapsed))),
                 error_rate = (if 0 < cnt + errors then ratio64 errors (cnt + errors) else Some 0),
                 duration_s = elapsed, tp_total = cnt, tp_errors = errors, tp_status = ''mock-deps-bm25-only''\<rparr>)
              (throughput_loop before (\<lambda>i. \<not> isl (bm25_search (me_fts E) (query_for_idx i) 10 S)) queries 0 0 0))
      else if \<not> reachable
      then Some (Inr \<lparr>achieved_qps = Some 0, error_rate = Some 0, duration_s = 0, tp_total = 0, tp_errors = 0,
             tp_status = ''skipped-no-daemon''\<rparr>)
      else Some (Inr \<lparr>achieved_qps = Some 0, error_rate = Some 0, duration_s = 60, tp_total = queries, tp_errors = 0,
             tp_status = ''pending-daemon''\<rparr>))"

record cold_start_result =
  time_to_first_recall_ms :: rat
  cold_status :: string

definition run_cold_start :: "mock_env \<Rightarrow> rat \<Rightarrow> rat \<Rightarrow> bool \<Rightarrow> bool \<Rightarrow> string + cold_start_result" where
  "run_cold_start E elapsed_ms idle_ms reachable mock_deps =
     (if mock_deps
      then (case insert_observation (me_sha E) (me_canon E) (me_fault E 0) (me_nanos E 0) (me_now E 0)
              ''cold'' (JObj [(''text'', JStr ''cold start benchmark'')]) empty_store of
          (Inl e, _) \<Rightarrow> Inl ''cold-start insert''
        | (Inr _, S) \<Rightarrow>
            (case bm25_search (me_fts E) ''cold start'' 1 S of
               Inl e \<Rightarrow> Inl ''cold-start search''
             | Inr _ \<Rightarrow> Inr \<lparr>time_to_first_recall_ms = elapsed_ms, cold_status = ''mock-deps-bm25-only''\<rparr>))
      else if \<not> reachable
      then Inr \<lparr>time_to_first_recall_ms = 0, cold_status = ''skipped-no-daemon''\<rparr>
      else Inr \<lparr>time_to_first_recall_ms = idle_ms, cold_status = ''pending-daemon''\<rparr>)"

section \<open>Sizes of the binaries and the report\<close>

record binary_size_entry =
  bs_name :: string
  bs_path :: string
  bs_size_mb :: rat
  bs_exists :: bool

definition binary_names :: "string list" where
  "binary_names = [''amore-eval-benchmark'', ''amore-eval-longmemeval'', ''token-reduction'',
     ''seed_load_test_corpus'', ''amore-cli'', ''amore-mcp'']"

text \<open>\<open>file p\<close>: the length of a file, \<open>Some None\<close> when it exists and its metadata cannot be read.\<close>

definition binary_entry :: "(string \<Rightarrow> nat option option) \<Rightarrow> string \<Rightarrow> string \<Rightarrow> string \<Rightarrow> binary_size_entry \<times> nat" where
  "binary_entry file dir ext name =
     (let path = dir @ ''/'' @ name @ ext in
      case file path of
        None \<Rightarrow> (\<lparr>bs_name = name, bs_path = path, bs_size_mb = 0, bs_exists = False\<rparr>, 0)
      | Some len \<Rightarrow>
          (let b = (case len of None \<Rightarrow> 0 | Some n \<Rightarrow> n)
           in (\<lparr>bs_name = name, bs_path = path, bs_size_mb = f64 (f64 (of_nat b) / 1048576), bs_exists = True\<rparr>, b)))"

definition run_binary_size :: "(string \<Rightarrow> nat option option) \<Rightarrow> string option \<Rightarrow> string \<Rightarrow> string + binary_size_entry list \<times> rat" where
  "run_binary_size file exe_dir ext =
     (case exe_dir of
        None \<Rightarrow> Inl ''exe has no parent''
      | Some dir \<Rightarrow>
          (let es = map (binary_entry file dir ext) binary_names
           in Inr (map fst es, f64 (f64 (of_nat (sum_list (map snd es))) / 1048576))))"

datatype bench_sub = Latency | Throughput | CacheHitRatio | ColdStart | BinarySize | All

fun sub_name :: "bench_sub \<Rightarrow> string" where
  "sub_name Latency = ''latency''"
| "sub_name Throughput = ''throughput''"
| "sub_name CacheHitRatio = ''cache-hit-ratio''"
| "sub_name ColdStart = ''cold-start''"
| "sub_name BinarySize = ''binary-size''"
| "sub_name All = ''all''"

text \<open>The five runs as the JSON they serialise to, in the order \<open>all\<close> runs them; the first error ends
  the program before a report is written.\<close>

record bench_runs =
  br_binary :: "string + json"
  br_cache :: "string + json"
  br_latency :: "string + json"
  br_throughput :: "string + json"
  br_cold :: "string + json"

fun collect_runs :: "(string \<times> (string + json)) list \<Rightarrow> string + (string \<times> json) list" where
  "collect_runs [] = Inr []"
| "collect_runs ((k, r) # rs) =
     (case r of
        Inl e \<Rightarrow> Inl e
      | Inr v \<Rightarrow> (case collect_runs rs of Inl e \<Rightarrow> Inl e | Inr vs \<Rightarrow> Inr ((k, v) # vs)))"

fun sub_results :: "bench_runs \<Rightarrow> bench_sub \<Rightarrow> string + json" where
  "sub_results R BinarySize = br_binary R"
| "sub_results R CacheHitRatio = br_cache R"
| "sub_results R Latency = br_latency R"
| "sub_results R Throughput = br_throughput R"
| "sub_results R ColdStart = br_cold R"
| "sub_results R All =
     (case collect_runs [(''binary_size'', br_binary R), (''cache_hit_ratio'', br_cache R), (''latency'', br_latency R),
          (''throughput'', br_throughput R), (''cold_start'', br_cold R)] of
        Inl e \<Rightarrow> Inl e
      | Inr vs \<Rightarrow> Inr (JObj vs))"

definition bench_output :: "string option \<Rightarrow> string option \<Rightarrow> nat \<Rightarrow> bench_sub \<Rightarrow> string" where
  "bench_output output data_local_dir secs sub =
     (case output of
        Some p \<Rightarrow> p
      | None \<Rightarrow> (case data_local_dir of Some d \<Rightarrow> d | None \<Rightarrow> ''.'') @ ''/Amore/benchmarks/''
                 @ now_ts secs @ ''-'' @ sub_name sub @ ''.json'')"

record hardware =
  hw_os :: string
  hw_cpus :: string
  hw_cpu_model :: string

definition hardware_info :: "string \<Rightarrow> (string \<rightharpoonup> string) \<Rightarrow> hardware" where
  "hardware_info os env =
     (let var = (\<lambda>n. case env n of Some v \<Rightarrow> v | None \<Rightarrow> ''unknown'')
      in \<lparr>hw_os = os, hw_cpus = var ''NUMBER_OF_PROCESSORS'', hw_cpu_model = var ''PROCESSOR_IDENTIFIER''\<rparr>)"

record bench_report =
  rp_ts :: string
  rp_sub :: string
  rp_corpus :: nat
  rp_queries :: nat
  rp_hardware :: hardware
  rp_results :: json

text \<open>\<open>print_report\<close>: the JSON text of a report; \<open>write\<close>: whether a path can be written.\<close>

definition write_report ::
  "(bench_report \<Rightarrow> string) \<Rightarrow> (string \<Rightarrow> bool) \<Rightarrow> string \<Rightarrow> bench_report \<Rightarrow> (string \<rightharpoonup> string)
    \<Rightarrow> (string + string) \<times> (string \<rightharpoonup> string)" where
  "write_report print_report write path r files =
     (if write path then (Inr (''Report: '' @ path), files(path \<mapsto> print_report r))
      else (Inl (''write '' @ path), files))"

text \<open>\<open>mkdir\<close>: whether the directory of the reports can be made; the clock is read for the name and again for the
  report.\<close>

definition bench_main ::
  "bench_runs \<Rightarrow> bench_sub \<Rightarrow> nat \<Rightarrow> nat \<Rightarrow> string option \<Rightarrow> string option \<Rightarrow> bool \<Rightarrow> nat \<times> nat \<Rightarrow> hardware
    \<Rightarrow> (bench_report \<Rightarrow> string) \<Rightarrow> (string \<Rightarrow> bool) \<Rightarrow> (string \<rightharpoonup> string) \<Rightarrow> (string + string) \<times> (string \<rightharpoonup> string)" where
  "bench_main R sub corpus queries output data_local_dir mkdir secs hw print_report write files =
     (case sub_results R sub of
        Inl e \<Rightarrow> (Inl e, files)
      | Inr results \<Rightarrow>
          if output = None \<and> \<not> mkdir then (Inl ''create benchmarks dir'', files)
          else write_report print_report write (bench_output output data_local_dir (fst secs) sub)
            \<lparr>rp_ts = now_ts (snd secs), rp_sub = sub_name sub, rp_corpus = corpus, rp_queries = queries,
             rp_hardware = hw, rp_results = results\<rparr> files)"

section \<open>Lemmas on the runs\<close>

text \<open>A run that fails, at any of its measurements, writes no report; \<open>all\<close> succeeds only if all five do, and its
  results are theirs.\<close>

lemma bench_error_writes_nothing:
  "bench_main R sub corpus queries output d mkdir secs hw p w files = (Inl e, files') \<Longrightarrow> files' = files"
  by (auto simp: bench_main_def write_report_def split: sum.splits if_splits)

lemma bench_all_results:
  assumes "bench_main R All corpus queries output d mkdir secs hw p w files = (Inr line, files')"
  shows "\<exists>b c l t s. br_binary R = Inr b \<and> br_cache R = Inr c \<and> br_latency R = Inr l \<and> br_throughput R = Inr t
    \<and> br_cold R = Inr s
    \<and> sub_results R All = Inr (JObj [(''binary_size'', b), (''cache_hit_ratio'', c), (''latency'', l),
        (''throughput'', t), (''cold_start'', s)])"
  using assms by (auto simp: bench_main_def split: sum.splits)


lemma latency_loop_counts:
  "length (fst (latency_loop E elapsed S is)) + snd (latency_loop E elapsed S is) = length is"
  by (induction "is") (auto split: prod.split sum.split)

text \<open>A measured latency run accounts for every query, as a sample or as an error.\<close>

lemma run_latency_total:
  assumes "run_latency E quant elapsed reachable corpus queries True = Inr r"
  shows "lat_total r + lat_errors r = queries"
proof (cases "seed_mock_store E (min corpus 5000)")
  case (Inr S)
  obtain xs e where "latency_loop E elapsed S [0..<queries] = (xs, e)" by (rule prod.exhaust)
  with latency_loop_counts [of E elapsed S "[0..<queries]"] assms Inr show ?thesis
    by (auto simp: run_latency_def build_latency_histogram_def Let_def)
qed (use assms in \<open>simp add: run_latency_def\<close>)

lemma seed_docs_count:
  "seed_docs E is S = Inr S' \<Longrightarrow> length (observations S') = length (observations S) + length is"
  by (induction E "is" S rule: seed_docs.induct)
    (auto simp: insert_observation_def Let_def split: sum.splits prod.splits if_splits)

lemma trim_prefixes_prefix: "p \<noteq> [] \<Longrightarrow> \<not> starts_with (trim_prefixes p s) p"
  by (induction p s rule: trim_prefixes.induct) (subst trim_prefixes.simps, simp)

section \<open>Properties\<close>

text \<open>The cache simulation counts every measured query exactly once as a hit of the first
  level, a hit of the second or a miss, keeps both levels within their capacity, and every ratio it
  reports lies between zero and one; only for zero queries there is no ratio.\<close>

theorem cache_simulation_accounts:
  "let c = sim_run queries; r = run_cache_hit_ratio queries in
   sim_h1 c + sim_h2 c + sim_miss c = measurement_queries r
   \<and> warmup_queries r + measurement_queries r = queries
   \<and> card (lru_data (sim_l1 c)) \<le> 256 \<and> card (lru_data (sim_l2 c)) \<le> 4096
   \<and> list_all (\<lambda>x. case x of None \<Rightarrow> queries = 0 | Some v \<Rightarrow> 0 \<le> v \<and> v \<le> 1)
       [l1_hit_ratio r, l2_hit_ratio r, combined_hit_ratio r]"
proof -
  let ?c = "sim_run queries" and ?m = "queries - queries div 2"
  note facts = sim_run_ok [of queries, unfolded sim_ok_def sim_count_def lru_ok_def]
  have one: "case ratio64 a ?m of None \<Rightarrow> queries = 0 | Some v \<Rightarrow> 0 \<le> v \<and> v \<le> 1" if "a \<le> ?m" for a
  proof (cases "?m = 0")
    case True
    then have "queries = 0" by linarith
    then show ?thesis by (simp add: ratio64_def)
  qed (use ratio64_unit [OF that] in auto)
  have "sim_h1 ?c \<le> ?m" "sim_h2 ?c \<le> ?m" "sim_h1 ?c + sim_h2 ?c \<le> ?m" using facts by linarith+
  then show ?thesis
    using facts by (simp add: run_cache_hit_ratio_def Let_def one distinct_card)
qed

text \<open>The timed loop of the throughput run ends as soon as the deadline has passed or the given
  number of queries is done, whichever comes first, and it has then counted every search as a
  success or as an error.\<close>

theorem throughput_loop_stops:
  assumes "list_all before [0..<m]"
    and "\<not> before m \<and> (queries = 0 \<or> m < queries) \<or> 0 < queries \<and> m = queries"
  shows "throughput_loop before ok queries 0 0 0
    = Some (length (filter ok [0..<m]), length (filter (\<lambda>i. \<not> ok i) [0..<m]))"
proof -
  have "throughput_loop before ok queries i cnt errors
      = Some (cnt + length (filter ok [i..<m]), errors + length (filter (\<lambda>i. \<not> ok i) [i..<m]))"
    if "i \<le> m" "i < m \<or> \<not> before m \<and> (queries = 0 \<or> m < queries)" for i cnt errors
    using that
  proof (induction "m - i" arbitrary: i cnt errors)
    case 0
    then show ?case by (simp add: throughput_loop.simps)
  next
    case (Suc k)
    then have im: "i < m" and up: "[i..<m] = i # [Suc i..<m]" by (auto simp: upt_conv_Cons)
    have b: "before i" using assms(1) im by (simp add: list_all_iff)
    show ?case
    proof (cases "queries \<le> i + 1 \<and> 0 < queries")
      case True
      with assms(2) im have "m = Suc i" by auto
      with True b show ?thesis by (subst throughput_loop.simps) simp
    next
      case False
      with assms(2) im have "Suc i < m \<or> \<not> before m \<and> (queries = 0 \<or> m < queries)" by auto
      with Suc.hyps Suc.hyps(1) [of "Suc i"] im b False show ?thesis
        by (subst throughput_loop.simps) (auto simp: up)
    qed
  qed
  from this [of 0 0 0] assms(2) show ?thesis by (cases "m = 0") auto
qed

theorem throughput_loop_stops_witness:
  "throughput_loop (\<lambda>i. i < 3) even 0 0 0 0 = Some (2, 1) \<and> throughput_loop (\<lambda>_. True) even 2 0 0 0 = Some (1, 1)"
  using throughput_loop_stops [of "\<lambda>i. i < 3" 3 0 even] throughput_loop_stops [of "\<lambda>_. True" 2 2 even]
  by (simp add: upt_rec)

end
