(* ===== verification/LongMemEval.thy ===== *)
theory LongMemEval
  imports Benchmark Recall
begin

text \<open>
  The LongMemEval harness, \<open>crates/amore-eval/src/bin/longmemeval_runner.rs\<close>: the session ids and
  queries of an instance, the keyword filter, the two instance evaluations (in-process BM25, and
  hybrid recall on a collection of its own), and the accumulation of the metrics by category.  The
  JSON parser, \<open>DefaultHasher\<close> and the services are parameters; white space and letters are those of
  ASCII.
\<close>

record turn =
  content :: string
  session_id :: string

record eval_query =
  q_text :: string
  gold_ids :: "string list"

record lme_instance =
  question_id :: string
  question_type :: string
  question :: string
  answer_session_ids :: "string list"
  haystack_session_ids :: "string list"
  haystack_sessions :: "turn list list"
  category :: string
  history :: "string list"
  queries :: "eval_query list"

record recall_at_k =
  r_at_1 :: rat
  r_at_5 :: rat
  r_at_10 :: rat
  mrr :: rat
  n_queries :: nat

definition no_recall :: recall_at_k where
  "no_recall = \<lparr>r_at_1 = 0, r_at_5 = 0, r_at_10 = 0, mrr = 0, n_queries = 0\<rparr>"

section \<open>Metrics\<close>

fun first_hit :: "nat \<Rightarrow> string list \<Rightarrow> string set \<Rightarrow> rat option" where
  "first_hit i [] gs = None"
| "first_hit i (h # hs) gs =
     (if h \<in> gs then Some (f64 (1 / f64 (of_nat (i + 1)))) else first_hit (i + 1) hs gs)"

definition compute_recall :: "string list \<Rightarrow> string list \<Rightarrow> bool \<times> bool \<times> bool \<times> rat" where
  "compute_recall hit_sids gold =
     (let gs = set gold;
          r1 = (case hit_sids of [] \<Rightarrow> False | h # _ \<Rightarrow> h \<in> gs);
          r5 = list_ex (\<lambda>h. h \<in> gs) (take 5 hit_sids);
          r10 = list_ex (\<lambda>h. h \<in> gs) (take 10 hit_sids);
          m = (case first_hit 0 hit_sids gs of Some r \<Rightarrow> r | None \<Rightarrow> 0)
      in (r1, r5, r10, m))"

definition infer_sids :: "lme_instance \<Rightarrow> string list" where
  "infer_sids inst =
     map (\<lambda>(i, turns).
        if i < length (haystack_session_ids inst) then haystack_session_ids inst ! i
        else case find (\<lambda>t. session_id t \<noteq> []) turns of
            Some t \<Rightarrow> session_id t
          | None \<Rightarrow> question_id inst @ ''-haystack-'' @ dec_nat i)
       (enumerate 0 (haystack_sessions inst))"

definition effective_queries :: "lme_instance \<Rightarrow> (string \<times> string list) list" where
  "effective_queries inst =
     (if question inst \<noteq> [] then [(question inst, answer_session_ids inst)]
      else map (\<lambda>q. (q_text q, gold_ids q)) (queries inst))"

text \<open>The five accumulators: hits at 1, 5 and 10, the reciprocal ranks in millionths, the queries.\<close>

type_synonym acc5 = "nat \<times> nat \<times> nat \<times> nat \<times> nat"

fun accum :: "acc5 \<Rightarrow> acc5 \<Rightarrow> acc5" where
  "accum (a, b, c, d, e) (h1, h5, h10, m, n) = (a + h1, b + h5, c + h10, d + m, e + n)"

fun from_acc :: "acc5 \<Rightarrow> recall_at_k" where
  "from_acc (a, b, c, d, n) =
     (if n = 0 then no_recall
      else \<lparr>r_at_1 = f64 (f64 (of_nat a) / f64 (of_nat n)), r_at_5 = f64 (f64 (of_nat b) / f64 (of_nat n)),
            r_at_10 = f64 (f64 (of_nat c) / f64 (of_nat n)),
            mrr = f64 (f64 (of_nat d) / f64 (f64 (of_nat n) * 1000000)), n_queries = n\<rparr>)"

section \<open>Keywords and truncation\<close>

definition STOPWORDS :: "string list" where
  "STOPWORDS =
     [''a'', ''an'', ''the'', ''is'', ''are'', ''was'', ''were'', ''be'', ''been'', ''being'',
      ''have'', ''has'', ''had'', ''do'', ''does'', ''did'', ''will'', ''would'', ''could'', ''should'',
      ''may'', ''might'', ''shall'', ''can'', ''need'', ''dare'', ''ought'', ''used'',
      ''i'', ''me'', ''my'', ''we'', ''our'', ''you'', ''your'', ''he'', ''she'', ''it'', ''its'', ''they'', ''their'',
      ''this'', ''that'', ''these'', ''those'', ''what'', ''which'', ''who'', ''whom'', ''whose'',
      ''when'', ''where'', ''why'', ''how'', ''all'', ''each'', ''every'', ''both'', ''few'', ''more'', ''most'',
      ''other'', ''some'', ''such'', ''no'', ''nor'', ''not'', ''only'', ''own'', ''same'', ''so'', ''than'',
      ''too'', ''very'', ''just'', ''about'', ''above'', ''after'', ''before'', ''between'', ''by'',
      ''during'', ''for'', ''from'', ''in'', ''into'', ''of'', ''on'', ''or'', ''and'', ''at'', ''to'', ''with'',
      ''tell'', ''me'', ''please'', ''did'', ''does'', ''mention'', ''said'', ''say'', ''explain'', ''describe'',
      ''know'', ''remember'', ''recall'', ''find'', ''get'', ''show'', ''talk'', ''told'',
      ''use'', ''uses'', ''using'']"

definition trim_matches :: "(char \<Rightarrow> bool) \<Rightarrow> string \<Rightarrow> string" where
  "trim_matches p s = rev (dropWhile p (rev (dropWhile p s)))"

definition content_keywords :: "string \<Rightarrow> string" where
  "content_keywords q =
     (let tokens = filter (\<lambda>t. t \<noteq> [] \<and> to_lowercase t \<notin> set STOPWORDS)
            (map (trim_matches (\<lambda>c. \<not> is_alnum c)) (split_whitespace q))
      in if tokens = [] then q else join_with '' '' tokens)"

text \<open>A position of a UTF-8 string is a boundary unless the byte there continues a character.\<close>

definition is_char_boundary :: "string \<Rightarrow> nat \<Rightarrow> bool" where
  "is_char_boundary s i \<longleftrightarrow>
     i = 0 \<or> i = length s \<or> (i < length s \<and> (let n = of_char (s ! i) :: nat in n < 128 \<or> 192 \<le> n))"

definition rfind_ws :: "string \<Rightarrow> nat option" where
  "rfind_ws s = find (\<lambda>i. is_ws (s ! i)) (rev [0..<length s])"

definition truncate_bytes :: "string \<Rightarrow> nat \<Rightarrow> string" where
  "truncate_bytes s max_bytes =
     (if length s \<le> max_bytes then s
      else let boundary = (case find (is_char_boundary s) (rev [0..<Suc max_bytes]) of Some i \<Rightarrow> i | None \<Rightarrow> 0);
               t = take boundary s
           in (case rfind_ws t of None \<Rightarrow> t | Some i \<Rightarrow> take i t))"

section \<open>One instance\<close>

definition session_text :: "turn list \<Rightarrow> string" where
  "session_text turns = join_with '' '' (map content turns)"

text \<open>The documents an instance indexes: a session each, or the legacy history when there is none.\<close>

definition instance_docs :: "lme_instance \<Rightarrow> (string \<times> string) list" where
  "instance_docs inst =
     zip (infer_sids inst) (map session_text (haystack_sessions inst))
     @ (if haystack_sessions inst = [] \<and> history inst \<noteq> []
        then [(question_id inst, join_with '' '' (history inst))] else [])"

fun index_docs :: "mock_env \<Rightarrow> nat \<Rightarrow> (string \<times> string) list \<Rightarrow> sqlite_store \<Rightarrow> string + sqlite_store" where
  "index_docs E i [] S = Inr S"
| "index_docs E i ((sid, text) # ds) S =
     (case insert_observation (me_sha E) (me_canon E) (me_fault E i) (me_nanos E i) (me_now E i)
             sid (JObj [(''session_id'', JStr sid), (''text'', JStr text)]) S of
        (Inl e, _) \<Rightarrow> Inl (''indexing session '' @ sid)
      | (Inr _, S') \<Rightarrow> index_docs E (i + 1) ds S')"

text \<open>The metrics of the queries, \<open>sids\<close> giving the session ids a query returns; the sum of the
  reciprocal ranks is a float until it is cut to millionths.\<close>

definition query_step :: "string list \<times> string list \<Rightarrow> nat \<times> nat \<times> nat \<times> rat \<times> nat \<Rightarrow> nat \<times> nat \<times> nat \<times> rat \<times> nat" where
  "query_step = (\<lambda>(sids, gold) (h1, h5, h10, m, n).
     let (r1, r5, r10, rr) = compute_recall sids gold
     in (h1 + of_bool r1, h5 + of_bool r5, h10 + of_bool r10, f64 (m + rr), n + 1))"

definition tally_queries :: "(string list \<times> string list) list \<Rightarrow> acc5" where
  "tally_queries rs =
     (let (h1, h5, h10, m, n) = fold query_step rs (0, 0, 0, 0, 0)
      in (h1, h5, h10, nat \<lfloor>f64 (m * 1000000)\<rfloor>, n))"

fun mock_queries :: "fts5 \<Rightarrow> nat \<Rightarrow> sqlite_store \<Rightarrow> (string \<times> string list) list \<Rightarrow> string + (string list \<times> string list) list" where
  "mock_queries fts top_k S [] = Inr []"
| "mock_queries fts top_k S ((q, gold) # qs) =
     (case bm25_search fts (content_keywords q) (of_nat (max (top_k * 4) 10)) S of
        Inl e \<Rightarrow> Inl (''bm25 search: '' @ content_keywords q)
      | Inr hs \<Rightarrow>
          (case mock_queries fts top_k S qs of
             Inl e \<Rightarrow> Inl e
           | Inr rs \<Rightarrow> Inr ((take top_k (map bm_source hs), gold) # rs)))"

definition run_mock :: "mock_env \<Rightarrow> lme_instance \<Rightarrow> nat \<Rightarrow> string + acc5" where
  "run_mock E inst top_k =
     (case index_docs E 0 (instance_docs inst) empty_store of
        Inl e \<Rightarrow> Inl e
      | Inr S \<Rightarrow>
          (case mock_queries (me_fts E) top_k S (effective_queries inst) of
             Inl e \<Rightarrow> Inl e
           | Inr rs \<Rightarrow> Inr (tally_queries rs)))"

text \<open>Against the services; \<open>E i\<close> is the environment of the \<open>i\<close>-th call.\<close>

fun index_real ::
  "(nat \<Rightarrow> 'q recall_env) \<Rightarrow> (string \<Rightarrow> u64) \<Rightarrow> nat \<Rightarrow> (string \<times> string) list \<Rightarrow> 'q hybrid_recall
    \<Rightarrow> (string + nat) \<times> 'q hybrid_recall" where
  "index_real E str_to_u64 i [] r = (Inr i, r)"
| "index_real E str_to_u64 i ((sid, raw) # ds) r =
     (let text = truncate_bytes raw 1500 in
      if text = [] then index_real E str_to_u64 i ds r
      else (case recall_index (E i) (str_to_u64 sid) ''longmemeval'' text (Some (JObj [(''session_id'', JStr sid)])) r of
          (Inl e, r') \<Rightarrow> (Inl (''index session '' @ sid), r')
        | (Inr _, r') \<Rightarrow> index_real E str_to_u64 (i + 1) ds r'))"

fun real_queries ::
  "(nat \<Rightarrow> 'q recall_env) \<Rightarrow> nat \<Rightarrow> nat \<Rightarrow> (string \<times> string list) list \<Rightarrow> 'q hybrid_recall
    \<Rightarrow> (string + (string list \<times> string list) list) \<times> 'q hybrid_recall" where
  "real_queries E i top_k [] r = (Inr [], r)"
| "real_queries E i top_k ((q, gold) # qs) r =
     (case search (E i) q (of_nat top_k) r of
        (Inl e, r') \<Rightarrow> (Inl (''search: '' @ q), r')
      | (Inr env, r') \<Rightarrow>
          (case real_queries E (i + 1) top_k qs r' of
             (Inl e, r'') \<Rightarrow> (Inl e, r'')
           | (Inr rs, r'') \<Rightarrow>
               (Inr ((take top_k (List.map_filter (\<lambda>h. get_str ''session_id'' (hit_payload h)) (hits env)), gold) # rs), r'')))"

text \<open>The collection is created first and dropped at the end, whatever dropping returns; an error on
  the way leaves it.\<close>

definition run_real ::
  "'q qdrant_server \<Rightarrow> ollama_client \<Rightarrow> (nat \<Rightarrow> 'q recall_env) \<Rightarrow> (string \<Rightarrow> u64) \<Rightarrow> lme_instance \<Rightarrow> nat \<Rightarrow> string \<Rightarrow> 'q
    \<Rightarrow> (string + acc5) \<times> 'q" where
  "run_real srv ollama E str_to_u64 inst top_k coll q =
     (case new_qdrant srv coll 768 q of
        (Inl e, q') \<Rightarrow> (Inl ''connect Qdrant'', q')
      | (Inr st, q') \<Rightarrow>
          (case index_real E str_to_u64 0 (instance_docs inst) (with_embedder ollama (st, q')) of
             (Inl e, r) \<Rightarrow> (Inl e, snd (r_qdrant r))
           | (Inr i, r) \<Rightarrow>
               (case real_queries E i top_k (effective_queries inst) r of
                  (Inl e, r') \<Rightarrow> (Inl e, snd (r_qdrant r'))
                | (Inr rs, r') \<Rightarrow>
                    (Inr (tally_queries rs), snd (snd (drop_collection srv (open_lazy coll, snd (r_qdrant r'))))))))"

section \<open>The whole evaluation\<close>

definition category_of :: "lme_instance \<Rightarrow> string" where
  "category_of inst =
     (if question_type inst \<noteq> [] then question_type inst
      else if category inst \<noteq> [] then category inst else ''unknown'')"

fun acc_entry :: "string \<Rightarrow> acc5 \<Rightarrow> (string \<times> acc5) list \<Rightarrow> (string \<times> acc5) list" where
  "acc_entry c x [] = [(c, accum (0, 0, 0, 0, 0) x)]"
| "acc_entry c x ((d, a) # m) = (if c = d then (d, accum a x) # m else (d, a) # acc_entry c x m)"

text \<open>\<open>run\<close>: the evaluation of the \<open>i\<close>-th instance; the first error ends the program.\<close>

fun eval_loop ::
  "(nat \<Rightarrow> lme_instance \<Rightarrow> 's \<Rightarrow> (string + acc5) \<times> 's) \<Rightarrow> nat \<Rightarrow> lme_instance list \<Rightarrow> 's
    \<Rightarrow> (string \<times> acc5) list \<Rightarrow> acc5 \<Rightarrow> (string + (string \<times> acc5) list \<times> acc5) \<times> 's" where
  "eval_loop run i [] s cats ov = (Inr (cats, ov), s)"
| "eval_loop run i (inst # insts) s cats ov =
     (case run i inst s of
        (Inl e, s') \<Rightarrow> (Inl (''instance '' @ dec_nat i), s')
      | (Inr x, s') \<Rightarrow> eval_loop run (i + 1) insts s' (acc_entry (category_of inst) x cats) (accum ov x))"

definition eval_instance ::
  "bool \<Rightarrow> (nat \<Rightarrow> mock_env) \<Rightarrow> 'q qdrant_server \<Rightarrow> ollama_client \<Rightarrow> (nat \<Rightarrow> nat \<Rightarrow> 'q recall_env) \<Rightarrow> (string \<Rightarrow> u64)
    \<Rightarrow> (nat \<Rightarrow> nat) \<Rightarrow> nat \<Rightarrow> lme_instance \<Rightarrow> 'q \<Rightarrow> (string + acc5) \<times> 'q" where
  "eval_instance mock_deps M srv ollama E str_to_u64 secs i inst q =
     (if mock_deps then (run_mock (M i) inst 10, q)
      else run_real srv ollama (E i) str_to_u64 inst 10 (''lme-'' @ now_ts (secs i) @ ''-'' @ dec_nat i) q)"

record eval_report =
  instances_evaluated :: nat
  queries_evaluated :: nat
  overall :: recall_at_k
  per_category :: "(string \<times> recall_at_k) list"
  eval_mode :: string
  eval_status :: string

definition load_instances :: "(string \<Rightarrow> lme_instance option) \<Rightarrow> nat \<Rightarrow> string \<Rightarrow> lme_instance list" where
  "load_instances from_json n body =
     (let insts = List.map_filter from_json (filter (\<lambda>l. l \<noteq> []) (map trim (lines body)))
      in if 0 < n then take n insts else insts)"

fun acc_n :: "acc5 \<Rightarrow> nat" where
  "acc_n (a, b, c, d, n) = n"

definition eval_gate :: "recall_at_k \<Rightarrow> bool" where
  "eval_gate r \<longleftrightarrow> f64 (85 / 100) \<le> r_at_5 r \<and> f64 (90 / 100) \<le> r_at_10 r"

definition build_report :: "bool \<Rightarrow> lme_instance list \<Rightarrow> (string \<times> acc5) list \<Rightarrow> acc5 \<Rightarrow> eval_report" where
  "build_report mock_deps insts cats ov =
     \<lparr>instances_evaluated = length insts, queries_evaluated = acc_n ov, overall = from_acc ov,
      per_category = map (\<lambda>(c, a). (c, from_acc a)) (filter (\<lambda>(c, a). 0 < acc_n a) cats),
      eval_mode = (if mock_deps then ''mock-deps-bm25-only'' else ''real-daemons-hybrid''),
      eval_status = (if eval_gate (from_acc ov) then ''pass'' else ''fail'')\<rparr>"

text \<open>\<open>dataset\<close>: the content of the file, \<open>None\<close> when it does not exist, \<open>Some None\<close> when it cannot be
  read.\<close>

definition run_eval ::
  "bool \<Rightarrow> string option option \<Rightarrow> (string \<Rightarrow> lme_instance option) \<Rightarrow> nat \<Rightarrow> bool
    \<Rightarrow> (nat \<Rightarrow> lme_instance \<Rightarrow> 's \<Rightarrow> (string + acc5) \<times> 's) \<Rightarrow> 's \<Rightarrow> (string + eval_report) \<times> 's" where
  "run_eval reachable dataset from_json n mock_deps run s =
     (if \<not> mock_deps \<and> \<not> reachable
      then (Inr \<lparr>instances_evaluated = 0, queries_evaluated = 0, overall = no_recall, per_category = [],
              eval_mode = ''real-daemons-required'', eval_status = ''skipped-no-daemon''\<rparr>, s)
      else case dataset of
        None \<Rightarrow> (Inl ''Dataset not found'', s)
      | Some None \<Rightarrow> (Inl ''read'', s)
      | Some (Some body) \<Rightarrow>
          (let insts = load_instances from_json n body in
           if insts = [] then (Inl ''Dataset has 0 instances'', s)
           else case eval_loop run 0 insts s [] (0, 0, 0, 0, 0) of
               (Inl e, s') \<Rightarrow> (Inl e, s')
             | (Inr (cats, ov), s') \<Rightarrow>
                 (Inr (build_report mock_deps insts cats ov), s')))"

section \<open>The program\<close>

text \<open>Its arguments, and the settings they and the environment resolve to.\<close>

record lme_cli =
  lc_dataset :: "string option"
  lc_subset :: nat
  lc_max_sessions :: nat
  lc_output :: "string option"
  lc_qdrant_url :: "string option"
  lc_ollama_url :: "string option"
  lc_mock_deps :: bool

definition local_or_dot :: "string option \<Rightarrow> string" where
  "local_or_dot data_local_dir = (case data_local_dir of Some d \<Rightarrow> d | None \<Rightarrow> ''.'')"

definition default_dataset :: "string option \<Rightarrow> string" where
  "default_dataset data_local_dir = local_or_dot data_local_dir @ ''/Amore/datasets/longmemeval/test.jsonl''"

definition lme_output :: "string option \<Rightarrow> nat \<Rightarrow> string" where
  "lme_output data_local_dir secs = local_or_dot data_local_dir @ ''/Amore/benchmarks/'' @ now_ts secs @ ''-longmemeval.json''"

definition lme_setting :: "string option \<Rightarrow> string \<Rightarrow> string \<Rightarrow> environ \<Rightarrow> string" where
  "lme_setting arg var dflt env =
     (case arg of Some v \<Rightarrow> v | None \<Rightarrow> (case env_var var env of Some v \<Rightarrow> v | None \<Rightarrow> dflt))"

definition lme_limit :: "lme_cli \<Rightarrow> nat" where
  "lme_limit c = (if 0 < lc_subset c then lc_subset c else lc_max_sessions c)"

text \<open>\<open>files\<close>: the contents of the files, \<open>Some None\<close> where one cannot be read; \<open>mkdir\<close>, \<open>write\<close>: whether the
  directory of the reports and the report can be made; \<open>print_report\<close>: the JSON text of a report made at a time.  The
  evaluation of an instance gets the addresses of the two services.\<close>

definition lme_main ::
  "(string \<Rightarrow> 'a option) \<Rightarrow> ('a \<Rightarrow> bool) \<Rightarrow> (string \<Rightarrow> lme_instance option)
    \<Rightarrow> (string \<Rightarrow> string \<Rightarrow> nat \<Rightarrow> lme_instance \<Rightarrow> 's \<Rightarrow> (string + acc5) \<times> 's) \<Rightarrow> (eval_report \<Rightarrow> nat \<Rightarrow> string option)
    \<Rightarrow> bool \<Rightarrow> (string \<Rightarrow> bool) \<Rightarrow> lme_cli \<Rightarrow> environ \<Rightarrow> string option \<Rightarrow> nat \<Rightarrow> (string \<rightharpoonup> string option) \<times> 's
    \<Rightarrow> (string + unit) \<times> (string \<rightharpoonup> string option) \<times> 's" where
  "lme_main parse_addr connects from_json run print_report mkdir write c env data_local_dir secs st =
     (let (files, s) = st;
          dataset = (case lc_dataset c of Some p \<Rightarrow> p | None \<Rightarrow> default_dataset data_local_dir);
          qdrant = lme_setting (lc_qdrant_url c) ''AMORE_QDRANT_URL'' ''127.0.0.1:6333'' env;
          ollama = lme_setting (lc_ollama_url c) ''AMORE_OLLAMA_URL'' ''http://127.0.0.1:11434'' env;
          (res, s') = run_eval (daemon_reachable parse_addr connects qdrant) (files dataset) from_json (lme_limit c)
                        (lc_mock_deps c) (run qdrant ollama) s
      in case res of
           Inl e \<Rightarrow> (Inl e, files, s')
         | Inr report \<Rightarrow>
             (case (if lc_output c = None \<and> \<not> mkdir then None
                    else Some (case lc_output c of Some p \<Rightarrow> p | None \<Rightarrow> lme_output data_local_dir secs)) of
                None \<Rightarrow> (Inl ''create benchmarks dir'', files, s')
              | Some out \<Rightarrow>
                  (case print_report report secs of
                     None \<Rightarrow> (Inl ''serialize'', files, s')
                   | Some text \<Rightarrow>
                       if write out then (Inr (), files(out \<mapsto> Some text), s') else (Inl (''write '' @ out), files, s'))))"

section \<open>Lemmas\<close>

lemma find_SomeD: "find P xs = Some x \<Longrightarrow> P x \<and> x \<in> set xs"
  by (induction xs) (auto split: if_splits)

lemma first_hit_range: "first_hit i hs gs = Some r \<Longrightarrow> 0 \<le> r \<and> r \<le> 1"
proof (induction i hs gs rule: first_hit.induct)
  case (2 i h hs gs)
  have "1 \<le> f64 (of_nat (i + 1))" using f64_mono [of 1 "of_nat (i + 1)"] by simp
  then have "0 \<le> 1 / f64 (of_nat (i + 1))" "1 / f64 (of_nat (i + 1)) \<le> 1" by (simp_all add: divide_le_eq_1)
  then have "0 \<le> f64 (1 / f64 (of_nat (i + 1)))" "f64 (1 / f64 (of_nat (i + 1))) \<le> 1" by (simp_all add: f64_le_1)
  with 2 show ?case by (auto split: if_splits)
qed simp

lemma first_hit_None: "first_hit i hs gs = None \<longleftrightarrow> set hs \<inter> gs = {}"
  by (induction i hs gs rule: first_hit.induct) auto

lemma compute_recall_ordered:
  assumes "compute_recall hs gold = (r1, r5, r10, m)"
  shows "r1 \<le> r5 \<and> r5 \<le> r10 \<and> 0 \<le> m \<and> m \<le> 1 \<and> (r1 \<longrightarrow> m = 1) \<and> (set hs \<inter> set gold = {} \<longrightarrow> m = 0)"
proof -
  have "set (take 5 hs) \<subseteq> set (take 10 hs)" by (rule set_take_subset_set_take) simp
  then have "r5 \<le> r10"
    using assms by (auto simp: compute_recall_def Let_def list_ex_iff)
  moreover have "r1 \<le> r5" using assms by (cases hs) (auto simp: compute_recall_def Let_def)
  moreover have "0 \<le> m \<and> m \<le> 1"
    using assms first_hit_range by (auto simp: compute_recall_def Let_def split: option.splits)
  moreover have "r1 \<longrightarrow> m = 1" using assms by (cases hs) (auto simp: compute_recall_def Let_def)
  moreover have "set hs \<inter> set gold = {} \<longrightarrow> m = 0"
    using assms first_hit_None [of 0 hs "set gold"] by (auto simp: compute_recall_def Let_def)
  ultimately show ?thesis by blast
qed

text \<open>Without its services the program is a success that writes a report of nothing evaluated: the exit code does not
  tell a skipped run from a good one, nor one that failed the gate.\<close>

lemma skipped_run_succeeds:
  assumes "\<not> lc_mock_deps c" and "lc_output c = Some out" and "write out" and "\<And>r. print_report r secs = Some (text r)"
    and "\<not> daemon_reachable parse_addr connects (lme_setting (lc_qdrant_url c) ''AMORE_QDRANT_URL'' ''127.0.0.1:6333'' env)"
  shows "\<exists>r. lme_main parse_addr connects from_json run print_report mkdir write c env d secs (files, s)
      = (Inr (), files(out \<mapsto> Some (text r)), s) \<and> eval_status r = ''skipped-no-daemon'' \<and> instances_evaluated r = 0"
  using assms by (simp add: lme_main_def run_eval_def) (rule exI, rule conjI, rule refl, simp)

text \<open>An error leaves every file as it was.\<close>

lemma lme_error_writes_nothing:
  "lme_main parse_addr connects from_json run print_report mkdir write c env d secs (files, s) = (Inl e, files', s')
    \<Longrightarrow> files' = files"
  by (auto simp: lme_main_def Let_def split: sum.splits prod.splits option.splits if_splits)

definition counts_ok :: "acc5 \<Rightarrow> bool" where
  "counts_ok = (\<lambda>(h1, h5, h10, m, n). h1 \<le> h5 \<and> h5 \<le> h10 \<and> h10 \<le> n \<and> m \<le> 1000000 * n)"

lemma accum_ok: "counts_ok a \<Longrightarrow> counts_ok x \<Longrightarrow> counts_ok (accum a x)"
  by (cases a; cases x) (simp add: counts_ok_def)

lemma query_steps_ok:
  assumes "fold query_step rs (0, 0, 0, 0, 0) = (h1, h5, h10, m, n)" and "length rs < 2 ^ 33"
  shows "h1 \<le> h5 \<and> h5 \<le> h10 \<and> h10 \<le> n \<and> 0 \<le> m \<and> m \<le> of_nat n \<and> n = length rs"
  using assms
proof (induction rs arbitrary: h1 h5 h10 m n rule: rev_induct)
  case (snoc x rs)
  obtain a b c d k where f: "fold query_step rs (0, 0, 0, 0, 0) = (a, b, c, d, k)" by (metis prod_cases5)
  obtain sids gold where x: "x = (sids, gold)" by (cases x)
  obtain r1 r5 r10 rr where r: "compute_recall sids gold = (r1, r5, r10, rr)" by (metis prod_cases4)
  note ih = snoc.IH [OF f]
  note ro = compute_recall_ordered [OF r]
  have st: "query_step x (a, b, c, d, k) = (h1, h5, h10, m, n)" using snoc.prems(1) f by simp
  have n: "n = k + 1" "h1 = a + of_bool r1" "h5 = b + of_bool r5" "h10 = c + of_bool r10" "m = f64 (d + rr)"
    using st by (simp_all add: x r query_step_def)
  have len: "length rs < 2 ^ 33" using snoc.prems(2) by simp
  have k: "n < 2 ^ 53" using ih len n by simp
  have "0 \<le> d + rr" "d + rr \<le> of_nat n" using ih len ro n by auto
  then have "0 \<le> m" "m \<le> f64 (of_nat n)" unfolding n(5) by (simp_all add: f64_mono)
  then have "0 \<le> m" "m \<le> of_nat n" using f64_of_nat [OF k] by simp_all
  then show ?case using ih len ro n by (auto simp: of_bool_def)
qed simp

lemma tally_queries_ok: "length rs < 2 ^ 33 \<Longrightarrow> counts_ok (tally_queries rs)"
proof -
  assume len: "length rs < 2 ^ 33"
  obtain a b c d k where f: "fold query_step rs (0, 0, 0, 0, 0) = (a, b, c, d, k)" by (metis prod_cases5)
  note q = query_steps_ok [OF f len]
  have lt: "k * 1000000 < 2 ^ 53" using q len by simp
  have "d * 1000000 \<le> of_nat (k * 1000000)" using q by simp
  then have "f64 (d * 1000000) \<le> f64 (of_nat (k * 1000000))" using q by (intro f64_mono) simp_all
  then have "f64 (d * 1000000) \<le> of_int (int (k * 1000000))" unfolding f64_of_nat [OF lt] by simp
  then have "\<lfloor>f64 (d * 1000000)\<rfloor> \<le> int (k * 1000000)" by (metis floor_mono floor_of_int)
  then show ?thesis using q by (simp add: tally_queries_def f counts_ok_def)
qed

lemma mock_queries_length: "mock_queries fts k S qs = Inr rs \<Longrightarrow> length rs = length qs"
  by (induction fts k S qs arbitrary: rs rule: mock_queries.induct) (auto split: sum.splits)

lemma real_queries_length: "real_queries E i k qs r = (Inr rs, r') \<Longrightarrow> length rs = length qs"
  by (induction E i k qs r arbitrary: rs r' rule: real_queries.induct) (auto split: sum.splits prod.splits)

lemma eval_instance_ok:
  assumes "eval_instance mock M srv ollama E h secs i inst q = (Inr x, q')"
    and "length (effective_queries inst) < 2 ^ 33"
  shows "counts_ok x"
proof (cases mock)
  case True
  with assms show ?thesis
    by (auto simp: eval_instance_def run_mock_def mock_queries_length intro!: tally_queries_ok split: sum.splits)
next
  case False
  with assms show ?thesis
    by (auto simp: eval_instance_def run_real_def real_queries_length intro!: tally_queries_ok
        split: sum.splits prod.splits)
qed

text \<open>The columns of the categories add up to the overall column.\<close>

lemma acc_n_accum [simp]: "acc_n (accum a x) = acc_n a + acc_n x"
  by (cases a; cases x) simp

lemma acc_entry_facts:
  assumes "list_all (\<lambda>p. counts_ok (snd p)) m" and "counts_ok x" and "distinct (map fst m)"
  shows "list_all (\<lambda>p. counts_ok (snd p)) (acc_entry c x m)
    \<and> sum_list (map (acc_n \<circ> snd) (acc_entry c x m)) = sum_list (map (acc_n \<circ> snd) m) + acc_n x
    \<and> fst ` set (acc_entry c x m) = insert c (fst ` set m) \<and> distinct (map fst (acc_entry c x m))"
  using assms
proof (induction m)
  case Nil
  then show ?case by (cases x) (simp add: counts_ok_def)
next
  case (Cons p m)
  then show ?case by (cases p) (auto simp: accum_ok)
qed

lemma eval_loop_facts:
  assumes "eval_loop run i insts s cats ov = (Inr (cats', ov'), s')"
    and "\<And>i inst s x s'. inst \<in> set insts \<Longrightarrow> run i inst s = (Inr x, s') \<Longrightarrow> counts_ok x"
    and "counts_ok ov" and "list_all (\<lambda>p. counts_ok (snd p)) cats" and "distinct (map fst cats)"
    and "sum_list (map (acc_n \<circ> snd) cats) = acc_n ov"
  shows "counts_ok ov' \<and> list_all (\<lambda>p. counts_ok (snd p)) cats' \<and> distinct (map fst cats')
    \<and> sum_list (map (acc_n \<circ> snd) cats') = acc_n ov'"
  using assms
proof (induction run i insts s cats ov rule: eval_loop.induct)
  case (2 run i inst insts s cats ov)
  obtain r s1 where r: "run i inst s = (r, s1)" by (rule prod.exhaust)
  show ?case
  proof (cases r)
    case (Inl e)
    with 2(2) r show ?thesis by simp
  next
    case (Inr x)
    have x: "counts_ok x" by (rule 2(3) [of inst i s x s1]) (use r Inr in simp_all)
    note f = acc_entry_facts [OF 2(5) x 2(6), of "category_of inst"]
    have ov: "counts_ok (accum ov x)" using 2(4) x by (rule accum_ok)
    have sm: "sum_list (map (acc_n \<circ> snd) (acc_entry (category_of inst) x cats)) = acc_n (accum ov x)"
      using f 2(7) by simp
    from 2(2) r Inr have "eval_loop run (i + 1) insts s1 (acc_entry (category_of inst) x cats) (accum ov x)
        = (Inr (cats', ov'), s')" by simp
    then show ?thesis
    proof (rule 2(1) [OF r [symmetric] Inr])
      show "\<And>i inst s x s'. inst \<in> set insts \<Longrightarrow> run i inst s = (Inr x, s') \<Longrightarrow> counts_ok x"
        using 2(3) by (meson list.set_intros(2))
    qed (use ov f sm in blast)+
  qed
qed simp

definition metrics_ok :: "recall_at_k \<Rightarrow> bool" where
  "metrics_ok r \<longleftrightarrow> 0 \<le> r_at_1 r \<and> r_at_1 r \<le> r_at_5 r \<and> r_at_5 r \<le> r_at_10 r \<and> r_at_10 r \<le> 1
     \<and> 0 \<le> mrr r \<and> mrr r \<le> 1"

lemma from_acc_ok:
  assumes "counts_ok a" and "acc_n a < 2 ^ 53"
  shows "metrics_ok (from_acc a) \<and> n_queries (from_acc a) = acc_n a"
proof -
  obtain h1 h5 h10 m n where a: "a = (h1, h5, h10, m, n)" by (metis prod_cases5)
  show ?thesis
  proof (cases "n = 0")
    case False
    have ok: "h1 \<le> h5" "h5 \<le> h10" "h10 \<le> n" "m \<le> 1000000 * n" using assms(1) by (simp_all add: a counts_ok_def)
    have fn: "f64 (of_nat n) = of_nat n" using assms(2) by (intro f64_of_nat) (simp add: a)
    have n: "0 < (of_nat n :: rat)" using False by simp
    have mono: "f64 (f64 (of_nat x) / of_nat n) \<le> f64 (f64 (of_nat y) / of_nat n)" if "x \<le> y" for x y
      using that n by (intro f64_mono divide_right_mono) simp_all
    have one: "f64 (f64 (of_nat n) / of_nat n) = 1" using n by (simp add: fn)
    have "(of_nat m :: rat) \<le> of_nat (1000000 * n)" using ok(4) of_nat_le_iff by blast
    then have "f64 (of_nat m) \<le> f64 (of_nat n * 1000000)"
      by (intro f64_mono) (simp_all add: mult.commute)
    moreover have "0 < f64 (of_nat n * 1000000)"
    proof -
      have "1 \<le> (of_nat n :: rat)" using False by (simp add: Suc_leI)
      then have "f64 1 \<le> f64 (of_nat n * 1000000)" by (intro f64_mono) simp_all
      then show ?thesis by simp
    qed
    ultimately have "f64 (of_nat m) / f64 (of_nat n * 1000000) \<le> 1" "0 \<le> f64 (of_nat m) / f64 (of_nat n * 1000000)"
      by (simp_all add: divide_le_eq_1)
    then have "f64 (f64 (of_nat m) / f64 (of_nat n * 1000000)) \<le> 1" "0 \<le> f64 (f64 (of_nat m) / f64 (of_nat n * 1000000))"
      by (simp_all add: f64_le_1)
    moreover have "0 \<le> f64 (f64 (of_nat h1) / of_nat n)" using n by simp
    moreover have "from_acc a = \<lparr>r_at_1 = f64 (f64 (of_nat h1) / of_nat n), r_at_5 = f64 (f64 (of_nat h5) / of_nat n),
        r_at_10 = f64 (f64 (of_nat h10) / of_nat n), mrr = f64 (f64 (of_nat m) / f64 (of_nat n * 1000000)), n_queries = n\<rparr>"
      using False by (simp only: a from_acc.simps fn if_False)
    ultimately show ?thesis
      using mono [OF ok(1)] mono [OF ok(2)] mono [OF ok(3)] one
      by (simp only: metrics_ok_def recall_at_k.simps a acc_n.simps simp_thms)
  qed (simp add: a metrics_ok_def no_recall_def)
qed

declare from_acc.simps [simp del]

section \<open>Properties\<close>

text \<open>A report of the LongMemEval run is coherent, in both modes: recall at 1 is at most recall
  at 5, which is at most recall at 10, all of them and the mean reciprocal rank lie between zero and
  one, for the whole run and for each category, each category is reported once, and the queries of
  the categories add up to those of the run.\<close>

theorem eval_report_coherent:
  assumes "run_eval reachable dataset from_json lim' mock
      (eval_instance mock M srv ollama E h secs) s = (Inr r, s')"
    and "\<And>l inst. from_json l = Some inst \<Longrightarrow> length (effective_queries inst) < 2 ^ 33"
    and "queries_evaluated r < 2 ^ 53"
  shows "metrics_ok (overall r) \<and> list_all (\<lambda>p. metrics_ok (snd p)) (per_category r)
    \<and> distinct (map fst (per_category r))
    \<and> queries_evaluated r = sum_list (map (n_queries \<circ> snd) (per_category r))"
proof -
  have skip: "metrics_ok no_recall" by (simp add: metrics_ok_def no_recall_def)
  show ?thesis
  proof (cases "\<not> mock \<and> \<not> reachable")
    case True
    with assms(1) skip show ?thesis by (auto simp: run_eval_def)
  next
    case False
    define run where "run = eval_instance mock M srv ollama E h secs"
    from assms(1) False obtain body insts cats ov s1 where
      insts: "insts = load_instances from_json lim' body"
      and loop: "eval_loop run 0 insts s [] (0, 0, 0, 0, 0) = (Inr (cats, ov), s1)"
      and rep: "r = build_report mock insts cats ov"
      unfolding run_def [symmetric] run_eval_def Let_def
      by (simp del: from_acc.simps split: option.splits sum.splits prod.splits if_splits)
    then have r: "overall r = from_acc ov" "queries_evaluated r = acc_n ov"
        "per_category r = map (\<lambda>(c, a). (c, from_acc a)) (filter (\<lambda>(c, a). 0 < acc_n a) cats)"
      by (simp_all add: build_report_def)
    have q: "length (effective_queries inst) < 2 ^ 33" if "inst \<in> set insts" for inst
    proof -
      have "inst \<in> set (List.map_filter from_json (filter (\<lambda>l. l \<noteq> []) (map trim (lines body))))"
        using that by (simp add: insts load_instances_def Let_def split: if_splits) (rule in_set_takeD)
      then obtain l where "from_json l = Some inst" by (auto simp: List.map_filter_def)
      then show ?thesis by (rule assms(2))
    qed
    have "counts_ok ov \<and> list_all (\<lambda>p. counts_ok (snd p)) cats \<and> distinct (map fst cats)
        \<and> sum_list (map (acc_n \<circ> snd) cats) = acc_n ov"
      using loop
    proof (rule eval_loop_facts)
      show "\<And>i inst s x s'. inst \<in> set insts \<Longrightarrow> run i inst s = (Inr x, s') \<Longrightarrow> counts_ok x"
        unfolding run_def by (erule eval_instance_ok) (rule q)
    qed (simp_all add: counts_ok_def)
    then have f: "counts_ok ov" "list_all (\<lambda>p. counts_ok (snd p)) cats" "distinct (map fst cats)"
        "sum_list (map (acc_n \<circ> snd) cats) = acc_n ov" by blast+
    have each: "metrics_ok (from_acc a) \<and> n_queries (from_acc a) = acc_n a" if "(c, a) \<in> set cats" for c a
    proof (rule from_acc_ok)
      show "counts_ok a" using that f(2) by (auto simp: list_all_iff)
      have "acc_n a \<le> sum_list (map (acc_n \<circ> snd) cats)"
        using that by (intro member_le_sum_list) (auto simp: image_iff intro: bexI [of _ "(c, a)"])
      with f(4) r assms(3) show "acc_n a < 2 ^ 53" by simp
    qed
    have "sum_list (map (n_queries \<circ> snd) (per_category r)) = sum_list (map (acc_n \<circ> snd) (filter (\<lambda>(c, a). 0 < acc_n a) cats))"
      unfolding r(3) using each by (auto intro!: arg_cong [where f = sum_list])
    also have "\<dots> = acc_n ov" unfolding f(4) [symmetric]
      by (induction cats) auto
    finally have "queries_evaluated r = sum_list (map (n_queries \<circ> snd) (per_category r))" using r by simp
    moreover have "distinct (map fst (per_category r))"
      unfolding r(3) using f(3) by (simp add: comp_def case_prod_unfold distinct_map_filter)
    moreover have "metrics_ok (overall r)" using from_acc_ok [OF f(1)] r assms(3) by simp
    moreover have "list_all (\<lambda>p. metrics_ok (snd p)) (per_category r)"
      unfolding r(3) using each by (fastforce simp: list_all_iff)
    ultimately show ?thesis by blast
  qed
qed

definition toy_instance :: lme_instance where
  "toy_instance = \<lparr>question_id = ''q1'', question_type = [], question = ''who uses rust'',
     answer_session_ids = [''s1''], haystack_session_ids = [], haystack_sessions = [], category = [],
     history = [], queries = []\<rparr>"

definition toy_mock :: mock_env where
  "toy_mock = \<lparr>me_sha = (\<lambda>b. b), me_canon = (\<lambda>_. Some []), me_fts = (\<lambda>_ _. Inr []), me_fault = (\<lambda>_. False),
     me_nanos = id, me_now = int\<rparr>"

theorem eval_report_coherent_witness:
  "metrics_ok (overall (build_report True [toy_instance] [(''unknown'', 0, 0, 0, 0, 1)] (0, 0, 0, 0, 1)))"
proof -
  have l: "load_instances (\<lambda>_. Some toy_instance) 0 ''{}'' = [toy_instance]"
    by (simp add: load_instances_def lines_def strip_cr_def trim_def trim_start_def trim_end_def is_ws_def
        List.map_filter_def)
  have c: "category_of toy_instance = ''unknown''" by (simp add: category_of_def toy_instance_def)
  have r: "run_mock toy_mock toy_instance 10 = Inr (0, 0, 0, 0, 1)"
    by (simp add: run_mock_def instance_docs_def toy_instance_def infer_sids_def effective_queries_def
        bm25_search_def sql_limit_def toy_mock_def Let_def tally_queries_def query_step_def compute_recall_def
        List.map_filter_def)
  have "run_eval True (Some (Some ''{}'')) (\<lambda>_. Some toy_instance) 0 True
      (eval_instance True (\<lambda>_. toy_mock) toy_server (new_ollama ''u'') (\<lambda>_ _. undefined) (\<lambda>_. 0) (\<lambda>_. 0)) (0 :: nat)
    = (Inr (build_report True [toy_instance] [(''unknown'', 0, 0, 0, 0, 1)] (0, 0, 0, 0, 1)), 0)"
    by (simp add: run_eval_def l eval_instance_def r c Let_def)
  from eval_report_coherent [OF this] show ?thesis
    by (simp add: build_report_def effective_queries_def toy_instance_def)
qed

text \<open>Truncation returns a prefix of at most the given number of bytes that ends between two
  characters, and leaves a text that fits as it is.\<close>

theorem truncate_bytes_fits:
  "length (truncate_bytes s n) \<le> n \<and> prefix (truncate_bytes s n) s
   \<and> is_char_boundary s (length (truncate_bytes s n)) \<and> (length s > n \<or> truncate_bytes s n = s)"
proof (cases "length s \<le> n")
  case True
  then show ?thesis by (simp add: truncate_bytes_def is_char_boundary_def)
next
  case False
  have "0 \<in> set (rev [0..<Suc n]) \<and> is_char_boundary s 0"
    by (simp add: is_char_boundary_def del: upt_Suc)
  then have "find (is_char_boundary s) (rev [0..<Suc n]) \<noteq> None"
    unfolding find_None_iff by blast
  then obtain b where b: "find (is_char_boundary s) (rev [0..<Suc n]) = Some b" by blast
  from find_SomeD [OF this] have bn: "is_char_boundary s b" "b \<le> n" by auto
  show ?thesis
  proof (cases "rfind_ws (take b s)")
    case None
    with False b bn show ?thesis by (simp add: truncate_bytes_def take_is_prefix)
  next
    case (Some i)
    from find_SomeD [OF this [unfolded rfind_ws_def]] have i: "i < b" "i < length s" "is_ws (s ! i)"
      by auto
    then have "is_char_boundary s i" by (auto simp: is_char_boundary_def is_ws_def Let_def)
    with False b bn i Some show ?thesis by (simp add: truncate_bytes_def take_is_prefix min_def)
  qed
qed

end
