(* ===== verification/TokenReduction.thy ===== *)
theory TokenReduction
  imports Docs
begin

text \<open>
  The token-reduction harness, \<open>crates/amore-eval/src/main.rs\<close>: it compares the tokens of the raw
  context files of a fixture with those of the router's excerpts, and passes when the average reduction
  is at least 85\<percent>, the worst at least 75\<percent> and there are thirty fixtures.  The percentages are \<open>f32\<close>.  The
  tokenizer is the parameter \<open>count_tokens\<close>, the JSON parser \<open>parse\<close>; files are a map from
  paths to contents, absent when unreadable or not UTF-8.
\<close>

section \<open>Formatting a float\<close>

text \<open>\<open>{:.d}\<close> rounds the exact value to \<open>d\<close> decimals, ties to even.\<close>

definition fmt_fixed :: "nat \<Rightarrow> rat \<Rightarrow> string" where
  "fmt_fixed d x =
     (let n = nat (half_even (\<bar>x\<bar> * 10 ^ d))
      in (if x < 0 then ''-'' else []) @ dec_nat (n div 10 ^ d) @ ''.'' @ dec_pad d (n mod 10 ^ d))"

section \<open>Fixtures\<close>

record fixture =
  fx_id :: string
  fx_class :: string
  fx_query :: string
  raw_context_files :: "string list"
  canonical_docs_paths :: "string list"

record fixture_result =
  fr_id :: string
  fr_class :: string
  baseline_tokens :: nat
  optimized_tokens :: nat
  reduction_pct :: rat
  canonical_hits :: nat

text \<open>\<open>PathBuf::join\<close>: an absolute path replaces the base.\<close>

definition join_path :: "string \<Rightarrow> string \<Rightarrow> string" where
  "join_path base p =
     (if starts_with p ''/'' then p
      else if base = [] \<or> ends_with base ''/'' then base @ p
      else base @ ''/'' @ p)"

definition expand_home :: "string option \<Rightarrow> string \<Rightarrow> string" where
  "expand_home home s =
     (case (strip_prefix ''~/'' s, home) of
        (Some rest, Some h) \<Rightarrow> join_path h rest
      | _ \<Rightarrow> s)"

fun read_concat_loop :: "string option \<Rightarrow> (string \<rightharpoonup> string) \<Rightarrow> string list \<Rightarrow> string \<Rightarrow> string" where
  "read_concat_loop home files [] out = out"
| "read_concat_loop home files (raw # paths) out =
     (let p = expand_home home raw in
      case files p of
        None \<Rightarrow> read_concat_loop home files paths out
      | Some s \<Rightarrow>
          read_concat_loop home files paths
            (out @ (if out = [] then [] else [CHR 0x0A, CHR 0x0A]) @ ''===== '' @ p @ '' ====='' @ [CHR 0x0A] @ s))"

definition read_concat :: "string option \<Rightarrow> (string \<rightharpoonup> string) \<Rightarrow> string list \<Rightarrow> string" where
  "read_concat home files paths = read_concat_loop home files paths []"

text \<open>The entries \<open>walkdir\<close> yields: a path, its extension, and its content (\<^const>\<open>None\<close>: unreadable).\<close>

fun load_loop :: "(string \<Rightarrow> fixture option) \<Rightarrow> (string \<times> string option \<times> string option) list \<Rightarrow> fixture list
    \<Rightarrow> string + fixture list" where
  "load_loop parse [] out = Inr out"
| "load_loop parse ((path, ext, body) # es) out =
     (if ext \<noteq> Some ''json'' then load_loop parse es out
      else case body of
        None \<Rightarrow> Inl (''read fixture '' @ path)
      | Some b \<Rightarrow> (case parse b of
          None \<Rightarrow> Inl (''parse fixture '' @ path)
        | Some f \<Rightarrow> load_loop parse es (out @ [f])))"

definition load_fixtures :: "(string \<Rightarrow> fixture option) \<Rightarrow> (string \<times> string option \<times> string option) list option
    \<Rightarrow> string + fixture list" where
  "load_fixtures parse dir =
     (case dir of
        None \<Rightarrow> Inl ''fixtures dir not found''
      | Some es \<Rightarrow>
          (case load_loop parse es [] of
             Inl e \<Rightarrow> Inl e
           | Inr out \<Rightarrow> if out = [] then Inl ''no *.json fixtures found'' else Inr (sort_key fx_id out)))"

section \<open>One fixture\<close>

definition render_hit :: "doc_hit \<Rightarrow> string" where
  "render_hit h = ''['' @ doc_title h @ ''] (score='' @ fmt_fixed 3 (topic_score h) @ '')'' @ [CHR 0x0A] @ doc_excerpt h"

definition reduction :: "nat \<Rightarrow> nat \<Rightarrow> rat" where
  "reduction baseline optimized =
     (if baseline = 0 then 0
      else f32 (f32 (1 - fdiv (f32 (of_nat optimized)) (f32 (of_nat baseline))) * 100))"

definition run_one ::
  "(string \<Rightarrow> nat) \<Rightarrow> string option \<Rightarrow> (string \<rightharpoonup> string) \<Rightarrow> (string \<Rightarrow> doc_file list option) \<Rightarrow> fixture \<Rightarrow> fixture_result" where
  "run_one count_tokens home files dir f =
     (let baseline = count_tokens (read_concat home files (raw_context_files f));
          hs = route True (fx_query f) (map (dir \<circ> expand_home home) (canonical_docs_paths f));
          optimized = count_tokens (join_with [CHR 0x0A, CHR 0x0A] (map render_hit hs))
      in \<lparr>fr_id = fx_id f, fr_class = fx_class f, baseline_tokens = baseline, optimized_tokens = optimized,
          reduction_pct = reduction baseline optimized, canonical_hits = length hs\<rparr>)"

section \<open>The verdict and the rows\<close>

definition avg_reduction :: "fixture_result list \<Rightarrow> rat" where
  "avg_reduction rs = fdiv (foldl (\<lambda>a r. fadd a (reduction_pct r)) 0 rs) (f32 (of_nat (length rs)))"

text \<open>\<open>fold(INFINITY, min)\<close> of a list that is not empty, and the id of the first least element.\<close>

fun worst_reduction :: "fixture_result list \<Rightarrow> rat" where
  "worst_reduction [] = 0"
| "worst_reduction (r # rs) = foldl (\<lambda>m r. min m (reduction_pct r)) (reduction_pct r) rs"

definition worst_id :: "fixture_result list \<Rightarrow> string" where
  "worst_id rs = (case find (\<lambda>r. reduction_pct r = worst_reduction rs) rs of Some r \<Rightarrow> fr_id r | None \<Rightarrow> [])"

definition worst_class :: "fixture_result list \<Rightarrow> string" where
  "worst_class rs = (case find (\<lambda>r. fr_id r = worst_id rs) rs of Some r \<Rightarrow> fr_class r | None \<Rightarrow> ''?'')"

definition verdict :: "fixture_result list \<Rightarrow> string" where
  "verdict rs =
     (if 85 \<le> avg_reduction rs \<and> 75 \<le> worst_reduction rs \<and> 30 \<le> length rs then ''PASS'' else ''PARTIAL'')"

definition row_verdict :: "fixture_result \<Rightarrow> string" where
  "row_verdict r = (if 75 \<le> reduction_pct r then ''PASS'' else ''PARTIAL'')"

definition tsv :: "string list \<Rightarrow> string" where
  "tsv = join_with [CHR 0x09]"

definition fixture_row :: "string \<Rightarrow> fixture_result \<Rightarrow> string" where
  "fixture_row ts r =
     tsv [ts, ''A9-fx-'' @ fr_id r, ''cargo run -p amore-eval --bin token-reduction'', row_verdict r,
       fr_class r @ ''_reduction'',
       ''baseline='' @ dec_nat (baseline_tokens r) @ ''/optimized='' @ dec_nat (optimized_tokens r)
         @ ''/reduction='' @ fmt_fixed 1 (reduction_pct r) @ ''%/hits='' @ dec_nat (canonical_hits r),
       ''crates/eval/fixtures/'' @ fr_id r @ ''.json'', ''UNCOMMITTED'']"

definition summary_row :: "string \<Rightarrow> fixture_result list \<Rightarrow> string" where
  "summary_row ts rs =
     tsv [ts, ''A9'', ''cargo run -p amore-eval --bin token-reduction'', verdict rs, ''token_reduction'',
       ''avg='' @ fmt_fixed 1 (avg_reduction rs) @ ''%/worst='' @ fmt_fixed 1 (worst_reduction rs) @ ''%(class=''
         @ worst_class rs @ '',id='' @ worst_id rs @ '')/N='' @ dec_nat (length rs),
       ''crates/eval/src/main.rs'', ''UNCOMMITTED'']"

text \<open>The rows are appended to the file, created when absent; \<open>can_open\<close>: opening it succeeds.\<close>

definition append_results_tsv :: "bool \<Rightarrow> string option \<Rightarrow> string list \<Rightarrow> (string + unit) \<times> string option" where
  "append_results_tsv can_open old rows =
     (if \<not> can_open then (Inl ''open results.tsv'', old)
      else (Inr (), Some ((case old of Some s \<Rightarrow> s | None \<Rightarrow> [])
         @ concat (map (\<lambda>row. if ends_with row [CHR 0x0A] then row else row @ [CHR 0x0A]) rows))))"

definition token_reduction_main ::
  "(string \<Rightarrow> fixture option) \<Rightarrow> (string \<Rightarrow> nat) \<Rightarrow> string option \<Rightarrow> (string \<rightharpoonup> string) \<Rightarrow> (string \<Rightarrow> doc_file list option)
    \<Rightarrow> string \<Rightarrow> bool \<Rightarrow> (string \<times> string option \<times> string option) list option \<Rightarrow> string option
    \<Rightarrow> (string + fixture_result list) \<times> string option" where
  "token_reduction_main parse count_tokens home files dir ts can_open fixtures old =
     (case load_fixtures parse fixtures of
        Inl e \<Rightarrow> (Inl e, old)
      | Inr fs \<Rightarrow>
          (let rs = map (run_one count_tokens home files dir) fs in
           case append_results_tsv can_open old (map (fixture_row ts) rs @ [summary_row ts rs]) of
             (Inl e, f) \<Rightarrow> (Inl e, f)
           | (Inr _, f) \<Rightarrow> (Inr rs, f)))"

section \<open>The float gate is an integer test\<close>

text \<open>A dyadic with a short numerator is a value of the format.\<close>

lemma f32_dyadic:
  assumes "0 < n" "n < 2 ^ 24" and "- 149 \<le> k"
  shows "f32 (of_nat n * 2 powi k) = of_nat n * 2 powi k"
proof -
  let ?x = "(of_nat n :: rat) * 2 powi k"
  have x: "0 < ?x" using assms by simp
  have "(of_nat n :: rat) < of_nat (2 ^ 24)" using assms(2) of_nat_less_iff by blast
  then have "?x < 2 powi 24 * 2 powi k" by simp
  then have "?x < 2 powi (24 + k)" by (simp add: power_int_add)
  then have "(2 :: rat) powi (flog2 ?x) < 2 powi (24 + k)" using flog2_bounds(1) [OF x] by linarith
  then have "flog2 ?x < 24 + k" unfolding powi_less_iff .
  then have "ulp_exp 23 (- 149) ?x \<le> k" using assms(3) by (simp add: ulp_exp_def)
  then have "round_pos 23 (- 149) ?x = ?x" by (intro round_pos_exact [of _ "int n"]) simp_all
  with x show ?thesis by (simp add: f32_def round_to_def)
qed

lemma f32_frac:
  assumes "0 < n" "n < 2 ^ 24" and "j \<le> 149"
  shows "f32 (of_nat n / 2 ^ j) = of_nat n / 2 ^ j"
  using f32_dyadic [of n "- int j"] assms by (simp add: power_int_minus divide_inverse)

lemma f32_nonpos: "x \<le> 0 \<Longrightarrow> f32 x \<le> 0"
  by (auto simp: f32_def round_to_def round_pos_nonneg)

lemma f32_near_75: "f32 ((3 * 2 ^ 22 - 1) / 2 ^ 24 * 100) < 75"
proof -
  let ?x = "(3 * 2 ^ 22 - 1) / 2 ^ 24 * 100 :: rat"
  have "flog2 ?x = 6" by (rule flog2_unique) (simp_all add: power_int_def)
  then have u: "ulp 23 (- 149) ?x = 1 / 2 ^ 17" by (simp add: ulp_def ulp_exp_def power_int_def divide_simps)
  have "\<bar>round_to 23 (- 149) ?x - ?x\<bar> \<le> 1 / 2 ^ 17 / 2"
    using round_to_error [of ?x 23 "- 149"] unfolding u by simp
  then have "f32 ?x \<le> ?x + 1 / 2 ^ 17 / 2" unfolding f32_def by linarith
  also have "\<dots> < 75" by simp
  finally show ?thesis .
qed

lemma reduction_ge_75:
  assumes b: "b < 2 ^ 22"
  shows "75 \<le> reduction b n \<longleftrightarrow> 0 < b \<and> 4 * n \<le> b"
proof (cases "b = 0")
  case False
  have fb: "f32 (of_nat b) = of_nat b" using b by (intro f32_of_nat) simp
  define q where "q = fdiv (f32 (of_nat n)) (f32 (of_nat b))"
  have red: "reduction b n = f32 (f32 (1 - q) * 100)" using False by (simp add: reduction_def q_def)
  have q0: "0 \<le> q" by (simp add: q_def)
  show ?thesis
  proof (cases "4 * n \<le> b")
    case True
    then have fn: "f32 (of_nat n) = of_nat n" using b by (intro f32_of_nat) simp
    have "(of_nat (4 * n) :: rat) \<le> of_nat b" using True of_nat_le_iff by blast
    then have "of_nat n / of_nat b \<le> (1 / 4 :: rat)" using False by (simp add: field_simps)
    then have "q \<le> f32 (1 / 4)" unfolding q_def fn fb by (intro f32_mono) simp_all
    also have "\<dots> = 1 / 4" using f32_frac [of 1 2] by simp
    finally have "f32 (3 / 4) \<le> f32 (1 - q)" by (intro f32_mono) simp_all
    then have "3 / 4 \<le> f32 (1 - q)" using f32_frac [of 3 2] by simp
    then have "f32 75 \<le> reduction b n" unfolding red by (intro f32_mono) simp_all
    then show ?thesis using f32_of_nat [of 75] True False by simp
  next
    case more: False
    define m where "m = min n (2 ^ 22)"
    have m: "b + 1 \<le> 4 * m" "m \<le> n" "m \<le> 2 ^ 22" using more b by (simp_all add: m_def)
    have "f32 (of_nat m) \<le> f32 (of_nat n)" using m(2) by (intro f32_mono) simp_all
    moreover have "f32 (of_nat m) = of_nat m" using m(3) by (intro f32_of_nat) simp
    ultimately have fn: "of_nat m \<le> f32 (of_nat n)" by simp
    have "(of_nat (b + 1) :: rat) \<le> of_nat (4 * m)" using m(1) of_nat_le_iff by blast
    moreover have "(of_nat b :: rat) \<le> of_nat (2 ^ 22)" using b of_nat_le_iff less_imp_le by blast
    ultimately have "(of_nat (2 ^ 22 + 1) * 2 powi (- 24) :: rat) \<le> of_nat m / of_nat b"
      using False by (simp add: power_int_def field_simps)
    also have "\<dots> \<le> f32 (of_nat n) / f32 (of_nat b)" using fn by (simp add: fb divide_right_mono)
    finally have "f32 (of_nat (2 ^ 22 + 1) * 2 powi (- 24)) \<le> q" unfolding q_def by (intro f32_mono) simp_all
    moreover have "f32 (of_nat (2 ^ 22 + 1) * 2 powi (- 24)) = of_nat (2 ^ 22 + 1) * 2 powi (- 24)"
      by (rule f32_dyadic) simp_all
    moreover have "(of_nat (2 ^ 22 + 1) * 2 powi (- 24) :: rat) = (2 ^ 22 + 1) / 2 ^ 24" by (simp add: power_int_def power_one_over)
    ultimately have qhi: "(2 ^ 22 + 1) / 2 ^ 24 \<le> q" by simp
    have "reduction b n < 75"
    proof (cases "q \<le> 1")
      case True
      have d: "f32 ((3 * 2 ^ 22 - 1) / 2 ^ 24) = (3 * 2 ^ 22 - 1) / 2 ^ 24"
        using f32_frac [of "3 * 2 ^ 22 - 1" 24] by simp
      have "f32 (1 - q) \<le> f32 ((3 * 2 ^ 22 - 1) / 2 ^ 24)" using qhi True by (intro f32_mono) simp_all
      then have "f32 (1 - q) * 100 \<le> (3 * 2 ^ 22 - 1) / 2 ^ 24 * 100" unfolding d by simp
      then have "reduction b n \<le> f32 ((3 * 2 ^ 22 - 1) / 2 ^ 24 * 100)"
        unfolding red using True by (intro f32_mono mult_nonneg_nonneg f32_nonneg) simp_all
      with f32_near_75 show ?thesis by linarith
    next
      case False
      then have "f32 (1 - q) \<le> 0" by (intro f32_nonpos) simp
      then have "reduction b n \<le> 0" unfolding red by (intro f32_nonpos) simp
      then show ?thesis by linarith
    qed
    then show ?thesis using more by simp
  qed
qed (simp add: reduction_def)

section \<open>The verdict\<close>

lemma fold_min: "x \<le> foldl (\<lambda>m r. min m (reduction_pct r)) a rs \<longleftrightarrow> x \<le> a \<and> (\<forall>r \<in> set rs. x \<le> reduction_pct r)"
  by (induction rs arbitrary: a) auto

lemma worst_ge: "rs \<noteq> [] \<Longrightarrow> x \<le> worst_reduction rs \<longleftrightarrow> (\<forall>r \<in> set rs. x \<le> reduction_pct r)"
  by (cases rs) (auto simp: fold_min)

text \<open>What every result of a run is.\<close>

definition result_ok :: "fixture_result \<Rightarrow> bool" where
  "result_ok r \<longleftrightarrow> reduction_pct r = reduction (baseline_tokens r) (optimized_tokens r)"

lemma run_one_ok: "result_ok (run_one count_tokens home files dir f)"
  by (simp add: result_ok_def run_one_def Let_def)

lemma load_fixtures_facts:
  assumes "load_fixtures parse es = Inr fs"
  shows "fs \<noteq> [] \<and> sorted (map fx_id fs)"
proof -
  obtain out where "load_loop parse (the es) [] = Inr out" "out \<noteq> []" "fs = sort_key fx_id out"
    using assms by (auto simp: load_fixtures_def split: option.splits sum.splits if_splits)
  moreover have "length (sort_key fx_id out) = length out" by simp
  ultimately show ?thesis by (metis length_0_conv sorted_sort_key)
qed

lemma main_results:
  assumes "token_reduction_main parse count_tokens home files dir ts can_open es old = (Inr rs, file)"
  shows "rs \<noteq> []" and "list_all result_ok rs" and "sorted (map fr_id rs)"
    and "file = Some ((case old of Some s \<Rightarrow> s | None \<Rightarrow> [])
       @ concat (map (\<lambda>row. if ends_with row [CHR 0x0A] then row else row @ [CHR 0x0A])
           (map (fixture_row ts) rs @ [summary_row ts rs])))"
proof -
  obtain fs where fs: "load_fixtures parse es = Inr fs" and
    rs: "rs = map (run_one count_tokens home files dir) fs" and
    f: "append_results_tsv can_open old (map (fixture_row ts) rs @ [summary_row ts rs]) = (Inr (), file)"
    using assms by (auto simp: token_reduction_main_def Let_def split: sum.splits prod.splits)
  have i: "fr_id \<circ> run_one count_tokens home files dir = fx_id"
    by (simp add: fun_eq_iff run_one_def Let_def)
  show "rs \<noteq> []" "sorted (map fr_id rs)"
    using load_fixtures_facts [OF fs] i by (simp_all add: rs)
  show "list_all result_ok rs" by (simp add: rs list_all_iff run_one_ok)
  show "file = Some ((case old of Some s \<Rightarrow> s | None \<Rightarrow> [])
       @ concat (map (\<lambda>row. if ends_with row [CHR 0x0A] then row else row @ [CHR 0x0A])
           (map (fixture_row ts) rs @ [summary_row ts rs])))"
    using f by (auto simp: append_results_tsv_def split: if_splits)
qed

text \<open>The percentages of the gate are exact despite the floats.  For baselines below \<open>2^22\<close> tokens, a
  fixture's row says PASS exactly when its excerpts have at most a quarter of the tokens of a baseline that
  is not empty, and the run passes exactly when all of its fixtures do, the average reaches 85 and there are
  thirty of them.  The rows are written in the order of the fixture ids, after what the file held.\<close>

theorem gate_is_exact:
  assumes run: "token_reduction_main parse count_tokens home files dir ts can_open es old = (Inr rs, file)"
    and b: "\<forall>r \<in> set rs. baseline_tokens r < 2 ^ 22"
  shows "(\<forall>r \<in> set rs. row_verdict r = ''PASS'' \<longleftrightarrow> 0 < baseline_tokens r \<and> 4 * optimized_tokens r \<le> baseline_tokens r)
    \<and> (verdict rs = ''PASS'' \<longleftrightarrow> 85 \<le> avg_reduction rs \<and> 30 \<le> length rs
         \<and> (\<forall>r \<in> set rs. 0 < baseline_tokens r \<and> 4 * optimized_tokens r \<le> baseline_tokens r))
    \<and> sorted (map fr_id rs)
    \<and> (\<exists>new. file = Some ((case old of Some s \<Rightarrow> s | None \<Rightarrow> []) @ new))"
proof -
  note m = main_results [OF run]
  have q: "75 \<le> reduction_pct r \<longleftrightarrow> 0 < baseline_tokens r \<and> 4 * optimized_tokens r \<le> baseline_tokens r"
    if "r \<in> set rs" for r
    using m(2) reduction_ge_75 [of "baseline_tokens r" "optimized_tokens r"] b that
    by (auto simp: list_all_iff result_ok_def)
  have "row_verdict r = ''PASS'' \<longleftrightarrow> 0 < baseline_tokens r \<and> 4 * optimized_tokens r \<le> baseline_tokens r"
    if "r \<in> set rs" for r
    using q [OF that] by (simp add: row_verdict_def)
  moreover have "verdict rs = ''PASS'' \<longleftrightarrow> 85 \<le> avg_reduction rs \<and> 30 \<le> length rs \<and> (\<forall>r \<in> set rs. 75 \<le> reduction_pct r)"
    using worst_ge [OF m(1), of 75] by (auto simp: verdict_def)
  ultimately show ?thesis using q m(3,4) by auto
qed

lemma gate_is_exact_witness:
  "\<exists>rs file. token_reduction_main (\<lambda>_. Some \<lparr>fx_id = ''a'', fx_class = ''docs'', fx_query = ''q'',
       raw_context_files = [''r''], canonical_docs_paths = []\<rparr>) length None [''r'' \<mapsto> ''x''] (\<lambda>_. None) ''t'' True
     (Some [(''a.json'', Some ''json'', Some ''b'')]) None = (Inr rs, file)
   \<and> map row_verdict rs = [''PASS'']"
proof -
  define r where "r = run_one length None [''r'' \<mapsto> ''x''] (\<lambda>_. None) \<lparr>fx_id = ''a'', fx_class = ''docs'', fx_query = ''q'',
       raw_context_files = [''r''], canonical_docs_paths = []\<rparr>"
  have bo: "0 < baseline_tokens r" "baseline_tokens r < 2 ^ 22" "optimized_tokens r = 0"
    by (simp_all add: r_def run_one_def Let_def read_concat_def expand_home_def strip_prefix_def route_def tokenize_def)
  obtain w where run: "token_reduction_main (\<lambda>_. Some \<lparr>fx_id = ''a'', fx_class = ''docs'', fx_query = ''q'',
       raw_context_files = [''r''], canonical_docs_paths = []\<rparr>) length None [''r'' \<mapsto> ''x''] (\<lambda>_. None) ''t'' True
     (Some [(''a.json'', Some ''json'', Some ''b'')]) None = (Inr [r], w)"
    by (simp add: token_reduction_main_def load_fixtures_def append_results_tsv_def Let_def r_def)
  have "map row_verdict [r] = [''PASS'']" using gate_is_exact [OF run] bo by simp
  with run show ?thesis by (intro exI conjI)
qed

end
