(* ===== verification/SeedCorpus.thy ===== *)
theory SeedCorpus
  imports Prelude Float32
begin

text \<open>
  The corpus seeder, \<open>crates/amore-eval/src/bin/seed_load_test_corpus.rs\<close>: the deterministic
  embeddings and bodies, the collection it recreates, and the batch loop that writes every observation to
  Qdrant and then to SQLite.  Machine integers wrap.  Whether a call to the server or a transaction succeeds
  is an input, numbered by the batch.
\<close>

definition COLLECTION_NAME :: string where "COLLECTION_NAME = ''amore-h10-load-corpus''"
definition VECTOR_DIM :: nat where "VECTOR_DIM = 768"

section \<open>Bodies\<close>

definition TEMPLATES :: "string list" where
  "TEMPLATES =
     [''This entry covers memory management in Rust async runtimes.'',
      ''Performance profiling reveals bottlenecks in the I/O layer.'',
      ''The architecture review identified coupling in the service boundary.'',
      ''Database migration succeeded without downtime using shadow writes.'',
      ''Error handling paths have been hardened against partial failures.'',
      ''The CI pipeline now includes property-based tests for parsers.'',
      ''API versioning strategy aligns with semantic-versioning principles.'',
      ''Observability spans expose latency distribution across system tiers.'',
      ''The BM25 recall lane achieves sub-100ms at 100K corpus scale.'',
      ''Vector quantization reduces memory by 4x with acceptable recall loss.'',
      ''Cluster replication factor 2 tolerates single-node failure cleanly.'',
      ''Cold-start latency meets the 500ms SLO on standard dev hardware.'',
      ''Snapshot restore validates byte-identical recovery from backup.'',
      ''Integration tests cover all 7 IDE adapter initialisation paths.'',
      ''Security review found no critical findings in the MCP surface.'',
      ''The token-reduction harness averages 96.6% across 10 fixtures.'',
      ''Graceful degradation returns BM25 hits when Qdrant is unreachable.'',
      ''WAL mode prevents chain-fork under concurrent multi-writer load.'',
      ''The installer packages Qdrant and bge-small.onnx in one 8 MB exe.'',
      ''Cross-encoder reranking adds 50ms p95 with measurable quality lift.'',
      ''Rate limiting protects the embed endpoint under burst traffic.'',
      ''Tantivy shard fan-out latency is 100ms p95 across 16 shards.'',
      ''Provenance chain sha-256 detects tampered payloads reliably.'',
      ''The ensemble orchestrator achieves consensus on 80% of test prompts.'',
      ''Adversarial test mining extracts failure cases from session ledgers.'',
      ''The doctor subcommand reports all health checks in machine-readable JSON.'',
      ''Binary size is 9.84 MB for amore-mcp after release optimisations.'',
      ''Sigstore keyless signing attests the Linux release artifact cleanly.'',
      ''The npm postinstall wrapper supports private-repo GH token auth.'',
      ''World model Bayesian updates track tool reliability over sessions.'',
      ''Rust edition 2024 async-fn-in-traits simplifies the LLM client trait.'',
      ''gRPC transport reduces serialisation overhead vs REST for bulk ops.'',
      ''The backup harness verifies cosign verify-blob in a clean container.'',
      ''Lazy embedder timeout flips the ollama_unavailable degraded flag.'',
      ''Property tests validate RRF fusion is monotone, bounded, deterministic.'',
      ''The canonical-docs router achieves 89.3% token reduction on a 43-fixture eval (TOP_K=3).'',
      ''Multi-writer SQLite WAL test catches the chain-fork concurrency bug.'',
      ''Release workflow splits bundle upload from archive for cross-OS compat.'',
      ''Inno Setup compiles a 7.6 MB installer with silent Ollama install.'',
      ''The amore-gui eframe window opens within 1.5s cold-start budget.'',
      ''HybridRecall indexes 5-doc corpus and returns top hit by cosine score.'',
      ''BM25 FTS5 baseline characterization locks query score ordering.'',
      ''The MCP handshake test asserts both recall and canonical_doc_lookup tools.'',
      ''IDE adapter dry-run preserves all existing mcpServers keys atomically.'',
      ''The perf-baseline.tsv appends one row per metric on each release tag.'',
      ''Stack backtrace on SIGSEGV is captured via signal handler for debugging.'',
      ''Tantivy ADR 0011 documents the migration path from SQLite FTS5.'',
      ''Cluster opt-in ADR 0007 defines the single-node to cluster upgrade path.'',
      ''The threat model covers stolen-laptop as the primary attack vector.'',
      ''Amore targets 99.99% availability with RF=2 and 3-node cluster topology.'']"

text \<open>The dash is the three bytes of its UTF-8 form.\<close>

definition synthetic_body :: "u64 \<Rightarrow> string" where
  "synthetic_body idx =
     ''Observation #'' @ dec_nat (unat idx) @ '' '' @ [CHR 0xE2, CHR 0x80, CHR 0x94] @ '' ''
       @ TEMPLATES ! (unat idx mod length TEMPLATES)"

section \<open>Embeddings\<close>

text \<open>The square root of the format, correctly rounded: the integer root of the value scaled to 25 bits
  or more, with half a unit for a remainder.\<close>

fun isqrt :: "nat \<Rightarrow> nat" where
  "isqrt n = (if n = 0 then 0 else let s = 2 * isqrt (n div 4) in if (s + 1) * (s + 1) \<le> n then s + 1 else s)"

declare isqrt.simps [simp del]

definition sqrt32 :: "rat \<Rightarrow> rat" where
  "sqrt32 x =
     (if x \<le> 0 then 0
      else let k = 26 - flog2 x div 2;
               y = x * 2 powi (2 * k);
               m = isqrt (nat \<lfloor>y\<rfloor>)
           in f32 ((of_nat m + (if of_nat (m * m) = y then 0 else 1 / 2)) / 2 powi k))"

definition lcg_u64 :: "u64 \<Rightarrow> u64" where
  "lcg_u64 seed = seed * 6364136223846793005 + 1442695040888963407"

text \<open>\<open>u64::MAX as f64\<close> is \<open>2^64\<close>.\<close>

definition unit_val :: "u64 \<Rightarrow> rat" where
  "unit_val state = f32 (f64 (f64 (f64 (f64 (of_nat (unat state)) / f64 (of_nat (unat (- 1 :: u64)))) * 2) - 1))"

fun raw_loop :: "nat \<Rightarrow> u64 \<Rightarrow> rat list" where
  "raw_loop 0 state = []"
| "raw_loop (Suc n) state = (let s = lcg_u64 state in unit_val s # raw_loop n s)"

definition norm32 :: "rat list \<Rightarrow> rat" where
  "norm32 raw = sqrt32 (foldl fadd 0 (map (\<lambda>x. f32 (x * x)) raw))"

definition synthetic_embedding :: "u64 \<Rightarrow> rat list" where
  "synthetic_embedding idx =
     (let raw = raw_loop VECTOR_DIM (idx + 1);
          norm = norm32 raw
      in if f32 (1 / 10 ^ 9) < norm then map (\<lambda>x. fdiv x norm) raw else raw)"

section \<open>The collection\<close>

text \<open>The collections of the server; each of the three calls can fail.\<close>

definition ensure_qdrant_collection :: "bool \<Rightarrow> bool \<Rightarrow> bool \<Rightarrow> string list \<Rightarrow> (string + unit) \<times> string list" where
  "ensure_qdrant_collection list_ok delete_ok create_ok cols =
     (if \<not> list_ok then (Inl ''list Qdrant collections'', cols)
      else if COLLECTION_NAME \<in> set cols \<and> \<not> delete_ok then (Inl ''delete existing h10 collection'', cols)
      else let cols' = filter (\<lambda>c. c \<noteq> COLLECTION_NAME) cols
           in if \<not> create_ok then (Inl ''create Qdrant collection'', cols')
              else (Inr (), cols' @ [COLLECTION_NAME]))"

section \<open>The batch loop\<close>

record seed_point =
  p_id :: u64
  p_vector :: "rat list"
  p_body :: string
  p_idx :: i64

record seed_state =
  points :: "seed_point list"
  meta :: "i64 \<rightharpoonup> string \<times> string"

definition seed_point_of :: "u64 \<Rightarrow> seed_point" where
  "seed_point_of i = \<lparr>p_id = i, p_vector = synthetic_embedding i, p_body = synthetic_body i, p_idx = i\<rparr>"

text \<open>The half-open range \<open>lo..hi\<close>.\<close>

definition range_u64 :: "u64 \<Rightarrow> u64 \<Rightarrow> u64 list" where
  "range_u64 lo hi = map of_nat [unat lo ..< unat hi]"

definition insert_meta :: "string \<Rightarrow> u64 \<Rightarrow> (i64 \<rightharpoonup> string \<times> string) \<Rightarrow> (i64 \<rightharpoonup> string \<times> string)" where
  "insert_meta now i m = m(i \<mapsto> (synthetic_body i, now))"

text \<open>The environment: whether the \<open>k\<close>-th upsert and the \<open>k\<close>-th transaction succeed, and the clock of
  the transaction.  A transaction that fails is rolled back.\<close>

record seed_env =
  upsert_ok :: "nat \<Rightarrow> bool"
  tx_ok :: "nat \<Rightarrow> bool"
  tx_now :: "nat \<Rightarrow> string"

partial_function (option) seed_loop ::
  "seed_env \<Rightarrow> u64 \<Rightarrow> u64 \<Rightarrow> nat \<Rightarrow> u64 \<Rightarrow> seed_state \<Rightarrow> ((string + unit) \<times> seed_state) option" where
  "seed_loop E num batch_size k idx st =
     (if \<not> idx < num then Some (Inr (), st)
      else let batch_end = min (idx + batch_size) num;
               is = range_u64 idx batch_end
           in if \<not> upsert_ok E k then Some (Inl ''upsert Qdrant batch'', st)
              else let st1 = st\<lparr>points := points st @ map seed_point_of is\<rparr>
                   in if \<not> tx_ok E k then Some (Inl ''SQLite transaction'', st1)
                      else seed_loop E num batch_size (k + 1) batch_end
                             (st1\<lparr>meta := fold (insert_meta (tx_now E k)) is (meta st1)\<rparr>))"

definition seed_main ::
  "seed_env \<Rightarrow> bool \<Rightarrow> bool \<Rightarrow> bool \<Rightarrow> bool \<Rightarrow> string list \<Rightarrow> (i64 \<rightharpoonup> string \<times> string) \<Rightarrow> u64 \<Rightarrow> u64
    \<Rightarrow> ((string + unit) \<times> string list \<times> seed_state) option" where
  "seed_main E list_ok delete_ok create_ok sqlite_ok cols old num batch_size =
     (let none = \<lparr>points = [], meta = old\<rparr> in
      if num = 0 then Some (Inl ''--count must be > 0'', cols, none)
      else if batch_size = 0 then Some (Inl ''--batch-size must be > 0'', cols, none)
      else case ensure_qdrant_collection list_ok delete_ok create_ok cols of
          (Inl e, cols') \<Rightarrow> Some (Inl e, cols', none)
        | (Inr _, cols') \<Rightarrow>
            if \<not> sqlite_ok then Some (Inl ''open SQLite'', cols', none)
            else map_option (\<lambda>(r, st). (r, cols', st)) (seed_loop E num batch_size 0 0 none))"

section \<open>Lemmas\<close>

lemma fold_insert_meta:
  "fold (insert_meta now) is m i = (if i \<in> set is then Some (synthetic_body i, now) else m i)"
  by (induction "is" arbitrary: m) (auto simp: insert_meta_def)

lemma set_range_u64: "set (range_u64 lo hi) = {i. lo \<le> i \<and> i < hi}"
proof (intro set_eqI iffI)
  fix i assume "i \<in> set (range_u64 lo hi)"
  then obtain n where n: "i = of_nat n" "unat lo \<le> n" "n < unat hi" by (auto simp: range_u64_def)
  then have "n < 2 ^ 64" using unsigned_less [where ?'a = nat, of hi] by simp
  then have "unat i = n" using n(1) by (simp add: unsigned_of_nat take_bit_nat_eq_self)
  with n show "i \<in> {i. lo \<le> i \<and> i < hi}" by (simp add: word_le_nat_alt word_less_nat_alt)
next
  fix i assume "i \<in> {i. lo \<le> i \<and> i < hi}"
  then have m: "unat i \<in> set [unat lo..<unat hi]" by (simp add: word_le_nat_alt word_less_nat_alt)
  show "i \<in> set (range_u64 lo hi)"
    unfolding range_u64_def set_map by (rule image_eqI [OF _ m]) simp
qed

text \<open>What the stores hold when Qdrant has the observations below \<open>p\<close> and SQLite those below \<open>q\<close>.\<close>

definition seeded :: "(i64 \<rightharpoonup> string \<times> string) \<Rightarrow> u64 \<Rightarrow> u64 \<Rightarrow> seed_state \<Rightarrow> bool" where
  "seeded old p q st \<longleftrightarrow>
     points st = map seed_point_of (range_u64 0 p)
     \<and> (\<forall>i. if i < q then map_option fst (meta st i) = Some (synthetic_body i) else meta st i = old i)"

lemma range_u64_append: "lo \<le> mid \<Longrightarrow> mid \<le> hi \<Longrightarrow> range_u64 lo mid @ range_u64 mid hi = range_u64 lo hi"
  unfolding range_u64_def word_le_nat_alt
  by (metis le_Suc_ex map_append upt_add_eq_append)

lemma seed_step:
  assumes "seeded old p p st" "p \<le> h"
  shows "seeded old h p (st\<lparr>points := points st @ map seed_point_of (range_u64 p h)\<rparr>)"
    and "seeded old h h (st\<lparr>points := points st @ map seed_point_of (range_u64 p h),
      meta := fold (insert_meta now) (range_u64 p h) (meta st)\<rparr>)"
proof -
  have a: "points st = map seed_point_of (range_u64 0 p)"
    "\<And>i. i < p \<Longrightarrow> map_option fst (meta st i) = Some (synthetic_body i)" "\<And>i. \<not> i < p \<Longrightarrow> meta st i = old i"
    using assms(1) by (auto simp: seeded_def)
  have r: "map seed_point_of (range_u64 0 p) @ map seed_point_of (range_u64 p h) = map seed_point_of (range_u64 0 h)"
    using range_u64_append [of 0 p h] assms(2) by (simp flip: map_append)
  show "seeded old h p (st\<lparr>points := points st @ map seed_point_of (range_u64 p h)\<rparr>)"
    using a r by (simp add: seeded_def)
  have "i < p \<Longrightarrow> i < h" for i using assms(2) by simp
  then show "seeded old h h (st\<lparr>points := points st @ map seed_point_of (range_u64 p h),
      meta := fold (insert_meta now) (range_u64 p h) (meta st)\<rparr>)"
    using a r by (auto simp: seeded_def fold_insert_meta set_range_u64 not_le)
qed

text \<open>The next boundary is further on when the sum does not wrap.\<close>

lemma batch_end:
  assumes "unat (num :: u64) + unat batch_size \<le> 2 ^ 64" and "0 < batch_size" and "idx < num"
  shows "idx < min (idx + batch_size) num" and "unat (min (idx + batch_size) num) \<le> unat idx + unat batch_size"
proof -
  have l: "unat idx < unat num" using assms(3) by (simp add: word_less_nat_alt)
  then have "unat (idx + batch_size) = unat idx + unat batch_size"
    using assms(1) by (intro unat_add_lem [THEN iffD1]) simp
  then show "idx < min (idx + batch_size) num" "unat (min (idx + batch_size) num) \<le> unat idx + unat batch_size"
    using assms(2) l by (auto simp: min_def word_less_nat_alt word_le_nat_alt)
qed

lemma seed_loop_progress:
  assumes "unat num + unat batch_size \<le> 2 ^ 64" and "0 < batch_size"
  shows "idx \<le> num \<Longrightarrow> seeded old idx idx st \<Longrightarrow>
    \<exists>r st' p q. seed_loop E num batch_size k idx st = Some (r, st') \<and> seeded old p q st'
      \<and> q \<le> p \<and> p \<le> num \<and> unat p \<le> unat q + unat batch_size \<and> (r = Inr () \<longleftrightarrow> q = num)
      \<and> ((\<forall>j. upsert_ok E j \<and> tx_ok E j) \<longrightarrow> r = Inr ())"
proof (induction "unat num - unat idx" arbitrary: idx k st rule: less_induct)
  case less
  show ?case
  proof (cases "idx < num")
    case False
    then have "idx = num" using less.prems(1) by simp
    then show ?thesis using less.prems by (subst seed_loop.simps) auto
  next
    case True
    define h where "h = min (idx + batch_size) num"
    have h: "idx < h" "unat h \<le> unat idx + unat batch_size" "h \<le> num"
      using batch_end [OF assms True] by (simp_all add: h_def)
    define st1 where "st1 = st\<lparr>points := points st @ map seed_point_of (range_u64 idx h)\<rparr>"
    define st2 where "st2 = st1\<lparr>meta := fold (insert_meta (tx_now E k)) (range_u64 idx h) (meta st1)\<rparr>"
    have s1: "seeded old h idx st1" and s2: "seeded old h h st2"
      using seed_step [OF less.prems(2), of h] h(1) by (simp_all add: st1_def st2_def)
    have eq: "seed_loop E num batch_size k idx st =
        (if \<not> upsert_ok E k then Some (Inl ''upsert Qdrant batch'', st)
         else if \<not> tx_ok E k then Some (Inl ''SQLite transaction'', st1)
         else seed_loop E num batch_size (k + 1) h st2)"
      using True by (subst seed_loop.simps) (simp add: Let_def h_def st1_def st2_def)
    have ne: "idx \<noteq> num" using True by simp
    show ?thesis
    proof (cases "upsert_ok E k \<and> tx_ok E k")
      case True
      have "unat num - unat h < unat num - unat idx"
        using h(1) \<open>idx < num\<close> by (simp add: word_less_nat_alt)
      from less.hyps [OF this h(3) s2] True show ?thesis unfolding eq by simp
    next
      case False
      then consider "\<not> upsert_ok E k" | "upsert_ok E k" "\<not> tx_ok E k" by blast
      then show ?thesis
      proof cases
        case 1
        then have "seed_loop E num batch_size k idx st = Some (Inl ''upsert Qdrant batch'', st)" unfolding eq by simp
        then show ?thesis using less.prems ne 1
          by (intro exI [of _ "Inl ''upsert Qdrant batch''"] exI [of _ st] exI [of _ idx]) auto
      next
        case 2
        then have "seed_loop E num batch_size k idx st = Some (Inl ''SQLite transaction'', st1)" unfolding eq by simp
        then show ?thesis using s1 h ne 2 less.prems(1)
          by (intro exI [of _ "Inl ''SQLite transaction''"] exI [of _ st1] exI [of _ h] exI [of _ idx]) auto
      qed
    qed
  qed
qed

section \<open>The properties\<close>



text \<open>Past the counter the boundary wraps and the loop starts over.\<close>

lemma batch_end_wraps:
  fixes idx :: u64
  assumes "2 ^ 64 \<le> unat idx + unat batch_size" and "idx < num"
  shows "min (idx + batch_size) num < idx"
proof -
  have "unat (idx + batch_size) = unat idx + unat batch_size - 2 ^ 64"
    using assms(1) by (simp add: unat_plus_if_size word_size)
  moreover have "unat batch_size < 2 ^ 64" using unsigned_less [where ?'a = nat, of batch_size] by simp
  ultimately have "idx + batch_size < idx" using assms(1) by (simp add: word_less_nat_alt)
  then show ?thesis by (simp add: min_less_iff_disj)
qed

lemma isqrt_bounds: "isqrt n * isqrt n \<le> n \<and> n < (isqrt n + 1) * (isqrt n + 1)"
proof (induction n rule: isqrt.induct)
  case (1 n)
  show ?case
  proof (cases "n = 0")
    case True
    then show ?thesis by (subst (1 2 3 4) isqrt.simps) simp
  next
    case False
    define m where "m = isqrt (n div 4)"
    have ih: "m * m \<le> n div 4" "n div 4 < (m + 1) * (m + 1)" using 1 [OF False] by (simp_all add: m_def)
    have n: "n = 4 * (n div 4) + n mod 4" "n mod 4 < 4" by simp_all
    have lo: "4 * (m * m) \<le> n" using ih(1) n by linarith
    have hi: "n < 4 * ((m + 1) * (m + 1))" using ih(2) n by linarith
    have e: "isqrt n = (if (2 * m + 1) * (2 * m + 1) \<le> n then 2 * m + 1 else 2 * m)"
      using False by (subst isqrt.simps) (simp add: Let_def m_def)
    show ?thesis using lo hi unfolding e by (auto simp: algebra_simps)
  qed
qed

text \<open>An embedding has the dimension of the collection, and its raw components lie in the unit interval
  around zero.\<close>

lemma raw_loop_length [simp]: "length (raw_loop n s) = n"
  by (induction n arbitrary: s) (simp_all add: Let_def)

lemma synthetic_embedding_length: "length (synthetic_embedding idx) = VECTOR_DIM"
  by (simp add: synthetic_embedding_def Let_def)

end
