(* ===== verification/Diag.thy ===== *)
theory Diag
  imports DataErase
begin

text \<open>
  The crash diagnostics of \<open>crates/amore-core/src/diag.rs\<close>: the
  installation of the handlers, what they write, and the bundle of the latest dumps.  The hash of a dump's
  name is a parameter; an archive is the list of its entries.
\<close>

section \<open>Writing dumps\<close>

text \<open>\<open>{suffix:08x}\<close>\<close>

definition hex08 :: "u32 \<Rightarrow> string" where
  "hex08 w = (let s = hex_nat (unat w) in replicate (8 - length s) CHR ''0'' @ s)"

definition next_dump_path :: "(nat \<Rightarrow> nat \<Rightarrow> u32) \<Rightarrow> home_dirs \<Rightarrow> nat \<Rightarrow> nat \<Rightarrow> string" where
  "next_dump_path hash H secs thread =
     sub (crash_dir H) (dec_nat secs @ ''-'' @ hex08 (hash secs thread) @ ''.dmp'')"

definition nl1 :: string where "nl1 = [CHR 0x0A]"

definition panic_dump :: "nat \<Rightarrow> (string \<times> nat \<times> nat) option \<Rightarrow> string \<Rightarrow> string" where
  "panic_dump secs loc info =
     ''amore panic dump'' @ nl1 @ ''timestamp: '' @ dec_nat secs @ nl1
     @ ''location: '' @ (case loc of Some (f, l, c) \<Rightarrow> f @ '':'' @ dec_nat l @ '':'' @ dec_nat c | None \<Rightarrow> ''<unknown>'') @ nl1
     @ ''payload: '' @ info @ nl1"

text \<open>The files that exist with their contents.  Writing fails when the directory is gone.\<close>

definition write_dump :: "bool \<Rightarrow> string \<Rightarrow> string \<Rightarrow> (string \<rightharpoonup> string) \<Rightarrow> (string \<rightharpoonup> string)" where
  "write_dump can_write path body files = (if can_write then files(path \<mapsto> body) else files)"

definition write_panic_dump ::
  "(nat \<Rightarrow> nat \<Rightarrow> u32) \<Rightarrow> home_dirs \<Rightarrow> bool \<Rightarrow> nat \<Rightarrow> nat \<Rightarrow> (string \<times> nat \<times> nat) option \<Rightarrow> string
    \<Rightarrow> (string \<rightharpoonup> string) \<Rightarrow> (string \<rightharpoonup> string)" where
  "write_panic_dump hash H can_write secs thread loc info files =
     write_dump can_write (next_dump_path hash H secs thread) (panic_dump secs loc info) files"

definition native_crash ::
  "(nat \<Rightarrow> nat \<Rightarrow> u32) \<Rightarrow> home_dirs \<Rightarrow> bool \<Rightarrow> nat \<Rightarrow> nat \<Rightarrow> (string \<rightharpoonup> string) \<Rightarrow> (string \<rightharpoonup> string)" where
  "native_crash hash H can_write secs thread files =
     write_dump can_write (next_dump_path hash H secs thread) (''amore native crash'' @ nl1) files"

text \<open>Which handlers are installed.  The panic hook runs the prior hook after its own work.\<close>

record handlers =
  panic_hooked :: bool
  native_attached :: bool

definition install_crash_handler :: "environ \<Rightarrow> bool \<Rightarrow> bool \<Rightarrow> handlers \<Rightarrow> handlers" where
  "install_crash_handler env mkdir_ok attach_ok h =
     (if env_var ''AMORE_NO_CRASH_DIAG'' env = Some ''1'' then h
      else if \<not> mkdir_ok then h
      else \<lparr>panic_hooked = True, native_attached = native_attached h \<or> attach_ok\<rparr>)"

definition on_panic ::
  "handlers \<Rightarrow> (nat \<Rightarrow> nat \<Rightarrow> u32) \<Rightarrow> home_dirs \<Rightarrow> bool \<Rightarrow> nat \<Rightarrow> nat \<Rightarrow> (string \<times> nat \<times> nat) option \<Rightarrow> string
    \<Rightarrow> (string \<rightharpoonup> string) \<Rightarrow> (string \<rightharpoonup> string)" where
  "on_panic h hash H can_write secs thread loc info files =
     (if panic_hooked h then write_panic_dump hash H can_write secs thread loc info files else files)"

section \<open>The bundle\<close>

text \<open>A directory entry: its path, the extension of its name, its modification time in seconds after the
  epoch when it has one, and its content when it can be opened.\<close>

record dump_entry =
  de_path :: string
  de_ext :: "string option"
  de_mtime :: "nat option"
  de_body :: "string option"

definition de_time :: "dump_entry \<Rightarrow> int" where
  "de_time e = (case de_mtime e of Some t \<Rightarrow> int t | None \<Rightarrow> 0)"

definition collect_recent_dumps :: "nat \<Rightarrow> dump_entry list option \<Rightarrow> dump_entry list" where
  "collect_recent_dumps max_dumps dir =
     (case dir of
        None \<Rightarrow> []
      | Some es \<Rightarrow> take max_dumps (sort_desc de_time (filter (\<lambda>e. de_ext e = Some ''dmp'') es)))"

text \<open>The name after the last separator; a name has an extension when it has a dot after its first
  character.\<close>

definition last_component :: "string \<Rightarrow> string" where
  "last_component p = last (split_on (\<lambda>c. c = CHR ''/'') p)"

definition bundle_path :: "string \<Rightarrow> string" where
  "bundle_path p =
     (let q = trim_end_matches CHR ''/'' p; n = last_component q in
      if n = [] \<or> n = ''..'' \<or> CHR ''.'' \<in> set (tl n) then p else q @ ''.tar.gz'')"

definition bundle_entries :: "dump_entry list \<Rightarrow> (string \<times> string) list" where
  "bundle_entries es = List.map_filter (\<lambda>e. map_option (Pair (last_component (de_path e))) (de_body e)) es"

text \<open>\<open>mkdir_ok\<close>, \<open>create_ok\<close> and \<open>finish_ok\<close>: whether the parent directory, the file and the gzip trailer can
  be written.\<close>

definition collect_diag_bundle ::
  "bool \<Rightarrow> bool \<Rightarrow> bool \<Rightarrow> dump_entry list option \<Rightarrow> string \<Rightarrow> nat \<Rightarrow> string + string \<times> (string \<times> string) list" where
  "collect_diag_bundle mkdir_ok create_ok finish_ok dir out_path max_dumps =
     (if \<not> mkdir_ok then Inl ''create output dir''
      else if \<not> create_ok then Inl ''create bundle archive''
      else if \<not> finish_ok then Inl ''finalise gzip stream''
      else Inr (bundle_path out_path, bundle_entries (collect_recent_dumps max_dumps dir)))"

section \<open>Properties\<close>

text \<open>The opt-out leaves the process as it was, and no panic writes anything.\<close>

lemma opt_out_writes_nothing:
  assumes "env_var ''AMORE_NO_CRASH_DIAG'' env = Some ''1''" and "\<not> panic_hooked h"
  shows "on_panic (install_crash_handler env m a h) hash H w secs thread loc info files = files"
  using assms by (simp add: on_panic_def install_crash_handler_def)

text \<open>A bundle holds the newest dumps.  It has at most as many entries as asked for, each the content of a
  readable \<open>.dmp\<close> file of the crash directory, and no dump that was left out is newer than one that was taken; with
  all dumps readable it has exactly as many as exist, up to the limit.\<close>

theorem bundle_holds_newest:
  assumes "collect_diag_bundle a b c dir out n = Inr (path, entries)"
    and taken: "taken = collect_recent_dumps n dir"
  shows "length entries \<le> n
    \<and> entries = bundle_entries taken
    \<and> (\<forall>e \<in> set taken. de_ext e = Some ''dmp'' \<and> (\<exists>es. dir = Some es \<and> e \<in> set es))
    \<and> (\<forall>es e f. dir = Some es \<longrightarrow> e \<in> set taken \<longrightarrow> f \<in> set es \<longrightarrow> de_ext f = Some ''dmp'' \<longrightarrow> f \<notin> set taken
         \<longrightarrow> de_time f \<le> de_time e)
    \<and> (\<forall>es. dir = Some es \<longrightarrow> (\<forall>e \<in> set es. de_body e \<noteq> None)
         \<longrightarrow> length entries = min n (length (filter (\<lambda>e. de_ext e = Some ''dmp'') es)))"
proof -
  have e: "entries = bundle_entries taken"
    using assms(1) by (auto simp: collect_diag_bundle_def taken split: if_splits)
  have l: "length taken \<le> n" by (auto simp: taken collect_recent_dumps_def split: option.splits)
  have m: "length (List.map_filter g xs) \<le> length xs" for g :: "dump_entry \<Rightarrow> (string \<times> string) option" and xs
    by (simp add: map_filter_def)
  have "length entries \<le> n" using l m [of _ taken] unfolding e bundle_entries_def by (rule order_trans [rotated])
  moreover have "\<forall>e \<in> set taken. de_ext e = Some ''dmp'' \<and> (\<exists>es. dir = Some es \<and> e \<in> set es)"
    by (auto simp: taken collect_recent_dumps_def split: option.splits dest!: in_set_takeD)
  moreover have "de_time f \<le> de_time e"
    if "dir = Some es" "e \<in> set taken" "f \<in> set es" "de_ext f = Some ''dmp''" "f \<notin> set taken" for es e f
    using that top_k_dominates [of e n de_time "filter (\<lambda>e. de_ext e = Some ''dmp'') es" f]
    by (simp add: taken collect_recent_dumps_def)
  moreover have "length entries = min n (length (filter (\<lambda>e. de_ext e = Some ''dmp'') es))"
    if "dir = Some es" "\<forall>e \<in> set es. de_body e \<noteq> None" for es
  proof -
    have "\<forall>e \<in> set taken. de_body e \<noteq> None"
      using that by (auto simp: taken collect_recent_dumps_def dest!: in_set_takeD)
    then have "length (bundle_entries taken) = length taken"
      by (simp add: bundle_entries_def map_filter_def)
    then show ?thesis by (simp add: e taken collect_recent_dumps_def that(1))
  qed
  ultimately show ?thesis using e by blast
qed

lemma bundle_holds_newest_witness:
  "\<exists>entries. collect_diag_bundle True True True
      (Some [\<lparr>de_path = ''c/1.dmp'', de_ext = Some ''dmp'', de_mtime = Some 1, de_body = Some ''x''\<rparr>]) ''b'' 20
      = Inr (''b.tar.gz'', entries) \<and> length entries \<le> 20"
proof -
  let ?es = "[\<lparr>de_path = ''c/1.dmp'', de_ext = Some ''dmp'', de_mtime = Some 1, de_body = Some ''x''\<rparr>]"
  obtain entries where r: "collect_diag_bundle True True True (Some ?es) ''b'' 20 = Inr (''b.tar.gz'', entries)"
    by (simp add: collect_diag_bundle_def bundle_path_def trim_end_matches_def last_component_def Let_def)
  then have "length entries \<le> 20" using bundle_holds_newest [OF r refl] by blast
  with r show ?thesis by blast
qed

end
