(* ===== verification/Cli.thy ===== *)
theory Cli
  imports Diag IdeAdapter Update Snapshot McpServer
begin

text \<open>
  The command line, \<open>crates/amore-cli/src/main.rs\<close>, with the secrets of \<open>secrets.rs\<close> and the flag
  listing of \<open>commands/flags.rs\<close>: the resolution of settings, each command over the components it calls, and
  the self-diagnosis with its exit code.  A command returns an error or the lines it prints.  Directories are
  not empty and have no separator at their end.
\<close>

section \<open>Settings\<close>

definition env_or_legacy :: "string \<Rightarrow> string \<Rightarrow> string \<Rightarrow> environ \<Rightarrow> string" where
  "env_or_legacy amore_key legacy_key dflt env =
     (case env_var amore_key env of
        Some v \<Rightarrow> v
      | None \<Rightarrow> (case env_var legacy_key env of Some v \<Rightarrow> v | None \<Rightarrow> dflt))"

definition cli_data_dir :: "string option \<Rightarrow> environ \<Rightarrow> home_dirs \<Rightarrow> string" where
  "cli_data_dir override_dir env H =
     (case override_dir of
        Some d \<Rightarrow> d
      | None \<Rightarrow>
          (case or_else (env_var ''AMORE_DATA_DIR'' env) (env_var ''OBELION_DATA_DIR'' env) of
             Some v \<Rightarrow> v
           | None \<Rightarrow> sub (or_dot (or_else (hd_config H) (or_else (hd_data H) (hd_home H)))) ''Amore''))"

definition doctor_dir :: "environ \<Rightarrow> home_dirs \<Rightarrow> string" where
  "doctor_dir env H =
     (case or_else (env_var ''AMORE_DATA_DIR'' env) (env_var ''OBELION_DATA_DIR'' env) of
        Some dir \<Rightarrow> dir
      | None \<Rightarrow> sub (or_dot (or_else (hd_config H) (or_else (hd_data H) (hd_home H)))) ''Amore'')"

definition resolve_doctor_sqlite_path :: "environ \<Rightarrow> home_dirs \<Rightarrow> string" where
  "resolve_doctor_sqlite_path env H = sub (doctor_dir env H) ''amore.db''"

definition cmd_status :: "string \<Rightarrow> environ \<Rightarrow> string list" where
  "cmd_status version env =
     [''amore v'' @ version,
      ''  qdrant     '' @ env_or_legacy ''AMORE_QDRANT_URL'' ''OBELION_QDRANT_URL'' ''http://127.0.0.1:6334 (default)'' env,
      ''  ollama     '' @ env_or_legacy ''AMORE_OLLAMA_URL'' ''OBELION_OLLAMA_URL'' ''http://127.0.0.1:11434 (default)'' env,
      ''  collection '' @ env_or_legacy ''AMORE_COLLECTION'' ''OBELION_COLLECTION'' ''amore (default)'' env]"

section \<open>The diagnosis\<close>

record doctor_check =
  ck_name :: string
  ck_verdict :: string
  ck_detail :: string

record doctor_report =
  dr_version :: string
  dr_checks :: "doctor_check list"
  all_pass :: bool

text \<open>The world of the diagnosis: whether the HTTP client can be built, what a request returns (a status and
  its text, or an error), what opening the store in the existing directories yields (the journal mode and the
  number of observations, each of which can fail), and whether the probe file can be written and removed.\<close>

record doctor_world =
  dw_client :: "string + unit"
  dw_get :: "string \<Rightarrow> string + nat \<times> string"
  dw_mkdir :: bool
  dw_open :: "string set \<Rightarrow> string \<Rightarrow> string + (string + string) \<times> (string + nat)"
  dw_write :: "string set \<Rightarrow> string \<Rightarrow> string + unit"
  dw_remove :: bool

record doctor_disk =
  dd_dirs :: "string set"
  dd_files :: "string set"

definition is_success :: "nat \<Rightarrow> bool" where
  "is_success code \<longleftrightarrow> 200 \<le> code \<and> code < 300"

definition probe_http :: "doctor_world \<Rightarrow> string \<Rightarrow> doctor_check" where
  "probe_http W url =
     (case dw_client W of
        Inl e \<Rightarrow> \<lparr>ck_name = ''http_client_init'', ck_verdict = ''FAIL'', ck_detail = ''reqwest builder: '' @ e\<rparr>
      | Inr _ \<Rightarrow>
          (case dw_get W url of
             Inr (code, status) \<Rightarrow>
               \<lparr>ck_name = ''http_probe'', ck_verdict = (if is_success code then ''PASS'' else ''FAIL''),
                ck_detail = ''GET '' @ url @ '' -> '' @ status\<rparr>
           | Inl e \<Rightarrow> \<lparr>ck_name = ''http_probe'', ck_verdict = ''FAIL'', ck_detail = ''GET '' @ url @ '': '' @ e\<rparr>))"

definition with_remedy :: "string \<Rightarrow> string \<Rightarrow> doctor_check \<Rightarrow> doctor_check" where
  "with_remedy name remedy c =
     (let c = c\<lparr>ck_name := name\<rparr> in
      if ck_verdict c = ''FAIL'' then c\<lparr>ck_detail := ck_detail c @ '' (remediation: '' @ remedy @ '')''\<rparr> else c)"

definition sqlite_check :: "doctor_world \<Rightarrow> string set \<Rightarrow> string \<Rightarrow> doctor_check" where
  "sqlite_check W dirs path =
     (case dw_open W dirs path of
        Inr (jm, n) \<Rightarrow>
          (let mode = (case jm of Inr m \<Rightarrow> m | Inl e \<Rightarrow> ''err: '' @ e);
               observations = (case n of Inr k \<Rightarrow> k | Inl _ \<Rightarrow> 0)
           in \<lparr>ck_name = ''sqlite_store'', ck_verdict = (if to_lowercase mode = ''wal'' then ''PASS'' else ''WARN''),
               ck_detail = ''path='' @ path @ '' journal_mode='' @ mode @ '' observations='' @ dec_nat observations\<rparr>)
      | Inl e \<Rightarrow> \<lparr>ck_name = ''sqlite_store'', ck_verdict = ''FAIL'', ck_detail = ''open '' @ path @ '': '' @ e\<rparr>)"

definition write_check :: "doctor_world \<Rightarrow> string set \<Rightarrow> string \<Rightarrow> doctor_check" where
  "write_check W dirs dir =
     (let probe = sub dir ''.amore-doctor-probe'' in
      case dw_write W dirs probe of
        Inr _ \<Rightarrow> \<lparr>ck_name = ''data_dir_writable'', ck_verdict = ''PASS'', ck_detail = dir @ '' writable''\<rparr>
      | Inl e \<Rightarrow> \<lparr>ck_name = ''data_dir_writable'', ck_verdict = ''FAIL'',
          ck_detail = ''write probe at '' @ probe @ '': '' @ e\<rparr>)"

text \<open>The report, the exit code, and the disk afterwards: the directory is created if that works, opening the
  store creates its file, and the probe file is removed again if that works.\<close>

definition cmd_doctor ::
  "string \<Rightarrow> doctor_world \<Rightarrow> environ \<Rightarrow> home_dirs \<Rightarrow> doctor_disk \<Rightarrow> doctor_report \<times> nat \<times> doctor_disk" where
  "cmd_doctor version W env H D =
     (let ollama_url = env_or_legacy ''AMORE_OLLAMA_URL'' ''OBELION_OLLAMA_URL'' ''http://127.0.0.1:11434'' env;
          qdrant_url = env_or_legacy ''AMORE_QDRANT_HTTP_URL'' ''OBELION_QDRANT_HTTP_URL'' ''http://127.0.0.1:6333'' env;
          c1 = with_remedy ''ollama_api_version'' ''`ollama serve` to start'' (probe_http W (ollama_url @ ''/api/version''));
          c2 = with_remedy ''qdrant_http_readyz''
                 ''`docker run -d -p 6333:6333 -p 6334:6334 qdrant/qdrant:v1.15.4`'' (probe_http W (qdrant_url @ ''/readyz''));
          dir = doctor_dir env H;
          path = resolve_doctor_sqlite_path env H;
          dirs = (if dw_mkdir W then insert dir (dd_dirs D) else dd_dirs D);
          c3 = sqlite_check W dirs path;
          files = (case dw_open W dirs path of Inr _ \<Rightarrow> insert path (dd_files D) | Inl _ \<Rightarrow> dd_files D);
          c4 = write_check W dirs dir;
          probe = sub dir ''.amore-doctor-probe'';
          files = (case dw_write W dirs probe of
                     Inr _ \<Rightarrow> if dw_remove W then files - {probe} else insert probe files
                   | Inl _ \<Rightarrow> files);
          checks = [c1, c2, c3, c4];
          ok = list_all (\<lambda>c. ck_verdict c = ''PASS'') checks
      in (\<lparr>dr_version = version, dr_checks = checks, all_pass = ok\<rparr>, if ok then 0 else 1,
          \<lparr>dd_dirs = dirs, dd_files = files\<rparr>))"

section \<open>Registering an IDE\<close>

definition dash :: string where "dash = [CHR 0xE2, CHR 0x80, CHR 0x94]"

fun outcome_line :: "string \<Rightarrow> string \<Rightarrow> apply_outcome \<Rightarrow> string" where
  "outcome_line name path NoChange = ''['' @ name @ ''] no change '' @ dash @ '' amore already registered in '' @ path"
| "outcome_line name path (Created p) = ''['' @ name @ ''] created '' @ p"
| "outcome_line name path (apply_outcome.Updated p b) = ''['' @ name @ ''] updated '' @ p @ '' (backup at '' @ b @ '')''"

definition cmd_init :: "ide_adapter list \<Rightarrow> string \<Rightarrow> bool \<Rightarrow> file_system \<Rightarrow> (string + string) \<times> file_system" where
  "cmd_init adapters ide dry fs =
     (case find (\<lambda>a. adapter_name a = ide) adapters of
        None \<Rightarrow> (Inl (''unknown IDE '' @ ide), fs)
      | Some a \<Rightarrow>
          if dry
          then (case dry_run a fs of
              Inl e \<Rightarrow> (Inl e, fs)
            | Inr merged \<Rightarrow>
                (case config_path a of
                   Inl e \<Rightarrow> (Inl e, fs)
                 | Inr path \<Rightarrow>
                     (Inr (''# dry-run: '' @ adapter_name a @ '' -> '' @ path @ [CHR 0x0A] @ merged
                        @ (if ends_with merged [CHR 0x0A] then [] else [CHR 0x0A])), fs)))
          else (case apply_adapter a fs of
              Inl e \<Rightarrow> (Inl e, fs)
            | Inr (NoChange, fs') \<Rightarrow>
                (case config_path a of
                   Inl e \<Rightarrow> (Inl e, fs')
                 | Inr path \<Rightarrow> (Inr (outcome_line (adapter_name a) path NoChange), fs'))
            | Inr (r, fs') \<Rightarrow> (Inr (outcome_line (adapter_name a) [] r), fs')))"

definition cmd_serve :: "string + string list" where
  "cmd_serve = Inl ''`amore serve` is reserved for v0.2.0''"

definition cmd_recall :: "string \<Rightarrow> nat \<Rightarrow> string + string list" where
  "cmd_recall query top_k = Inl ''`amore recall` is reserved for v0.2.0''"

section \<open>Secrets\<close>

text \<open>The keyring, whether an entry can be created for a name, whether the backend answers, and the fallback
  file: absent, unreadable (\<^const>\<open>None\<close> inside), or its text.\<close>

record secret_store =
  ss_ring :: "(string \<times> string) \<rightharpoonup> string"
  ss_entry_ok :: "string \<Rightarrow> bool"
  ss_backend :: bool
  ss_config_dir :: "string option"
  ss_file :: "string \<Rightarrow> string option option"

definition secret_service :: string where "secret_service = ''amore''"

definition set_password :: "string + string \<Rightarrow> string \<Rightarrow> secret_store \<Rightarrow> (string + unit) \<times> secret_store" where
  "set_password typed name S =
     (case typed of
        Inl e \<Rightarrow> (Inl e, S)
      | Inr secret \<Rightarrow>
          if \<not> ss_entry_ok S name then (Inl ''keyring entry create failed'', S)
          else if \<not> ss_backend S then (Inl ''keyring write failed'', S)
          else (Inr (), S\<lparr>ss_ring := (ss_ring S)((secret_service, name) \<mapsto> secret)\<rparr>))"

definition get_from_file :: "(string \<Rightarrow> toml option) \<Rightarrow> string \<Rightarrow> secret_store \<Rightarrow> string + string" where
  "get_from_file parse_toml name S =
     (case ss_config_dir S of
        None \<Rightarrow> Inl ''no config dir found''
      | Some dir \<Rightarrow>
          (case ss_file S (sub (sub dir ''amore'') ''secrets.toml'') of
             None \<Rightarrow> Inl ''not found in keyring or file''
           | Some None \<Rightarrow> Inl ''reading''
           | Some (Some body) \<Rightarrow>
               (case parse_toml body of
                  None \<Rightarrow> Inl ''parsing TOML''
                | Some (TTable m) \<Rightarrow>
                    (case map_of m name of Some (TStr s) \<Rightarrow> Inr s | _ \<Rightarrow> Inl ''key not found'')
                | Some _ \<Rightarrow> Inl ''key not found'')))"

definition get_password :: "(string \<Rightarrow> toml option) \<Rightarrow> string \<Rightarrow> secret_store \<Rightarrow> string + string" where
  "get_password parse_toml name S =
     (if \<not> ss_entry_ok S name then Inl ''keyring entry create failed''
      else case (ss_backend S, ss_ring S (secret_service, name)) of
          (True, Some p) \<Rightarrow> Inr p
        | _ \<Rightarrow> get_from_file parse_toml name S)"

datatype secrets_action = SecretSet string | SecretGet string

fun cmd_secrets ::
  "(string \<Rightarrow> toml option) \<Rightarrow> string + string \<Rightarrow> secrets_action \<Rightarrow> secret_store \<Rightarrow> (string + string list) \<times> secret_store" where
  "cmd_secrets parse_toml typed (SecretSet name) S =
     (case set_password typed name S of
        (Inl e, S') \<Rightarrow> (Inl e, S')
      | (Inr _, S') \<Rightarrow> (Inr [''Secret '' @ name @ '' stored in OS keyring.''], S'))"
| "cmd_secrets parse_toml typed (SecretGet name) S =
     (case get_password parse_toml name S of Inl e \<Rightarrow> (Inl e, S) | Inr v \<Rightarrow> (Inr [v], S))"

section \<open>Flags\<close>

definition flag_line :: "string \<times> bool \<Rightarrow> string" where
  "flag_line = (\<lambda>(k, v). ''  '' @ k @ '' = '' @ (if v then ''on'' else ''off''))"

definition flags_lines :: "(string \<times> bool) list \<Rightarrow> (string \<times> bool) list \<Rightarrow> string list" where
  "flags_lines compile_time runtime =
     [''# Compile-time features (Cargo features)''] @ map flag_line compile_time
     @ [[], ''# Runtime flags (AMORE_FLAG_* env / $AMORE_FLAGS_FILE)'']
     @ (if runtime = [] then [''  (none set)''] else []) @ map flag_line runtime"

text \<open>The maps go through a \<open>HashMap\<close>, where a later pair replaces an earlier one, into an object whose keys are
  sorted.\<close>

definition bool_object :: "(string \<times> bool) list \<Rightarrow> json" where
  "bool_object kvs =
     (let m = map_of (rev kvs) in JObj (map (\<lambda>k. (k, JBool (the (m k)))) (sort (remdups (map fst kvs)))))"

definition flags_json :: "(string \<times> bool) list \<Rightarrow> (string \<times> bool) list \<Rightarrow> json" where
  "flags_json compile_time runtime = JObj [(''compile_time'', bool_object compile_time), (''runtime'', bool_object runtime)]"

definition flags_run :: "(json \<Rightarrow> string) \<Rightarrow> bool \<Rightarrow> (string \<times> bool) list \<Rightarrow> (string \<times> bool) list \<Rightarrow> string list" where
  "flags_run print_json as_json compile_time runtime =
     (if as_json then [print_json (flags_json compile_time runtime)] else flags_lines compile_time runtime)"

section \<open>Updates, diagnostics, data and snapshots\<close>

fun update_line :: "string \<Rightarrow> update_status \<Rightarrow> string" where
  "update_line current Disabled = ''Auto-update disabled (AMORE_NO_AUTOUPDATE=1).''"
| "update_line current TooSoon = ''Last check was less than 24h ago. Run `amore update apply` to force.''"
| "update_line current UpToDate = ''amore v'' @ current @ '' is the latest release.''"
| "update_line current (Available v) = ''Update available: v'' @ v @ ''. Run `amore update apply` to install.''"

definition cmd_update_check ::
  "(string \<Rightarrow> string \<Rightarrow> string + string) \<Rightarrow> (string \<Rightarrow> string \<Rightarrow> bool option) \<Rightarrow> string \<Rightarrow> bool \<Rightarrow> environ \<Rightarrow> nat
    \<Rightarrow> string option \<Rightarrow> (string + string) \<times> string option" where
  "cmd_update_check fetch newer current writable env now stamp =
     (case check_for_update fetch newer current writable env now stamp of
        (Inl e, stamp') \<Rightarrow> (Inl e, stamp')
      | (Inr status, stamp') \<Rightarrow> (Inr (update_line current status), stamp'))"

definition cmd_diag ::
  "bool \<Rightarrow> bool \<Rightarrow> bool \<Rightarrow> dump_entry list option \<Rightarrow> string option \<Rightarrow> (string + string) \<times> (string \<times> string) list" where
  "cmd_diag mkdir_ok create_ok finish_ok dir output =
     (case collect_diag_bundle mkdir_ok create_ok finish_ok dir
         (case output of Some p \<Rightarrow> p | None \<Rightarrow> ''amore-diag.tar.gz'') 20 of
        Inl e \<Rightarrow> (Inl e, [])
      | Inr (p, es) \<Rightarrow> (Inr (''Diagnostic bundle written to: '' @ p), es))"

text \<open>The databases and their staging files by the path of the database; a snapshot works on the one of the resolved
  directory.\<close>

record 'q snap_world =
  sw_q :: 'q
  sw_dbs :: "string \<rightharpoonup> bytes"
  sw_staging :: "string \<rightharpoonup> bytes"
  sw_out :: directory
  sw_tmp :: "string \<rightharpoonup> directory"

datatype snap_action = SnapCreate string "string option" | SnapRestore string "string option"

definition at_db :: "('q site \<Rightarrow> (string + unit) \<times> 'q site) \<Rightarrow> string \<Rightarrow> 'q snap_world \<Rightarrow> (string + unit) \<times> 'q snap_world" where
  "at_db f dir W =
     (let db = sub dir ''amore.db'';
          (r, S) = f \<lparr>s_qdrant = sw_q W, s_db = sw_dbs W db, s_staging = sw_staging W db, s_out = sw_out W, s_tmp = sw_tmp W\<rparr>
      in (r, \<lparr>sw_q = s_qdrant S, sw_dbs = (sw_dbs W)(db := s_db S), sw_staging = (sw_staging W)(db := s_staging S),
              sw_out = s_out S, sw_tmp = s_tmp S\<rparr>))"

fun cmd_snapshot ::
  "snapshot_tools \<Rightarrow> 'q rest \<Rightarrow> environ \<Rightarrow> home_dirs \<Rightarrow> snap_action \<Rightarrow> 'q snap_world \<Rightarrow> (string + unit) \<times> 'q snap_world" where
  "cmd_snapshot T R env H (SnapCreate path dir) W = at_db (snapshot_create T R path) (cli_data_dir dir env H) W"
| "cmd_snapshot T R env H (SnapRestore path dir) W = at_db (snapshot_restore T R path) (cli_data_dir dir env H) W"

section \<open>Lemmas\<close>

lemma to_path_sub:
  assumes "d \<noteq> []" and x: "CHR ''/'' \<notin> set x" "x \<noteq> []" "x \<noteq> ''.''"
  shows "to_path (sub d x) = to_path d @ [x]"
proof -
  have "split_on (\<lambda>c. c = CHR ''/'') x = [x]" using x(1) by (intro split_on_none) auto
  then have "split_on (\<lambda>c. c = CHR ''/'') (sub d x) = split_on (\<lambda>c. c = CHR ''/'') d @ [x]"
    using split_on_append [of "\<lambda>c. c = CHR ''/''" "CHR ''/''" d x] by (simp add: sub_def)
  moreover have "hd (split_on (\<lambda>c. c = CHR ''/'') d @ [x]) = hd (split_on (\<lambda>c. c = CHR ''/'') d)" by simp
  moreover have "sub d x \<noteq> []" by (simp add: sub_def)
  ultimately show ?thesis using assms by (simp add: to_path_def Let_def)
qed

lemma sub_not_Nil [simp]: "sub d x \<noteq> []"
  by (simp add: sub_def)

lemma sub_inject [simp]: "sub d x = sub d y \<longleftrightarrow> x = y"
  by (simp add: sub_def)

lemma probe_passes: "ck_verdict (probe_http W url) = ''PASS'' \<longleftrightarrow>
    dw_client W = Inr () \<and> (\<exists>code status. dw_get W url = Inr (code, status) \<and> is_success code)"
  by (auto simp: probe_http_def split: sum.splits prod.splits)

lemma with_remedy_facts [simp]:
  "ck_verdict (with_remedy name remedy c) = ck_verdict c" "ck_name (with_remedy name remedy c) = name"
  by (simp_all add: with_remedy_def Let_def)

lemma sqlite_check_passes: "ck_verdict (sqlite_check W dirs path) = ''PASS'' \<longleftrightarrow>
    (\<exists>mode n. dw_open W dirs path = Inr (Inr mode, n) \<and> to_lowercase mode = ''wal'')"
proof -
  have "to_lowercase (''err: '' @ e) \<noteq> ''wal''" for e
    by (simp add: to_lowercase_def lower_char_def is_upper_def)
  then show ?thesis by (auto simp: sqlite_check_def Let_def split: sum.splits prod.splits)
qed

lemma write_check_passes: "ck_verdict (write_check W dirs dir) = ''PASS'' \<longleftrightarrow>
    dw_write W dirs (sub dir ''.amore-doctor-probe'') = Inr ()"
  by (auto simp: write_check_def Let_def split: sum.splits)

lemma check_names [simp]:
  "ck_name (sqlite_check W dirs path) = ''sqlite_store''" "ck_name (write_check W dirs dir) = ''data_dir_writable''"
  by (auto simp: sqlite_check_def write_check_def Let_def split: sum.splits prod.splits)

section \<open>Properties\<close>

text \<open>C35: what \<open>amore doctor\<close> exits with.  It makes the same four checks whatever fails, and exits with zero
  exactly when both services answer with a success status, the store opens in WAL mode and the data directory
  can be written; a store that opens in another mode is only a warning and still makes it fail.  The probe file it
  writes is gone afterwards when it can be removed.\<close>

theorem doctor_exit_code:
  assumes run: "cmd_doctor version W env H D = (R, code, D')"
  shows "map ck_name (dr_checks R) = [''ollama_api_version'', ''qdrant_http_readyz'', ''sqlite_store'', ''data_dir_writable'']
    \<and> code = (if all_pass R then 0 else 1)
    \<and> (code = 0 \<longleftrightarrow>
        dw_client W = Inr ()
        \<and> (\<forall>url \<in> {env_or_legacy ''AMORE_OLLAMA_URL'' ''OBELION_OLLAMA_URL'' ''http://127.0.0.1:11434'' env @ ''/api/version'',
               env_or_legacy ''AMORE_QDRANT_HTTP_URL'' ''OBELION_QDRANT_HTTP_URL'' ''http://127.0.0.1:6333'' env @ ''/readyz''}.
             \<exists>status text. dw_get W url = Inr (status, text) \<and> 200 \<le> status \<and> status < 300)
        \<and> (\<exists>mode n. dw_open W (dd_dirs D') (resolve_doctor_sqlite_path env H) = Inr (Inr mode, n) \<and> to_lowercase mode = ''wal'')
        \<and> dw_write W (dd_dirs D') (sub (doctor_dir env H) ''.amore-doctor-probe'') = Inr ())
    \<and> (dw_remove W \<and> sub (doctor_dir env H) ''.amore-doctor-probe'' \<notin> dd_files D
         \<longrightarrow> sub (doctor_dir env H) ''.amore-doctor-probe'' \<notin> dd_files D')"
proof -
  have d: "dd_dirs D' = (if dw_mkdir W then insert (doctor_dir env H) (dd_dirs D) else dd_dirs D)"
    using run by (auto simp: cmd_doctor_def Let_def)
  have "sub (doctor_dir env H) ''.amore-doctor-probe'' \<noteq> resolve_doctor_sqlite_path env H"
    by (simp add: resolve_doctor_sqlite_path_def)
  then have f: "dw_remove W \<and> sub (doctor_dir env H) ''.amore-doctor-probe'' \<notin> dd_files D
         \<longrightarrow> sub (doctor_dir env H) ''.amore-doctor-probe'' \<notin> dd_files D'"
    using run by (auto simp: cmd_doctor_def Let_def split: sum.splits)
  have n: "map ck_name (dr_checks R) = [''ollama_api_version'', ''qdrant_http_readyz'', ''sqlite_store'', ''data_dir_writable'']"
    and c: "code = (if all_pass R then 0 else 1)"
    using run by (auto simp: cmd_doctor_def Let_def)
  have "code = 0 \<longleftrightarrow> all_pass R" using c by simp
  also have "\<dots> \<longleftrightarrow>
        dw_client W = Inr ()
        \<and> (\<forall>url \<in> {env_or_legacy ''AMORE_OLLAMA_URL'' ''OBELION_OLLAMA_URL'' ''http://127.0.0.1:11434'' env @ ''/api/version'',
               env_or_legacy ''AMORE_QDRANT_HTTP_URL'' ''OBELION_QDRANT_HTTP_URL'' ''http://127.0.0.1:6333'' env @ ''/readyz''}.
             \<exists>status text. dw_get W url = Inr (status, text) \<and> 200 \<le> status \<and> status < 300)
        \<and> (\<exists>mode n. dw_open W (dd_dirs D') (resolve_doctor_sqlite_path env H) = Inr (Inr mode, n) \<and> to_lowercase mode = ''wal'')
        \<and> dw_write W (dd_dirs D') (sub (doctor_dir env H) ''.amore-doctor-probe'') = Inr ()"
  proof -
    have a: "all_pass R \<longleftrightarrow> list_all (\<lambda>v. v = ''PASS'') (map ck_verdict (dr_checks R))"
      using run by (auto simp: cmd_doctor_def Let_def)
    have v: "map ck_verdict (dr_checks R) =
       [ck_verdict (probe_http W (env_or_legacy ''AMORE_OLLAMA_URL'' ''OBELION_OLLAMA_URL'' ''http://127.0.0.1:11434'' env @ ''/api/version'')),
        ck_verdict (probe_http W (env_or_legacy ''AMORE_QDRANT_HTTP_URL'' ''OBELION_QDRANT_HTTP_URL'' ''http://127.0.0.1:6333'' env @ ''/readyz'')),
        ck_verdict (sqlite_check W (dd_dirs D') (resolve_doctor_sqlite_path env H)),
        ck_verdict (write_check W (dd_dirs D') (doctor_dir env H))]"
      unfolding d using run by (auto simp: cmd_doctor_def Let_def)
    show ?thesis
      unfolding a v list.pred_inject probe_passes sqlite_check_passes write_check_passes is_success_def
      using list.pred_inject(1) [of "\<lambda>v. v = ''PASS''"] by blast
  qed
  finally show ?thesis using n c f by blast
qed

definition healthy :: doctor_world where
  "healthy = \<lparr>dw_client = Inr (), dw_get = \<lambda>_. Inr (200, ''200 OK''), dw_mkdir = True,
     dw_open = \<lambda>_ _. Inr (Inr ''WAL'', Inr 0), dw_write = \<lambda>_ _. Inr (), dw_remove = True\<rparr>"

lemma doctor_exit_code_witness:
  "fst (snd (cmd_doctor ''1'' healthy [] \<lparr>hd_config = Some ''/c'', hd_data = None, hd_cache = None, hd_home = None, hd_local = None, on_windows = False\<rparr>
      \<lparr>dd_dirs = {}, dd_files = {}\<rparr>)) = 0"
proof -
  obtain R code D' where run: "cmd_doctor ''1'' healthy [] \<lparr>hd_config = Some ''/c'', hd_data = None, hd_cache = None, hd_home = None, hd_local = None, on_windows = False\<rparr>
      \<lparr>dd_dirs = {}, dd_files = {}\<rparr> = (R, code, D')"
    by (metis prod_cases3)
  have "to_lowercase ''WAL'' = ''wal''" by code_simp
  then have "code = 0" using doctor_exit_code [OF run] by (simp add: healthy_def)
  with run show ?thesis by simp
qed

lemma get_from_file_ring [simp]: "get_from_file parse_toml n (S\<lparr>ss_ring := r\<rparr>) = get_from_file parse_toml n S"
  by (simp add: get_from_file_def cong: option.case_cong)

text \<open>A secret stored is the secret read.  After a \<open>set\<close> that succeeded, \<open>get\<close> returns the typed secret whatever
  the fallback file holds, and every other name reads as before; a \<open>set\<close> that failed changes nothing.\<close>

theorem secret_roundtrip:
  "case set_password typed name S of
     (Inr _, S') \<Rightarrow> (\<exists>secret. typed = Inr secret \<and> get_password parse_toml name S' = Inr secret)
       \<and> (\<forall>n. get_password parse_toml n S' = (if n = name then get_password parse_toml name S' else get_password parse_toml n S))
   | (Inl _, S') \<Rightarrow> S' = S"
  by (auto simp: set_password_def get_password_def split: sum.splits option.splits)

text \<open>The directories as the server sees them.\<close>

definition platform_of :: "home_dirs \<Rightarrow> string option \<Rightarrow> platform_dirs" where
  "platform_of H cwd = \<lparr>pd_config = map_option to_path (hd_config H), pd_data = map_option to_path (hd_data H),
     pd_home = map_option to_path (hd_home H), pd_cwd = map_option to_path cwd\<rparr>"

text \<open>C36: every tool works on the same store.  Where the server resolves a path for its database, the diagnosis
  opens that path, snapshots without an explicit directory save and restore it, and the erasure deletes it.  (With no
  directory at all the server refuses to start, while the tools fall back to the current directory.)\<close>

theorem tools_agree_on_store:
  assumes server: "resolve_sqlite_path env (platform_of H cwd) = Inr p"
    and env: "env_with_legacy ''AMORE_DATA_DIR'' ''OBELION_DATA_DIR'' env \<noteq> Some []"
    and dirs: "hd_config H \<noteq> Some []" "hd_data H \<noteq> Some []" "hd_home H \<noteq> Some []"
  shows "to_path (resolve_doctor_sqlite_path env H) = p
    \<and> to_path (sub (cli_data_dir None env H) ''amore.db'') = p
    \<and> (\<exists>f. TargetFile f \<in> set (build_targets env H) \<and> to_path f = p)"
proof -
  have e: "env_with_legacy ''AMORE_DATA_DIR'' ''OBELION_DATA_DIR'' env
      = or_else (env_var ''AMORE_DATA_DIR'' env) (env_var ''OBELION_DATA_DIR'' env)"
    by (simp add: env_with_legacy_def or_else_def)
  have same: "cli_data_dir None env H = doctor_dir env H" "resolve_data_dir env H = doctor_dir env H"
    by (simp_all add: cli_data_dir_def doctor_dir_def resolve_data_dir_def)
  have "to_path (sub (doctor_dir env H) ''amore.db'') = p"
  proof (cases "or_else (env_var ''AMORE_DATA_DIR'' env) (env_var ''OBELION_DATA_DIR'' env)")
    case (Some d)
    then have "d \<noteq> []" using env e by auto
    then have "to_path (sub d ''amore.db'') = to_path d @ [''amore.db'']" by (intro to_path_sub) simp_all
    then show ?thesis using server Some by (simp add: resolve_sqlite_path_def e doctor_dir_def)
  next
    case None
    then obtain b where b: "or_else (hd_config H) (or_else (hd_data H) (hd_home H)) = Some b" "p = to_path b @ [''Amore'', ''amore.db'']"
      using server by (auto simp: resolve_sqlite_path_def e first_dir_def platform_of_def or_else_def split: option.splits)
    then have "b \<noteq> []" using dirs by (auto simp: or_else_def split: option.splits)
    then have "to_path (sub b ''Amore'') = to_path b @ [''Amore'']" by (intro to_path_sub) simp_all
    moreover have "to_path (sub (sub b ''Amore'') ''amore.db'') = to_path (sub b ''Amore'') @ [''amore.db'']"
      by (intro to_path_sub) simp_all
    ultimately show ?thesis using b None by (simp add: doctor_dir_def or_dot_def)
  qed
  then show ?thesis
    unfolding resolve_doctor_sqlite_path_def same by (auto simp: build_targets_def Let_def same)
qed

lemma tools_agree_on_store_witness:
  "to_path (resolve_doctor_sqlite_path [(''AMORE_DATA_DIR'', ''/d'')]
      \<lparr>hd_config = None, hd_data = None, hd_cache = None, hd_home = None, hd_local = None, on_windows = False\<rparr>) = to_path ''/d'' @ [''amore.db'']"
proof -
  let ?env = "[(''AMORE_DATA_DIR'', ''/d'')]" and ?H = "\<lparr>hd_config = None, hd_data = None, hd_cache = None, hd_home = None, hd_local = None, on_windows = False\<rparr>"
  have "resolve_sqlite_path ?env (platform_of ?H None) = Inr (to_path ''/d'' @ [''amore.db''])"
    by (simp add: resolve_sqlite_path_def env_with_legacy_def env_var_def)
  from tools_agree_on_store [OF this] show ?thesis by (simp add: env_with_legacy_def env_var_def)
qed

end
