(* ===== verification/GuiWire.thy ===== *)
theory GuiWire
  imports IdeAdapter Diag
begin

text \<open>
  The detection and wiring of IDEs by the desktop program, \<open>crates/amore-gui/src/ide_detect.rs\<close>,
  \<open>ide_wire.rs\<close> and the headless run of its \<open>main.rs\<close>, on every platform; paths are written with \<open>/\<close>.  A disk is the contents of its files and
  the files only their owner may read; every file operation of a write can fail, a copy or a write after some
  of its bytes.  The JSON and YAML libraries are the codecs of the adapters.  An error message names the operation
  that failed; what the system or a library adds to it is left out where it is not an input.
\<close>

section \<open>Detection\<close>

datatype platform = WindowsOs | MacOs | LinuxOs

datatype config_format = JsonFormat | YamlFormat

record detected_ide =
  di_name :: string
  di_path :: string
  di_format :: config_format

definition detect_at :: "(string \<Rightarrow> bool) \<Rightarrow> string \<Rightarrow> config_format \<Rightarrow> string option \<Rightarrow> string list \<Rightarrow> detected_ide option" where
  "detect_at exists name fmt base tail =
     (case base of
        None \<Rightarrow> None
      | Some b \<Rightarrow>
          (let path = path_join b tail
           in if exists path then Some \<lparr>di_name = name, di_path = path, di_format = fmt\<rparr> else None))"

definition detect_claude_desktop :: "platform \<Rightarrow> (string \<Rightarrow> bool) \<Rightarrow> string option \<Rightarrow> string option \<Rightarrow> detected_ide option" where
  "detect_claude_desktop os exists home roaming =
     (case os of
        WindowsOs \<Rightarrow> detect_at exists ''Claude Desktop'' JsonFormat roaming [''Claude'', ''claude_desktop_config.json'']
      | MacOs \<Rightarrow> detect_at exists ''Claude Desktop'' JsonFormat home
          [''Library'', ''Application Support'', ''Claude'', ''claude_desktop_config.json'']
      | LinuxOs \<Rightarrow> detect_at exists ''Claude Desktop'' JsonFormat home
          [''.config'', ''Claude'', ''claude_desktop_config.json''])"

definition detect_claude_code :: "(string \<Rightarrow> bool) \<Rightarrow> string option \<Rightarrow> detected_ide option" where
  "detect_claude_code exists home = detect_at exists ''Claude Code'' JsonFormat home [''.claude'', ''settings.json'']"

definition detect_cursor :: "(string \<Rightarrow> bool) \<Rightarrow> string option \<Rightarrow> detected_ide option" where
  "detect_cursor exists home = detect_at exists ''Cursor'' JsonFormat home [''.cursor'', ''mcp.json'']"

definition detect_cline :: "platform \<Rightarrow> (string \<Rightarrow> bool) \<Rightarrow> string option \<Rightarrow> string option \<Rightarrow> detected_ide option" where
  "detect_cline os exists home roaming =
     (let tail = [''Code'', ''User'', ''globalStorage'', ''saoudrizwan.claude-dev'', ''settings'', ''cline_mcp_settings.json'']
      in case os of
           WindowsOs \<Rightarrow> detect_at exists ''Cline'' JsonFormat roaming tail
         | MacOs \<Rightarrow> detect_at exists ''Cline'' JsonFormat home ([''Library'', ''Application Support''] @ tail)
         | LinuxOs \<Rightarrow> detect_at exists ''Cline'' JsonFormat home ([''.config''] @ tail))"

definition detect_continue_ide :: "(string \<Rightarrow> bool) \<Rightarrow> string option \<Rightarrow> detected_ide option" where
  "detect_continue_ide exists home = detect_at exists ''Continue'' YamlFormat home [''.continue'', ''config.yaml'']"

definition detect_with_roots :: "platform \<Rightarrow> (string \<Rightarrow> bool) \<Rightarrow> string option \<Rightarrow> string option \<Rightarrow> detected_ide list" where
  "detect_with_roots os exists home roaming =
     List.map_filter id
       [detect_claude_desktop os exists home roaming, detect_claude_code exists home, detect_cursor exists home,
        detect_cline os exists home roaming, detect_continue_ide exists home]"

section \<open>The binary to register\<close>

datatype wire_error =
    SiblingBinaryNotFound string
  | InsecureInstallLocation string
  | BackupAclFailed string "int option"
  | TargetLocked string
  | WireOther string

datatype wire_verdict = WireOk | SkippedNoChange | WireErr wire_error

text \<open>The rendering of an exit code is that of Rust's \<open>Debug\<close>.\<close>

definition debug_code :: "int option \<Rightarrow> string" where
  "debug_code c =
     (case c of
        None \<Rightarrow> ''None''
      | Some i \<Rightarrow> ''Some('' @ (if i < 0 then ''-'' @ dec_nat (nat (- i)) else dec_nat (nat i)) @ '')'')"

fun wire_error_message :: "wire_error \<Rightarrow> string" where
  "wire_error_message (SiblingBinaryNotFound s) = ''sibling amore-mcp not found: '' @ s"
| "wire_error_message (InsecureInstallLocation dir) =
     ''insecure install location '' @ [CHR 0xE2, CHR 0x80, CHR 0x94] @ '' sibling dir is user-writable: '' @ dir
     @ ''; set AMORE_ALLOW_USER_INSTALL=1 to override''"
| "wire_error_message (BackupAclFailed p code) = ''icacls failed (exit '' @ debug_code code @ '') on backup '' @ p @ ''; wire aborted''"
| "wire_error_message (TargetLocked s) = ''target locked: '' @ s"
| "wire_error_message (WireOther s) = s"

text \<open>\<open>canonical\<close> is what \<open>fs::canonicalize\<close> answers; only Windows asks for it here.\<close>

definition is_system_protected_dir :: "platform \<Rightarrow> (string \<Rightarrow> string option) \<Rightarrow> string \<Rightarrow> bool" where
  "is_system_protected_dir os canonical dir \<longleftrightarrow>
     (case os of
        WindowsOs \<Rightarrow>
          (let s = (case canonical dir of Some c \<Rightarrow> c | None \<Rightarrow> dir);
               stripped = (case strip_prefix ''//?/'' s of Some r \<Rightarrow> r | None \<Rightarrow> s)
           in starts_with stripped ''C:/Program Files/'' \<or> starts_with stripped ''C:/Program Files (x86)/'')
      | MacOs \<Rightarrow>
          starts_with dir ''/Applications'' \<or> starts_with dir ''/usr/local'' \<or> starts_with dir ''/opt/homebrew''
      | LinuxOs \<Rightarrow>
          starts_with dir ''/usr/bin'' \<or> starts_with dir ''/usr/local/bin'' \<or> starts_with dir ''/opt'')"

definition acl_has_broad_ace :: "string \<Rightarrow> bool" where
  "acl_has_broad_ace out \<longleftrightarrow> contains_str out ''S-1-1-0'' \<or> contains_str out ''S-1-5-32-545''"

text \<open>The platform, the path of the running program or the error of asking for it, its canonical form when there is
  one, and the files that exist.\<close>

record installation =
  in_os :: platform
  in_exe :: "string + string"
  in_canonical :: "string \<Rightarrow> string option"
  in_exists :: "string \<Rightarrow> bool"
  in_env :: environ

definition parent_dir :: "string \<Rightarrow> string option" where
  "parent_dir p =
     (if last_component p = [] then None
      else let d = take (length p - length (last_component p)) p
           in Some (if d = [] \<or> d = ''/'' then d else butlast d))"

definition exe_suffix :: "platform \<Rightarrow> string" where
  "exe_suffix os = (case os of WindowsOs \<Rightarrow> ''.exe'' | MacOs \<Rightarrow> [] | LinuxOs \<Rightarrow> [])"

definition allow_user_install :: "environ \<Rightarrow> bool" where
  "allow_user_install env \<longleftrightarrow> env_var ''AMORE_ALLOW_USER_INSTALL'' env = Some ''1''"

definition resolve_amore_mcp_path :: "installation \<Rightarrow> wire_error + string" where
  "resolve_amore_mcp_path I =
     (case in_exe I of
        Inl e \<Rightarrow> Inl (SiblingBinaryNotFound (''current_exe failed: '' @ e))
      | Inr exe0 \<Rightarrow>
          (let exe = (case in_canonical I exe0 of Some c \<Rightarrow> c | None \<Rightarrow> exe0) in
           case parent_dir exe of
             None \<Rightarrow> Inl (SiblingBinaryNotFound ''exe has no parent'')
           | Some dir \<Rightarrow>
               if \<not> allow_user_install (in_env I) \<and> \<not> is_system_protected_dir (in_os I) (in_canonical I) dir
               then Inl (InsecureInstallLocation dir)
               else let p = (if dir = [] \<or> dir = ''/'' then dir else dir @ ''/'') @ ''amore-mcp'' @ exe_suffix (in_os I)
                    in if \<not> in_exists I p then Inl (SiblingBinaryNotFound (''expected at '' @ p)) else Inr p))"

definition amore_mcp_entry_object :: "installation \<Rightarrow> wire_error + json" where
  "amore_mcp_entry_object I =
     (case resolve_amore_mcp_path I of
        Inl e \<Rightarrow> Inl e
      | Inr s \<Rightarrow> Inr (JObj [(''args'', JArr [JStr ''--stdio'']), (''command'', JStr s), (''env'', JObj [])]))"

section \<open>The atomic write\<close>

record disk =
  wd_files :: file_system
  wd_private :: "string set"

definition d_rename :: "string \<Rightarrow> string \<Rightarrow> disk \<Rightarrow> disk" where
  "d_rename a b D =
     (case wd_files D a of
        None \<Rightarrow> D
      | Some t \<Rightarrow> \<lparr>wd_files = (wd_files D)(a := None, b := Some t),
                  wd_private = wd_private D - {a, b} \<union> (if a \<in> wd_private D then {b} else {})\<rparr>)"

text \<open>A copy takes the permissions along; of one that fails, \<open>n\<close> bytes arrive, or nothing.\<close>

definition d_copy :: "string \<Rightarrow> string \<Rightarrow> disk \<Rightarrow> disk" where
  "d_copy a b D =
     (case wd_files D a of
        None \<Rightarrow> D
      | Some t \<Rightarrow> \<lparr>wd_files = (wd_files D)(b := Some t),
                  wd_private = wd_private D - {b} \<union> (if a \<in> wd_private D then {b} else {})\<rparr>)"

definition d_write :: "string \<Rightarrow> string \<Rightarrow> disk \<Rightarrow> disk" where
  "d_write p t D =
     \<lparr>wd_files = (wd_files D)(p := Some (Some t)),
      wd_private = (if wd_files D p = None then wd_private D - {p} else wd_private D)\<rparr>"

definition d_cut_copy :: "nat option \<Rightarrow> string \<Rightarrow> string \<Rightarrow> disk \<Rightarrow> disk" where
  "d_cut_copy n a b D =
     (case (n, wd_files D a) of (Some j, Some (Some t)) \<Rightarrow> d_write b (take j t) D | _ \<Rightarrow> D)"

definition d_remove :: "string \<Rightarrow> disk \<Rightarrow> disk" where
  "d_remove p D = \<lparr>wd_files = (wd_files D)(p := None), wd_private = wd_private D - {p}\<rparr>"

definition d_chmod :: "bool \<Rightarrow> string \<Rightarrow> disk \<Rightarrow> disk" where
  "d_chmod ok p D = (if ok \<and> wd_files D p \<noteq> None then D\<lparr>wd_private := insert p (wd_private D)\<rparr> else D)"

definition name_dir :: "string \<Rightarrow> string" where
  "name_dir p = take (length p - length (last_component p)) p"

definition wire_tmp_path :: "string \<Rightarrow> string" where
  "wire_tmp_path p = name_dir p @ ''.'' @ last_component p @ ''.amore-tmp''"

definition wire_bak_path :: "string \<Rightarrow> string" where
  "wire_bak_path p = name_dir p @ last_component p @ ''.bak''"

definition wire_bak_old_path :: "string \<Rightarrow> string" where
  "wire_bak_old_path p = name_dir p @ last_component p @ ''.bak.old''"

text \<open>How the backup is made private: \<open>chmod\<close>, whose failure is only logged, or on Windows two runs of
  \<open>icacls\<close>, the first to grant (its exit code, when it could be spawned), the second to list what holds now.
  Only a file whose listing shows no broad access counts as private there.\<close>

datatype private_call =
    Chmod bool
  | Icacls "string + int option" "string + string"

definition set_private_permissions :: "private_call \<Rightarrow> string \<Rightarrow> disk \<Rightarrow> (wire_error + unit) \<times> disk" where
  "set_private_permissions call p D =
     (case call of
        Chmod ok \<Rightarrow> (Inr (), d_chmod ok p D)
      | Icacls (Inl _) _ \<Rightarrow> (Inl (BackupAclFailed p None), D)
      | Icacls (Inr code) listing \<Rightarrow>
          (if code \<noteq> Some 0 then (Inl (BackupAclFailed p code), D)
           else case listing of
               Inl _ \<Rightarrow> (Inl (BackupAclFailed p None), D)
             | Inr out \<Rightarrow>
                 (if acl_has_broad_ace out then (Inl (BackupAclFailed p (Some 0)), D) else (Inr (), d_chmod True p D))))"

text \<open>What goes wrong, operation by operation: an error, with the bytes that still arrived for a copy or a
  write; for the rename, the outcome of each attempt and whether its error is transient.\<close>

record wire_faults =
  f_rotate :: "string option"
  f_rollback_ok :: bool
  f_copy :: "(string \<times> nat option) option"
  f_private :: private_call
  f_rm_old_ok :: bool
  f_rm_tmp_ok :: bool
  f_write :: "(string \<times> nat option) option"
  f_sync :: "string option"
  f_rename :: "nat \<Rightarrow> (string \<times> bool) option"
  f_restore :: "(string \<times> nat option) option"
  f_reread :: "string option"

fun retry_loop :: "(nat \<Rightarrow> (string \<times> bool) option) \<Rightarrow> nat \<Rightarrow> nat \<Rightarrow> string + unit" where
  "retry_loop f 0 attempt = Inl ''no attempt left''"
| "retry_loop f (Suc n) attempt =
     (case f attempt of
        None \<Rightarrow> Inr ()
      | Some (e, transient) \<Rightarrow> if transient \<and> attempt < 2 then retry_loop f n (attempt + 1) else Inl e)"

definition retry_rename :: "(nat \<Rightarrow> (string \<times> bool) option) \<Rightarrow> string + unit" where
  "retry_rename f = retry_loop f 3 0"

definition extension_of :: "string \<Rightarrow> string" where
  "extension_of p =
     (let n = last_component p; m = takeWhile (\<lambda>c. c \<noteq> CHR ''.'') (rev n)
      in if length m + 1 < length n then rev m else [])"

definition verify_parseable :: "json codec \<Rightarrow> yaml codec \<Rightarrow> string option \<Rightarrow> string \<Rightarrow> disk \<Rightarrow> string + unit" where
  "verify_parseable jc yc reread p D =
     (case (reread, wd_files D p) of
        (None, Some (Some raw)) \<Rightarrow>
          (let ext = extension_of p in
           if ext = ''json'' then (if parse jc raw = None then Inl ''parse'' else Inr ())
           else if ext = ''yaml'' \<or> ext = ''yml'' then (if parse yc raw = None then Inl ''parse'' else Inr ())
           else Inr ())
      | _ \<Rightarrow> Inl ''read'')"

definition on_disk :: "disk \<Rightarrow> string \<Rightarrow> bool" where
  "on_disk D p \<longleftrightarrow> wd_files D p \<noteq> None"

text \<open>The backup before the write: \<open>Inl\<close> an error, with the disk either way.\<close>

definition rotate_backup :: "wire_faults \<Rightarrow> string \<Rightarrow> disk \<Rightarrow> (string + unit) \<times> disk" where
  "rotate_backup F target D =
     (let bak = wire_bak_path target; old = wire_bak_old_path target in
      if \<not> on_disk D bak then (Inr (), D)
      else case f_rotate F of
          Some e \<Rightarrow> (Inl (''.bak rotate failed: '' @ e), D)
        | None \<Rightarrow> (Inr (), d_rename bak old D))"

definition make_backup :: "wire_faults \<Rightarrow> string \<Rightarrow> disk \<Rightarrow> (wire_error + unit) \<times> disk" where
  "make_backup F target D =
     (let bak = wire_bak_path target; old = wire_bak_old_path target;
          roll_back = (\<lambda>D1. if on_disk D1 old \<and> f_rollback_ok F then d_rename old bak D1 else D1);
          failed = (case f_copy F of Some (e, n) \<Rightarrow> Some (e, d_cut_copy n target bak D)
                    | None \<Rightarrow> if on_disk D target then None else Some (''no such file'', D))
      in case failed of
           Some (e, D1) \<Rightarrow> (Inl (WireOther (''backup copy failed: '' @ e)), roll_back D1)
         | None \<Rightarrow>
             (case set_private_permissions (f_private F) bak (d_copy target bak D) of
                (Inl e, D1) \<Rightarrow> (Inl e, roll_back D1)
              | (Inr _, D1) \<Rightarrow> (Inr (), if on_disk D1 old \<and> f_rm_old_ok F then d_remove old D1 else D1)))"

definition replace_target ::
  "wire_faults \<Rightarrow> json codec \<Rightarrow> yaml codec \<Rightarrow> string \<Rightarrow> string \<Rightarrow> disk \<Rightarrow> wire_verdict \<times> disk" where
  "replace_target F jc yc target text D =
     (let tmp = wire_tmp_path target; bak = wire_bak_path target in
      case f_write F of
        Some (e, n) \<Rightarrow>
          (WireErr (WireOther (''tmp write failed: '' @ e)),
           case n of None \<Rightarrow> D | Some j \<Rightarrow> d_write tmp (take j text) D)
      | None \<Rightarrow>
          (let D1 = d_write tmp text D;
               D1r = (if f_rm_tmp_ok F then d_remove tmp D1 else D1)
           in case f_sync F of
                Some e \<Rightarrow> (WireErr (WireOther (''sync_data failed: '' @ e)), D1r)
              | None \<Rightarrow>
                  (case retry_rename (f_rename F) of
                     Inl e \<Rightarrow>
                       (WireErr (TargetLocked (''rename failed after 3 retries: '' @ e)),
                        case f_restore F of None \<Rightarrow> d_copy bak target D1r | Some (e', n) \<Rightarrow> d_cut_copy n bak target D1r)
                   | Inr _ \<Rightarrow>
                       (let D2 = d_rename tmp target D1 in
                        case verify_parseable jc yc (f_reread F) target D2 of
                          Inr _ \<Rightarrow> (WireOk, D2)
                        | Inl e \<Rightarrow> (WireErr (WireOther (''verify failed: '' @ e)), D2)))))"

definition write_atomic ::
  "wire_faults \<Rightarrow> json codec \<Rightarrow> yaml codec \<Rightarrow> string \<Rightarrow> string \<Rightarrow> disk \<Rightarrow> wire_verdict \<times> disk" where
  "write_atomic F jc yc target text D =
     (case rotate_backup F target D of
        (Inl e, D1) \<Rightarrow> (WireErr (WireOther e), D1)
      | (Inr _, D1) \<Rightarrow>
          (case make_backup F target D1 of
             (Inl e, D2) \<Rightarrow> (WireErr e, D2)
           | (Inr _, D2) \<Rightarrow> replace_target F jc yc target text D2))"

section \<open>Wiring\<close>

text \<open>The world: the installation, the codecs, and the faults met at each path.\<close>

record wire_world =
  ww_install :: installation
  ww_json :: "json codec"
  ww_yaml :: "yaml codec"
  ww_faults :: "string \<Rightarrow> wire_faults"

text \<open>\<open>Inr None\<close>: the entry is already there; \<open>Inr (Some v)\<close>: the new root.\<close>

definition wire_json_root :: "(wire_error + json) \<Rightarrow> json \<Rightarrow> wire_error + json option" where
  "wire_json_root entry cfg =
     (case cfg of
        JObj obj \<Rightarrow>
          (let obj = obj_or_insert ''mcpServers'' (JObj []) obj in
           case map_of obj ''mcpServers'' of
             Some (JObj servers) \<Rightarrow>
               (case entry of
                  Inl e \<Rightarrow> Inl e
                | Inr e \<Rightarrow>
                    if map_of servers ''amore'' = Some e then Inr None
                    else Inr (Some (JObj (obj_insert ''mcpServers'' (JObj (obj_insert ''amore'' e servers)) obj))))
           | _ \<Rightarrow> Inl (WireOther ''mcpServers not an object''))
      | _ \<Rightarrow> Inl (WireOther ''mcpServers not an object''))"

definition wire_json :: "wire_world \<Rightarrow> string \<Rightarrow> disk \<Rightarrow> wire_verdict \<times> disk" where
  "wire_json W path D =
     (case wd_files D path of
        Some (Some raw) \<Rightarrow>
          (case parse (ww_json W) raw of
             None \<Rightarrow> (WireErr (WireOther ''json parse''), D)
           | Some cfg \<Rightarrow>
               (case wire_json_root (amore_mcp_entry_object (ww_install W)) cfg of
                  Inl e \<Rightarrow> (WireErr e, D)
                | Inr None \<Rightarrow> (SkippedNoChange, D)
                | Inr (Some v) \<Rightarrow>
                    (case pretty (ww_json W) v of
                       None \<Rightarrow> (WireErr (WireOther ''json serial''), D)
                     | Some t \<Rightarrow> write_atomic (ww_faults W path) (ww_json W) (ww_yaml W) path t D)))
      | _ \<Rightarrow> (WireErr (WireOther ''read''), D))"

text \<open>A sequence looks through tags too.  Two mappings are equal when they hold the same pairs.\<close>

fun as_sequence :: "yaml \<Rightarrow> yaml list option" where
  "as_sequence (YSeq xs) = Some xs"
| "as_sequence (YTagged t v) = as_sequence v"
| "as_sequence _ = None"

fun put_sequence :: "yaml list \<Rightarrow> yaml \<Rightarrow> yaml" where
  "put_sequence xs (YTagged t v) = YTagged t (put_sequence xs v)"
| "put_sequence xs _ = YSeq xs"

definition yaml_entry :: "string \<Rightarrow> yaml" where
  "yaml_entry cmd = YMap [(YStr ''args'', YSeq [YStr ''--stdio'']), (YStr ''command'', YStr cmd), (YStr ''env'', YMap []),
     (YStr ''name'', YStr ''amore'')]"

definition is_yaml_entry :: "string \<Rightarrow> yaml \<Rightarrow> bool" where
  "is_yaml_entry cmd v =
     (case v of
        YMap m \<Rightarrow> length m = 4 \<and> map_of m (YStr ''args'') = Some (YSeq [YStr ''--stdio''])
          \<and> map_of m (YStr ''command'') = Some (YStr cmd) \<and> map_of m (YStr ''env'') = Some (YMap [])
          \<and> map_of m (YStr ''name'') = Some (YStr ''amore'')
      | _ \<Rightarrow> False)"

definition named_amore :: "yaml \<Rightarrow> bool" where
  "named_amore v \<longleftrightarrow> Option.bind (as_mapping v) (\<lambda>m. map_of m (YStr ''name'')) = Some (YStr ''amore'')"

fun find_index :: "('a \<Rightarrow> bool) \<Rightarrow> 'a list \<Rightarrow> nat option" where
  "find_index p [] = None"
| "find_index p (x # xs) = (if p x then Some 0 else map_option Suc (find_index p xs))"

definition wire_yaml_root :: "(wire_error + string) \<Rightarrow> yaml \<Rightarrow> wire_error + yaml option" where
  "wire_yaml_root mcp cfg =
     (case as_mapping cfg of
        None \<Rightarrow> Inl (WireOther ''mcpServers not a sequence'')
      | Some m0 \<Rightarrow>
          (let key = YStr ''mcpServers'';
               m = (if map_of m0 key = None then ymap_insert key (YSeq []) m0 else m0);
               field = the (map_of m key)
           in case as_sequence field of
                None \<Rightarrow> Inl (WireOther ''mcpServers not a sequence'')
              | Some servers \<Rightarrow>
                  (case mcp of
                     Inl e \<Rightarrow> Inl e
                   | Inr cmd \<Rightarrow>
                       (let put = (\<lambda>xs. Inr (Some (put_mapping (ymap_insert key (put_sequence xs field) m) cfg)))
                        in case find_index named_amore servers of
                             Some i \<Rightarrow> if is_yaml_entry cmd (servers ! i) then Inr None else put (servers[i := yaml_entry cmd])
                           | None \<Rightarrow> put (servers @ [yaml_entry cmd])))))"

definition wire_yaml :: "wire_world \<Rightarrow> string \<Rightarrow> disk \<Rightarrow> wire_verdict \<times> disk" where
  "wire_yaml W path D =
     (case wd_files D path of
        Some (Some raw) \<Rightarrow>
          (case parse (ww_yaml W) raw of
             None \<Rightarrow> (WireErr (WireOther ''yaml parse''), D)
           | Some cfg \<Rightarrow>
               (case wire_yaml_root (resolve_amore_mcp_path (ww_install W)) cfg of
                  Inl e \<Rightarrow> (WireErr e, D)
                | Inr None \<Rightarrow> (SkippedNoChange, D)
                | Inr (Some v) \<Rightarrow>
                    (case pretty (ww_yaml W) v of
                       None \<Rightarrow> (WireErr (WireOther ''yaml serial''), D)
                     | Some t \<Rightarrow> write_atomic (ww_faults W path) (ww_json W) (ww_yaml W) path t D)))
      | _ \<Rightarrow> (WireErr (WireOther ''read''), D))"

definition wire_one :: "wire_world \<Rightarrow> detected_ide \<Rightarrow> disk \<Rightarrow> wire_verdict \<times> disk" where
  "wire_one W ide D =
     (case di_format ide of JsonFormat \<Rightarrow> wire_json W (di_path ide) D | YamlFormat \<Rightarrow> wire_yaml W (di_path ide) D)"

fun wire_all :: "wire_world \<Rightarrow> detected_ide list \<Rightarrow> disk \<Rightarrow> (string \<times> wire_verdict) list \<times> disk" where
  "wire_all W [] D = ([], D)"
| "wire_all W (ide # ides) D =
     (let (v, D1) = wire_one W ide D; (vs, D2) = wire_all W ides D1 in ((di_name ide, v) # vs, D2))"

text \<open>The headless run: the contract it prints and its exit code.\<close>

record wire_contract =
  wc_detected :: "string list"
  wc_wired :: "string list"
  wc_skipped :: "string list"
  wc_errors :: "(string \<times> string) list"

definition contract_of :: "detected_ide list \<Rightarrow> (string \<times> wire_verdict) list \<Rightarrow> wire_contract" where
  "contract_of ides results =
     \<lparr>wc_detected = map di_name ides,
      wc_wired = map fst (filter (\<lambda>r. snd r = WireOk) results),
      wc_skipped = map fst (filter (\<lambda>r. snd r = SkippedNoChange) results),
      wc_errors = List.map_filter (\<lambda>(n, v). case v of WireErr e \<Rightarrow> Some (n, wire_error_message e) | _ \<Rightarrow> None) results\<rparr>"

definition run_auto_wire ::
  "wire_world \<Rightarrow> string option \<Rightarrow> string option \<Rightarrow> disk \<Rightarrow> nat \<times> wire_contract \<times> disk" where
  "run_auto_wire W home roaming D =
     (let ides = detect_with_roots (in_os (ww_install W)) (on_disk D) home roaming;
          (results, D') = wire_all W ides D;
          c = contract_of ides results
      in (if wc_errors c = [] then 0 else 1, c, D'))"

section \<open>Lemmas on paths\<close>

lemma suffix_last_split: "\<exists>d. s = d @ last (split_on p s)"
proof (cases "\<exists>c \<in> set s. p c")
  case True
  then obtain a c b where s: "s = a @ c # b" "p c" "\<forall>x \<in> set b. \<not> p x"
    using split_list_last_prop by metis
  then have "last (split_on p s) = b" by (simp add: split_on_append split_on_none)
  with s(1) show ?thesis by (intro exI [of _ "a @ [c]"]) simp
qed (auto simp: split_on_none)

lemma name_dir_last: "name_dir p @ last_component p = p"
proof -
  obtain d where "p = d @ last_component p" using suffix_last_split unfolding last_component_def by blast
  then show ?thesis unfolding name_dir_def by (metis add_diff_cancel_right' append_eq_conv_conj length_append)
qed

lemma bak_paths: "wire_bak_path p = p @ ''.bak''" "wire_bak_old_path p = p @ ''.bak.old''"
  using name_dir_last [of p] by (simp_all add: wire_bak_path_def wire_bak_old_path_def flip: append_assoc)

lemma tmp_path_length: "length (wire_tmp_path p) = length p + 11"
  using arg_cong [OF name_dir_last [of p], of length] by (simp add: wire_tmp_path_def)

lemma sibling_paths [simp]:
  "wire_tmp_path p \<noteq> p" "p \<noteq> wire_tmp_path p" "wire_bak_path p \<noteq> p" "p \<noteq> wire_bak_path p" "wire_bak_old_path p \<noteq> p" "p \<noteq> wire_bak_old_path p"
  "wire_tmp_path p \<noteq> wire_bak_path p" "wire_bak_path p \<noteq> wire_tmp_path p" "wire_tmp_path p \<noteq> wire_bak_old_path p" "wire_bak_old_path p \<noteq> wire_tmp_path p"
  "wire_bak_path p \<noteq> wire_bak_old_path p" "wire_bak_old_path p \<noteq> wire_bak_path p"
  using tmp_path_length [of p] by (auto simp: bak_paths dest: arg_cong [of _ _ length])

section \<open>Lemmas on the atomic write\<close>

lemma d_files [simp]:
  "wd_files (d_write p t D) = (wd_files D)(p := Some (Some t))"
  "wd_files (d_remove p D) = (wd_files D)(p := None)"
  "wd_files (d_chmod ok p D) = wd_files D"
  by (simp_all add: d_write_def d_remove_def d_chmod_def)

lemma d_rename_files: "wd_files (d_rename a b D) = (case wd_files D a of None \<Rightarrow> wd_files D | Some t \<Rightarrow> (wd_files D)(a := None, b := Some t))"
  by (simp add: d_rename_def split: option.split)

lemma d_copy_files: "wd_files (d_copy a b D) = (case wd_files D a of None \<Rightarrow> wd_files D | Some t \<Rightarrow> (wd_files D)(b := Some t))"
  by (simp add: d_copy_def split: option.split)

lemma d_cut_copy_other: "p \<noteq> b \<Longrightarrow> wd_files (d_cut_copy n a b D) p = wd_files D p"
  by (simp add: d_cut_copy_def split: option.split)

lemma d_cut_copy_dest: "wd_files (d_cut_copy n a b D) b = wd_files D b
    \<or> (\<exists>j t. wd_files D a = Some (Some t) \<and> wd_files (d_cut_copy n a b D) b = Some (Some (take j t)))"
  by (auto simp: d_cut_copy_def split: option.split)

lemma private_files:
  assumes "set_private_permissions call p D = (r, D1)"
  shows "wd_files D1 = wd_files D"
    and "r = Inr () \<Longrightarrow> call \<noteq> Chmod False \<Longrightarrow> wd_files D p \<noteq> None \<Longrightarrow> p \<in> wd_private D1"
  using assms by (auto simp: set_private_permissions_def d_chmod_def split: private_call.splits sum.splits if_splits)

definition aside :: "string \<Rightarrow> string set" where
  "aside p = {wire_bak_path p, wire_bak_old_path p, wire_tmp_path p}"

lemma rotate_facts:
  assumes "rotate_backup F target D = (r, D1)"
  shows "p \<notin> aside target \<Longrightarrow> wd_files D1 p = wd_files D p"
  using assms by (auto simp: rotate_backup_def aside_def Let_def d_rename_files split: if_splits option.splits)

lemma make_backup_facts:
  assumes "make_backup F target D = (r, D1)"
  shows "p \<notin> aside target \<Longrightarrow> wd_files D1 p = wd_files D p"
    and "r = Inr () \<Longrightarrow> wd_files D1 (wire_bak_path target) = wd_files D target"
    and "r = Inr () \<Longrightarrow> f_private F \<noteq> Chmod False \<Longrightarrow> wire_bak_path target \<in> wd_private D1"
proof -
  let ?bak = "wire_bak_path target"
  obtain r1 D2 where s: "set_private_permissions (f_private F) ?bak (d_copy target ?bak D) = (r1, D2)"
    by (rule prod.exhaust)
  note p = private_files [OF s]
  show "p \<notin> aside target \<Longrightarrow> wd_files D1 p = wd_files D p"
    using assms p(1) by (auto simp: make_backup_def s aside_def Let_def d_rename_files d_copy_files d_cut_copy_other
        split: if_splits option.splits sum.splits)
  show "r = Inr () \<Longrightarrow> wd_files D1 ?bak = wd_files D target"
    using assms p(1) by (auto simp: make_backup_def s Let_def d_copy_files on_disk_def
        split: if_splits option.splits sum.splits)
  show "r = Inr () \<Longrightarrow> f_private F \<noteq> Chmod False \<Longrightarrow> ?bak \<in> wd_private D1"
    using assms p by (auto simp: make_backup_def s Let_def d_copy_files on_disk_def d_remove_def
        split: if_splits option.splits sum.splits)
qed

lemma replace_facts:
  assumes run: "replace_target F jc yc target text D = (v, D1)"
    and bak: "wd_files D (wire_bak_path target) = Some (Some old)" and tgt: "wd_files D target = Some (Some old)"
  shows "p \<notin> insert target (aside target) \<Longrightarrow> wd_files D1 p = wd_files D p"
    and "wd_files D1 (wire_bak_path target) = Some (Some old)"
    and "wire_bak_path target \<in> wd_private D \<Longrightarrow> wire_bak_path target \<in> wd_private D1"
    and "v = WireOk \<Longrightarrow> wd_files D1 target = Some (Some text) \<and> wd_files D1 (wire_tmp_path target) = None"
    and "v \<noteq> SkippedNoChange"
    and "wd_files D1 target = Some (Some old)
      \<or> (wd_files D1 target = Some (Some text) \<and> retry_rename (f_rename F) = Inr ())
      \<or> (f_restore F \<noteq> None \<and> isl (retry_rename (f_rename F)) \<and> (\<exists>n. wd_files D1 target = Some (Some (take n old))))"
proof -
  let ?tmp = "wire_tmp_path target" and ?bak = "wire_bak_path target"
  define W1 where "W1 = d_write ?tmp text D"
  define W1r where "W1r = (if f_rm_tmp_ok F then d_remove ?tmp W1 else W1)"
  have w: "wd_files W1 q = wd_files D q" "wd_files W1r q = wd_files D q" if "q \<noteq> ?tmp" for q
    using that by (simp_all add: W1_def W1r_def)
  have pv: "?bak \<in> wd_private D \<Longrightarrow> ?bak \<in> wd_private W1 \<and> ?bak \<in> wd_private W1r"
    by (simp add: W1_def W1r_def d_write_def d_remove_def)
  consider (w) e n where "f_write F = Some (e, n)" "v = WireErr (WireOther (''tmp write failed: '' @ e))"
        "D1 = (case n of None \<Rightarrow> D | Some j \<Rightarrow> d_write ?tmp (take j text) D)"
    | (s) e where "v = WireErr (WireOther (''sync_data failed: '' @ e))" "D1 = W1r"
    | (r) e where "retry_rename (f_rename F) = Inl e" "v = WireErr (TargetLocked (''rename failed after 3 retries: '' @ e))"
        "D1 = (case f_restore F of None \<Rightarrow> d_copy ?bak target W1r | Some (e', n) \<Rightarrow> d_cut_copy n ?bak target W1r)"
    | (k) "retry_rename (f_rename F) = Inr ()" "v \<noteq> SkippedNoChange" "D1 = d_rename ?tmp target W1"
    using run by (auto simp: replace_target_def Let_def W1_def [symmetric] W1r_def [symmetric] split: option.splits sum.splits)
  note ph = this
  have new: "wd_files W1 ?tmp = Some (Some text)" by (simp add: W1_def)
  show "p \<notin> insert target (aside target) \<Longrightarrow> wd_files D1 p = wd_files D p"
    using ph w by cases (auto simp: aside_def d_rename_files d_copy_files d_cut_copy_other split: option.splits)
  show "wd_files D1 (wire_bak_path target) = Some (Some old)"
    using ph w bak by cases (auto simp: d_rename_files d_copy_files d_cut_copy_other split: option.splits)
  show "wire_bak_path target \<in> wd_private D \<Longrightarrow> wire_bak_path target \<in> wd_private D1"
    using ph pv by cases (auto simp: d_write_def d_rename_def d_copy_def d_cut_copy_def split: option.splits)
  show "v = WireOk \<Longrightarrow> wd_files D1 target = Some (Some text) \<and> wd_files D1 (wire_tmp_path target) = None"
    using ph new by cases (auto simp: d_rename_files)
  show "v \<noteq> SkippedNoChange" using ph by cases auto
  show "wd_files D1 target = Some (Some old)
      \<or> (wd_files D1 target = Some (Some text) \<and> retry_rename (f_rename F) = Inr ())
      \<or> (f_restore F \<noteq> None \<and> isl (retry_rename (f_rename F)) \<and> (\<exists>n. wd_files D1 target = Some (Some (take n old))))"
    using ph
  proof cases
    case w then show ?thesis using tgt by (auto split: option.splits)
  next
    case s then show ?thesis using tgt w by simp
  next
    case r
    have b: "wd_files W1r ?bak = Some (Some old)" "wd_files W1r target = Some (Some old)" using w bak tgt by simp_all
    show ?thesis
    proof (cases "f_restore F")
      case None
      then show ?thesis using r b by (simp add: d_copy_files)
    next
      case (Some en)
      obtain e' n where "en = (e', n)" by (cases en)
      with Some r d_cut_copy_dest [of n ?bak target W1r] b show ?thesis by auto
    qed
  next
    case k then show ?thesis using new by (simp add: d_rename_files)
  qed
qed

section \<open>Properties\<close>

lemma wire_write_facts:
  assumes old: "wd_files D target = Some (Some old)" and run: "write_atomic F jc yc target text D = (WireOk, D')"
  shows "wd_files D' target = Some (Some text)" and "wd_files D' (wire_bak_path target) = Some (Some old)"
proof -
  have t: "target \<notin> aside target" by (simp add: aside_def)
  obtain D1 D2 where p: "rotate_backup F target D = (Inr (), D1)" "make_backup F target D1 = (Inr (), D2)"
      "replace_target F jc yc target text D2 = (WireOk, D')"
    using run by (auto simp: write_atomic_def split: prod.splits sum.splits)
  have "wd_files D2 (wire_bak_path target) = Some (Some old)" "wd_files D2 target = Some (Some old)"
    using make_backup_facts [OF p(2)] rotate_facts [OF p(1) t] t old by simp_all
  note f = replace_facts [OF p(3) this]
  show "wd_files D' target = Some (Some text)" "wd_files D' (wire_bak_path target) = Some (Some old)"
    using f(2,4) by simp_all
qed

text \<open>C21: What a write leaves, whatever fails.  On success the configuration is the new text, the backup is the
  old one, readable by its owner only unless the one call to \<open>chmod\<close> failed, and no temporary file remains.  On
  any error the configuration is the old text, or the new one when only the final check failed, or, where
  restoring it after a failed rename was itself cut short, a prefix of the old one.  No other file changes.\<close>

theorem wire_write_outcome:
  assumes old: "wd_files D target = Some (Some old)"
    and run: "write_atomic F jc yc target text D = (v, D')"
  shows "(v = WireOk \<longrightarrow> wd_files D' target = Some (Some text) \<and> wd_files D' (wire_bak_path target) = Some (Some old)
        \<and> (f_private F \<noteq> Chmod False \<longrightarrow> wire_bak_path target \<in> wd_private D') \<and> wd_files D' (wire_tmp_path target) = None)
    \<and> v \<noteq> SkippedNoChange
    \<and> (wd_files D' target = Some (Some old)
       \<or> (wd_files D' target = Some (Some text) \<and> retry_rename (f_rename F) = Inr ())
       \<or> (f_restore F \<noteq> None \<and> isl (retry_rename (f_rename F)) \<and> (\<exists>n. wd_files D' target = Some (Some (take n old)))))
    \<and> (\<forall>p. p \<notin> insert target (aside target) \<longrightarrow> wd_files D' p = wd_files D p)"
proof -
  obtain r1 D1 where r: "rotate_backup F target D = (r1, D1)" by (rule prod.exhaust)
  have t: "target \<notin> aside target" by (simp add: aside_def)
  note f1 = rotate_facts [OF r]
  obtain r2 D2 where m: "make_backup F target D1 = (r2, D2)" by (rule prod.exhaust)
  note f2 = make_backup_facts [OF m]
  show ?thesis
  proof (cases "isl r1 \<or> isl r2")
    case True
    then have "(\<exists>e. v = WireErr e) \<and> (D' = D1 \<or> D' = D2)"
      using run r m by (auto simp: write_atomic_def split: sum.splits)
    then show ?thesis using f1 f2(1) t old by auto
  next
    case False
    then have ok: "r1 = Inr ()" "r2 = Inr ()" by (cases r1; cases r2; simp)+
    then have rep: "replace_target F jc yc target text D2 = (v, D')" using run r m by (simp add: write_atomic_def)
    have b: "wd_files D2 (wire_bak_path target) = Some (Some old)" "wd_files D2 target = Some (Some old)"
      using f2(2) [OF ok(2)] f2(1) [OF t] f1 [OF t] old by simp_all
    note f3 = replace_facts [OF rep b]
    have o: "wd_files D' p = wd_files D p" if "p \<notin> insert target (aside target)" for p
      using f3(1) [OF that] f2(1) [of p] f1 [of p] that by simp
    show ?thesis using f3(2-6) f2(3) [OF ok(2)] o by blast
  qed
qed

definition no_wire_faults :: wire_faults where
  "no_wire_faults = \<lparr>f_rotate = None, f_rollback_ok = True, f_copy = None, f_private = Chmod True, f_rm_old_ok = True,
     f_rm_tmp_ok = True, f_write = None, f_sync = None, f_rename = \<lambda>_. None, f_restore = None, f_reread = None\<rparr>"

lemma wire_write_outcome_witness:
  "wd_files (snd (write_atomic (no_wire_faults\<lparr>f_rename := \<lambda>_. Some (''busy'', True), f_restore := Some (''io'', Some 1)\<rparr>) printing_codec (one_doc_codec YNull)
       ''/c'' ''new'' \<lparr>wd_files = [''/c'' \<mapsto> Some ''old''], wd_private = {}\<rparr>)) ''/d'' = None"
proof -
  let ?F = "no_wire_faults\<lparr>f_rename := \<lambda>_. Some (''busy'', True), f_restore := Some (''io'', Some 1)\<rparr>"
  let ?D = "\<lparr>wd_files = [''/c'' \<mapsto> Some ''old''], wd_private = {}\<rparr>"
  obtain v D' where run: "write_atomic ?F printing_codec (one_doc_codec YNull) ''/c'' ''new'' ?D = (v, D')" by (rule prod.exhaust)
  have "''/d'' \<notin> insert ''/c'' (aside ''/c'')"
    by (simp add: aside_def bak_paths) (simp add: wire_tmp_path_def name_dir_def last_component_def)
  then show ?thesis using wire_write_outcome [OF _ run, of "''old''"] run by simp
qed

text \<open>The write keeps no permission of the configuration: a private file is no longer so once replaced.\<close>

lemma wire_loosens_target:
  "target \<notin> wd_private (snd (write_atomic no_wire_faults jc yc target text
     \<lparr>wd_files = [target \<mapsto> Some old], wd_private = {target}\<rparr>))"
  by (simp add: write_atomic_def rotate_backup_def make_backup_def replace_target_def Let_def no_wire_faults_def on_disk_def
      d_rename_def d_copy_def set_private_permissions_def d_chmod_def d_write_def retry_rename_def numeral_3_eq_3 split: sum.splits)

text \<open>Where the backup cannot be made private and no earlier one exists, it stays with the access it has.\<close>

lemma failed_acl_keeps_backup:
  "let (v, D') = write_atomic (no_wire_faults\<lparr>f_private := Icacls (Inr (Some 0)) (Inr ''S-1-1-0:(R)'')\<rparr>) jc yc target text
       \<lparr>wd_files = [target \<mapsto> Some old], wd_private = {}\<rparr>
   in v = WireErr (BackupAclFailed (wire_bak_path target) (Some 0))
     \<and> wd_files D' (wire_bak_path target) = Some (Some old) \<and> wire_bak_path target \<notin> wd_private D'"
  by (simp add: write_atomic_def rotate_backup_def make_backup_def Let_def no_wire_faults_def on_disk_def
      d_rename_def d_copy_def set_private_permissions_def acl_has_broad_ace_def starts_with_def)

text \<open>A directory whose name only begins like a protected one passes for protected.\<close>

lemma prefix_is_not_a_component: "is_system_protected_dir LinuxOs c ''/optional/amore''"
  by (simp add: is_system_protected_dir_def starts_with_def)

text \<open>C22: An insecure installation wires nothing.  When the program lies outside the protected directories and the
  user did not opt in, the headless run changes no file, reports every detected IDE as an error and exits with one
  if there is any.\<close>

theorem insecure_install_wires_nothing:
  assumes exe: "in_exe (ww_install W) = Inr exe0"
    and dir: "parent_dir (case in_canonical (ww_install W) exe0 of Some c \<Rightarrow> c | None \<Rightarrow> exe0) = Some dir"
    and bad: "\<not> is_system_protected_dir (in_os (ww_install W)) (in_canonical (ww_install W)) dir" "\<not> allow_user_install (in_env (ww_install W))"
    and run: "run_auto_wire W home roaming D = (code, c, D')"
  shows "D' = D \<and> wc_wired c = [] \<and> wc_skipped c = [] \<and> map fst (wc_errors c) = wc_detected c
    \<and> (code = 0 \<longleftrightarrow> wc_detected c = [])"
proof -
  have p: "resolve_amore_mcp_path (ww_install W) = Inl (InsecureInstallLocation dir)"
    using exe dir bad by (simp add: resolve_amore_mcp_path_def Let_def)
  then have e: "amore_mcp_entry_object (ww_install W) = Inl (InsecureInstallLocation dir)"
    by (simp add: amore_mcp_entry_object_def)
  have j: "isl (wire_json_root (Inl (InsecureInstallLocation dir)) cfg)" for cfg
    by (auto simp: wire_json_root_def Let_def split: json.splits option.splits)
  have y: "isl (wire_yaml_root (Inl (InsecureInstallLocation dir)) cfg)" for cfg
    by (auto simp: wire_yaml_root_def Let_def split: option.splits)
  have one: "\<exists>err. wire_one W ide D = (WireErr err, D)" for ide D
    using j y by (auto simp: wire_one_def wire_json_def wire_yaml_def e p isl_def
        split: config_format.splits option.splits sum.splits) (metis Inl_Inr_False)+
  have all: "snd (wire_all W ides D) = D \<and> map fst (fst (wire_all W ides D)) = map di_name ides
      \<and> list_all (\<lambda>r. \<exists>err. snd r = WireErr err) (fst (wire_all W ides D))" for ides D
  proof (induction ides)
    case (Cons ide ides)
    obtain err where "wire_one W ide D = (WireErr err, D)" using one by blast
    with Cons show ?case by (simp add: case_prod_beta)
  qed simp
  have ct: "wc_wired (contract_of ides rs) = [] \<and> wc_skipped (contract_of ides rs) = []
      \<and> map fst (wc_errors (contract_of ides rs)) = map fst rs"
    if "list_all (\<lambda>r. \<exists>err. snd r = WireErr err) rs" for ides rs
    using that by (induction rs) (auto simp: contract_of_def map_filter_simps)
  define ides where "ides = detect_with_roots (in_os (ww_install W)) (on_disk D) home roaming"
  have r: "c = contract_of ides (fst (wire_all W ides D))" "D' = snd (wire_all W ides D)"
      "code = (if wc_errors c = [] then 0 else 1)"
    using run by (auto simp: run_auto_wire_def Let_def ides_def split: prod.splits)
  have "wc_detected c = map di_name ides" by (simp add: r(1) contract_of_def)
  with all [of ides D] ct [of "fst (wire_all W ides D)" ides] r show ?thesis
    by (metis list.map_disc_iff zero_neq_one)
qed

text \<open>C24: What wiring a JSON configuration does.  With a codec that reads back what it prints, a successful run leaves
  a configuration whose \<open>mcpServers\<close> hold the entry of the sibling binary by its resolved path, every other server
  and every other key as before, and the previous text as the backup; the next run finds nothing to change.\<close>

theorem wire_json_effect:
  assumes run: "wire_json W path D = (WireOk, D')"
    and codec: "\<forall>v t. pretty (ww_json W) v = Some t \<longrightarrow> parse (ww_json W) t = Some v"
  shows "\<exists>raw obj obj' servers' cmd t. wd_files D path = Some (Some raw) \<and> parse (ww_json W) raw = Some (JObj obj)
    \<and> wd_files D' path = Some (Some t) \<and> parse (ww_json W) t = Some (JObj obj')
    \<and> wd_files D' (wire_bak_path path) = Some (Some raw)
    \<and> resolve_amore_mcp_path (ww_install W) = Inr cmd
    \<and> map_of obj' ''mcpServers'' = Some (JObj servers')
    \<and> map_of servers' ''amore'' = Some (JObj [(''args'', JArr [JStr ''--stdio'']), (''command'', JStr cmd), (''env'', JObj [])])
    \<and> (\<forall>n. n \<noteq> ''amore'' \<longrightarrow> map_of servers' n = Option.bind (Option.bind (map_of obj ''mcpServers'') as_object) (\<lambda>m. map_of m n))
    \<and> (\<forall>k. k \<noteq> ''mcpServers'' \<longrightarrow> map_of obj' k = map_of obj k)
    \<and> wire_json W path D' = (SkippedNoChange, D')"
proof -
  obtain raw cfg v t where p: "wd_files D path = Some (Some raw)" "parse (ww_json W) raw = Some cfg"
      "wire_json_root (amore_mcp_entry_object (ww_install W)) cfg = Inr (Some v)" "pretty (ww_json W) v = Some t"
      "write_atomic (ww_faults W path) (ww_json W) (ww_yaml W) path t D = (WireOk, D')"
    using run by (auto simp: wire_json_def split: option.splits sum.splits)
  obtain obj where o: "cfg = JObj obj"
    using p(3) by (auto simp: wire_json_root_def split: json.splits)
  define obj1 where "obj1 = obj_or_insert ''mcpServers'' (JObj []) obj"
  obtain servers e where e: "map_of obj1 ''mcpServers'' = Some (JObj servers)" "amore_mcp_entry_object (ww_install W) = Inr e"
      "v = JObj (obj_insert ''mcpServers'' (JObj (obj_insert ''amore'' e servers)) obj1)"
    using p(3) by (auto simp: wire_json_root_def o Let_def obj1_def split: json.splits option.splits sum.splits if_splits)
  obtain cmd where cmd: "resolve_amore_mcp_path (ww_install W) = Inr cmd"
      "e = JObj [(''args'', JArr [JStr ''--stdio'']), (''command'', JStr cmd), (''env'', JObj [])]"
    using e(2) by (auto simp: amore_mcp_entry_object_def split: sum.splits)
  define obj' where "obj' = obj_insert ''mcpServers'' (JObj (obj_insert ''amore'' e servers)) obj1"
  have w: "wd_files D' path = Some (Some t)" "wd_files D' (wire_bak_path path) = Some (Some raw)"
    using wire_write_facts [OF p(1) p(5)] by simp_all
  have t: "parse (ww_json W) t = Some (JObj obj')" using codec p(4) e(3) by (simp add: obj'_def)
  have m: "map_of obj' ''mcpServers'' = Some (JObj (obj_insert ''amore'' e servers))"
    "map_of (obj_insert ''amore'' e servers) ''amore'' = Some e"
    "\<And>k. k \<noteq> ''mcpServers'' \<Longrightarrow> map_of obj' k = map_of obj k"
    by (simp_all add: obj'_def obj_insert_lookup obj1_def obj_or_insert_lookup)
  have s: "map_of (obj_insert ''amore'' e servers) n
      = Option.bind (Option.bind (map_of obj ''mcpServers'') as_object) (\<lambda>m. map_of m n)" if "n \<noteq> ''amore''" for n
    using that e(1) by (cases "map_of obj ''mcpServers''") (auto simp: obj_insert_lookup obj1_def obj_or_insert_lookup)
  have "wire_json_root (amore_mcp_entry_object (ww_install W)) (JObj obj') = Inr None"
    using m(1,2) by (simp add: wire_json_root_def Let_def obj_or_insert_present e(2))
  then have again: "wire_json W path D' = (SkippedNoChange, D')" using w(1) t by (simp add: wire_json_def)
  show ?thesis
    using p(1) p(2) [unfolded o] w t cmd(1) m s again
    by (intro exI [of _ raw] exI [of _ obj] exI [of _ obj'] exI [of _ "obj_insert ''amore'' e servers"] exI [of _ cmd]
        exI [of _ t] conjI allI impI) (simp_all add: cmd(2) [symmetric])
qed

definition toy_entry :: json where
  "toy_entry = JObj [(''mcpServers'', JObj [(''amore'',
     JObj [(''args'', JArr [JStr ''--stdio'']), (''command'', JStr ''/opt/a/amore-mcp''), (''env'', JObj [])])])]"

definition toy_world :: wire_world where
  "toy_world = \<lparr>ww_install = \<lparr>in_os = LinuxOs, in_exe = Inr ''/opt/a/amore-gui'', in_canonical = \<lambda>_. None, in_exists = \<lambda>_. True, in_env = []\<rparr>,
     ww_json = \<lparr>parse = \<lambda>t. if t = ''new'' then Some toy_entry else Some (JObj []),
       pretty = \<lambda>v. if v = toy_entry then Some ''new'' else None\<rparr>,
     ww_yaml = one_doc_codec YNull, ww_faults = \<lambda>_. no_wire_faults\<rparr>"

lemma wire_json_effect_witness:
  "let (v, D') = wire_json toy_world ''/c'' \<lparr>wd_files = [''/c'' \<mapsto> Some ''old''], wd_private = {}\<rparr>
   in v = WireOk \<and> wire_json toy_world ''/c'' D' = (SkippedNoChange, D')"
proof -
  let ?D = "\<lparr>wd_files = [''/c'' \<mapsto> Some ''old''], wd_private = {}\<rparr>"
  have e: "amore_mcp_entry_object (ww_install toy_world)
      = Inr (JObj [(''args'', JArr [JStr ''--stdio'']), (''command'', JStr ''/opt/a/amore-mcp''), (''env'', JObj [])])"
    by (simp add: toy_world_def amore_mcp_entry_object_def resolve_amore_mcp_path_def parent_dir_def last_component_def
        is_system_protected_dir_def exe_suffix_def starts_with_def Let_def)
  have w: "wire_json toy_world ''/c'' ?D = write_atomic no_wire_faults (ww_json toy_world) (ww_yaml toy_world) ''/c'' ''new'' ?D"
  proof -
    have "wire_json_root (amore_mcp_entry_object (ww_install toy_world)) (JObj []) = Inr (Some toy_entry)"
      unfolding e by (simp add: wire_json_root_def Let_def obj_or_insert_def toy_entry_def)
    moreover have "parse (ww_json toy_world) ''old'' = Some (JObj [])" "pretty (ww_json toy_world) toy_entry = Some ''new''"
        "ww_faults toy_world ''/c'' = no_wire_faults"
      by (simp_all add: toy_world_def)
    ultimately show ?thesis by (simp add: wire_json_def)
  qed
  have x: "extension_of ''/c'' = []" by (simp add: extension_of_def last_component_def Let_def)
  obtain v D' where run: "wire_json toy_world ''/c'' ?D = (v, D')" by (rule prod.exhaust)
  then have ok: "v = WireOk"
    unfolding w by (auto simp: write_atomic_def rotate_backup_def make_backup_def replace_target_def Let_def no_wire_faults_def
        on_disk_def d_rename_files d_copy_files set_private_permissions_def bak_paths retry_rename_def numeral_3_eq_3 verify_parseable_def x
        split: if_splits)
  have "\<forall>v t. pretty (ww_json toy_world) v = Some t \<longrightarrow> parse (ww_json toy_world) t = Some v"
    by (simp add: toy_world_def)
  from wire_json_effect [OF run [unfolded ok] this] run ok show ?thesis by auto
qed

lemma insecure_install_wires_nothing_witness:
  "fst (run_auto_wire (toy_world\<lparr>ww_install := \<lparr>in_os = LinuxOs, in_exe = Inr ''/home/u/amore-gui'', in_canonical = \<lambda>_. None,
       in_exists = \<lambda>_. True, in_env = []\<rparr>\<rparr>) None None \<lparr>wd_files = Map.empty, wd_private = {}\<rparr>) = 0"
proof -
  let ?W = "toy_world\<lparr>ww_install := \<lparr>in_os = LinuxOs, in_exe = Inr ''/home/u/amore-gui'', in_canonical = \<lambda>_. None,
       in_exists = \<lambda>_. True, in_env = []\<rparr>\<rparr>"
  obtain code c D' where run: "run_auto_wire ?W None None \<lparr>wd_files = Map.empty, wd_private = {}\<rparr> = (code, c, D')"
    by (metis prod_cases3)
  have d: "wc_detected c = []"
    using run by (auto simp: run_auto_wire_def Let_def contract_of_def detect_with_roots_def detect_claude_desktop_def
        detect_claude_code_def detect_cursor_def detect_cline_def detect_continue_ide_def detect_at_def map_filter_simps
        split: prod.splits)
  have "parent_dir ''/home/u/amore-gui'' = Some ''/home/u''"
    by (simp add: parent_dir_def last_component_def)
  then have "code = 0"
    using insecure_install_wires_nothing [OF _ _ _ _ run, of "''/home/u/amore-gui''" "''/home/u''"] d
    by (simp add: is_system_protected_dir_def starts_with_def allow_user_install_def env_var_def)
  with run show ?thesis by simp
qed

end
