(* ===== verification/Wizard.thy ===== *)
theory Wizard
  imports GuiWire
begin

text \<open>
  The first-run wizard of the desktop program, \<open>crates/amore-gui/src/wizard/\<close>, its tray icon and the dispatch of
  its arguments.  A frame is one call of the render function of the screen with at most one thing the user did in
  it.  The thread that wires the selected tools runs beside the frames: it starts, wires one tool at a time and
  finishes, each a step of its own on the shared status and the disk.  Widgets are drawn by a library and leave no
  trace in the model.
\<close>

section \<open>Screens and state\<close>

datatype screen = Welcome | DataDir | BundledDeps | IdeDetect | WireConfirm | ScreenDone

fun next_screen :: "screen \<Rightarrow> screen option" where
  "next_screen Welcome = Some DataDir"
| "next_screen DataDir = Some BundledDeps"
| "next_screen BundledDeps = Some IdeDetect"
| "next_screen IdeDetect = Some WireConfirm"
| "next_screen WireConfirm = Some ScreenDone"
| "next_screen ScreenDone = None"

fun prev_screen :: "screen \<Rightarrow> screen option" where
  "prev_screen Welcome = None"
| "prev_screen DataDir = Some Welcome"
| "prev_screen BundledDeps = Some DataDir"
| "prev_screen IdeDetect = Some BundledDeps"
| "prev_screen WireConfirm = Some IdeDetect"
| "prev_screen ScreenDone = Some WireConfirm"

datatype apply_status = Idle | Applying | ApplyDone | ApplyFailed string

record wizard_state =
  wz_screen :: screen
  license_accepted :: bool
  wz_data_dir :: string
  free_bytes :: "u64 option"
  detected_ides :: "detected_ide list"
  ide_checked :: "bool list"
  wire_results :: "(string \<times> wire_verdict) list"
  open_dashboard_clicked :: bool
  run_in_tray_clicked :: bool

definition wizard_new :: "string option \<Rightarrow> wizard_state" where
  "wizard_new local =
     \<lparr>wz_screen = Welcome, license_accepted = False,
      wz_data_dir = path_join (case local of Some d \<Rightarrow> d | None \<Rightarrow> ''.'') [''Amore''],
      free_bytes = None, detected_ides = [], ide_checked = [], wire_results = [],
      open_dashboard_clicked = False, run_in_tray_clicked = False\<rparr>"

definition can_advance :: "wizard_state \<Rightarrow> bool" where
  "can_advance st =
     (case wz_screen st of
        Welcome \<Rightarrow> license_accepted st
      | DataDir \<Rightarrow> wz_data_dir st \<noteq> []
      | BundledDeps \<Rightarrow> True
      | IdeDetect \<Rightarrow> True
      | WireConfirm \<Rightarrow> False
      | ScreenDone \<Rightarrow> False)"

section \<open>The program around the state\<close>

text \<open>A wiring thread: the tools it was given, those still to do, and its results so far.\<close>

datatype phase = Spawned | Running | Finished

record worker =
  wk_ides :: "detected_ide list"
  wk_phase :: phase
  wk_todo :: "detected_ide list"
  wk_results :: "(string \<times> wire_verdict) list"

record app =
  ap_wizard :: wizard_state
  ap_status :: apply_status
  ap_workers :: "worker list"
  ap_disk :: disk
  ap_opened :: "string list"

text \<open>What surrounds it: the wiring, the two root directories, and what a command prints.\<close>

record surroundings =
  su_wire :: wire_world
  su_home :: "string option"
  su_roaming :: "string option"
  su_run :: "string \<Rightarrow> string list \<Rightarrow> string option"

definition squote :: string where "squote = [CHR 0x27]"

text \<open>The command whose output tells the free space.\<close>

definition free_space_query :: "platform \<Rightarrow> string \<Rightarrow> string \<times> string list" where
  "free_space_query os path =
     (let unix = (''df'', [''-B1'', ''--output=avail'', path]) in
      case os of
        WindowsOs \<Rightarrow>
          (''powershell'', [''-NoProfile'', ''-Command'',
             ''(Get-PSDrive -Name ((Split-Path -Qualifier '' @ squote @ path @ squote @ '') -replace '' @ squote @ '':''
             @ squote @ '','' @ squote @ squote @ '') -ErrorAction SilentlyContinue)?.Free''])
      | MacOs \<Rightarrow> unix
      | LinuxOs \<Rightarrow> unix)"

definition free_space_bytes :: "platform \<Rightarrow> (string \<Rightarrow> string list \<Rightarrow> string option) \<Rightarrow> string \<Rightarrow> u64 option" where
  "free_space_bytes os run path =
     (case (case free_space_query os path of (program, args) \<Rightarrow> run program args) of
        None \<Rightarrow> None
      | Some out \<Rightarrow>
          (if os = WindowsOs then parse_u64 (trim out)
           else let ls = lines out in if length ls \<le> 1 then None else parse_u64 (trim (ls ! 1))))"

text \<open>The label below the directory.\<close>

datatype space_label = SpaceUnknown | SpaceLow u64 | SpaceFine u64

definition space_label_of :: "u64 option \<Rightarrow> space_label" where
  "space_label_of free =
     (case free of
        None \<Rightarrow> SpaceUnknown
      | Some b \<Rightarrow> if b < 500 * 1024 * 1024 then SpaceLow b else SpaceFine b)"

section \<open>Frames\<close>

datatype user_action =
    Nothing
  | ClickBack
  | ClickNext
  | ToggleLicense
  | TypeDir string
  | PickDir "string option"
  | ToggleIde nat
  | ClickApply
  | ClickRetry
  | ClickDashboard
  | ClickTray

definition nav_row :: "user_action \<Rightarrow> wizard_state \<Rightarrow> wizard_state" where
  "nav_row act st =
     (case act of
        ClickBack \<Rightarrow> (case prev_screen (wz_screen st) of Some p \<Rightarrow> st\<lparr>wz_screen := p\<rparr> | None \<Rightarrow> st)
      | ClickNext \<Rightarrow>
          (if can_advance st then (case next_screen (wz_screen st) of Some n \<Rightarrow> st\<lparr>wz_screen := n\<rparr> | None \<Rightarrow> st) else st)
      | _ \<Rightarrow> st)"

definition render_welcome :: "user_action \<Rightarrow> wizard_state \<Rightarrow> wizard_state" where
  "render_welcome act st =
     nav_row act (if act = ToggleLicense then st\<lparr>license_accepted := \<not> license_accepted st\<rparr> else st)"

definition render_data_dir :: "surroundings \<Rightarrow> user_action \<Rightarrow> wizard_state \<Rightarrow> wizard_state" where
  "render_data_dir S act st =
     (let st = (case act of
                  TypeDir d \<Rightarrow> st\<lparr>wz_data_dir := d\<rparr>
                | PickDir (Some d) \<Rightarrow> st\<lparr>wz_data_dir := d, free_bytes := None\<rparr>
                | _ \<Rightarrow> st);
          st = (if free_bytes st = None \<and> wz_data_dir st \<noteq> []
                then st\<lparr>free_bytes := free_space_bytes (in_os (ww_install (su_wire S))) (su_run S) (wz_data_dir st)\<rparr> else st)
      in nav_row act st)"

definition render_bundled_deps :: "user_action \<Rightarrow> wizard_state \<Rightarrow> wizard_state" where
  "render_bundled_deps act st = nav_row act st"

text \<open>\<open>None\<close> is the panic of the index check.\<close>

definition render_ide_detect :: "detected_ide list \<Rightarrow> user_action \<Rightarrow> wizard_state \<Rightarrow> wizard_state option" where
  "render_ide_detect found act st =
     (let st = (if detected_ides st = [] \<and> ide_checked st = []
                then st\<lparr>detected_ides := found, ide_checked := replicate (length found) True\<rparr> else st)
      in if length (ide_checked st) < length (detected_ides st) then None
         else let st = (case act of
                          ToggleIde i \<Rightarrow>
                            (if i < length (detected_ides st)
                             then st\<lparr>ide_checked := (ide_checked st)[i := \<not> ide_checked st ! i]\<rparr> else st)
                        | _ \<Rightarrow> st)
              in Some (nav_row act st))"

definition selected :: "wizard_state \<Rightarrow> detected_ide list" where
  "selected st =
     List.map_filter
       (\<lambda>(i, ide). if (if i < length (ide_checked st) then ide_checked st ! i else False) then Some ide else None)
       (enumerate 0 (detected_ides st))"

definition preview_for_ide :: "wire_world \<Rightarrow> detected_ide \<Rightarrow> string" where
  "preview_for_ide W ide =
     (case di_format ide of
        JsonFormat \<Rightarrow>
          (let entry = (case amore_mcp_entry_object (ww_install W) of
                          Inr e \<Rightarrow> e
                        | Inl e \<Rightarrow> JObj [(''args'', JArr [JStr ''--stdio'']),
                                        (''command'', JStr (''<'' @ wire_error_message e @ ''>'')), (''env'', JObj [])])
           in ''{'' @ [CHR 0x0A] @ ''  '' @ [CHR 0x22] @ ''mcpServers'' @ [CHR 0x22] @ '': {'' @ [CHR 0x0A]
              @ ''    '' @ [CHR 0x22] @ ''amore'' @ [CHR 0x22] @ '': ''
              @ (case pretty (ww_json W) entry of Some t \<Rightarrow> t | None \<Rightarrow> []) @ [CHR 0x0A] @ ''  }'' @ [CHR 0x0A] @ ''}'')
      | YamlFormat \<Rightarrow>
          ''mcpServers:'' @ [CHR 0x0A] @ ''  - name: amore'' @ [CHR 0x0A] @ ''    command: amore-mcp'' @ [CHR 0x0A]
          @ ''    args: [--stdio]'' @ [CHR 0x0A] @ ''    env: {}'')"

definition spawn_wire :: "detected_ide list \<Rightarrow> app \<Rightarrow> app" where
  "spawn_wire ides a =
     a\<lparr>ap_workers := ap_workers a @ [\<lparr>wk_ides = ides, wk_phase = Spawned, wk_todo = ides, wk_results = []\<rparr>]\<rparr>"

definition go_to :: "screen \<Rightarrow> app \<Rightarrow> app" where
  "go_to s a = a\<lparr>ap_wizard := (ap_wizard a)\<lparr>wz_screen := s\<rparr>\<rparr>"

definition render_wire_confirm :: "user_action \<Rightarrow> app \<Rightarrow> app" where
  "render_wire_confirm act a =
     (let sel = selected (ap_wizard a);
          a = (if sel = [] then a
               else case (ap_status a, act) of
                   (Idle, ClickApply) \<Rightarrow> spawn_wire sel a
                 | (ApplyDone, ClickNext) \<Rightarrow> go_to ScreenDone a
                 | (ApplyFailed msg, ClickRetry) \<Rightarrow> a\<lparr>ap_status := Idle\<rparr>
                 | _ \<Rightarrow> a)
      in case (prev_screen (wz_screen (ap_wizard a)), act) of
           (Some p, ClickBack) \<Rightarrow> go_to p a
         | _ \<Rightarrow> a)"

definition render_done :: "user_action \<Rightarrow> app \<Rightarrow> app" where
  "render_done act a =
     (case act of
        ClickDashboard \<Rightarrow>
          a\<lparr>ap_wizard := (ap_wizard a)\<lparr>open_dashboard_clicked := True\<rparr>,
            ap_opened := ap_opened a @ [''http://localhost:3111'']\<rparr>
      | ClickTray \<Rightarrow> a\<lparr>ap_wizard := (ap_wizard a)\<lparr>run_in_tray_clicked := True\<rparr>\<rparr>
      | _ \<Rightarrow> a)"

definition found_now :: "surroundings \<Rightarrow> disk \<Rightarrow> detected_ide list" where
  "found_now S D = detect_with_roots (in_os (ww_install (su_wire S))) (on_disk D) (su_home S) (su_roaming S)"

definition wizard_frame :: "surroundings \<Rightarrow> user_action \<Rightarrow> app \<Rightarrow> app option" where
  "wizard_frame S act a =
     (case wz_screen (ap_wizard a) of
        Welcome \<Rightarrow> Some (a\<lparr>ap_wizard := render_welcome act (ap_wizard a)\<rparr>)
      | DataDir \<Rightarrow> Some (a\<lparr>ap_wizard := render_data_dir S act (ap_wizard a)\<rparr>)
      | BundledDeps \<Rightarrow> Some (a\<lparr>ap_wizard := render_bundled_deps act (ap_wizard a)\<rparr>)
      | IdeDetect \<Rightarrow>
          map_option (\<lambda>st. a\<lparr>ap_wizard := st\<rparr>) (render_ide_detect (found_now S (ap_disk a)) act (ap_wizard a))
      | WireConfirm \<Rightarrow> Some (render_wire_confirm act a)
      | ScreenDone \<Rightarrow> Some (render_done act a))"

section \<open>The wiring thread\<close>

definition all_wired :: "(string \<times> wire_verdict) list \<Rightarrow> bool" where
  "all_wired results \<longleftrightarrow> list_all (\<lambda>(n, v). v = WireOk \<or> v = SkippedNoChange) results"

definition final_status :: "(string \<times> wire_verdict) list \<Rightarrow> apply_status" where
  "final_status results =
     (if all_wired results then ApplyDone
      else ApplyFailed (join_with ''; ''
        (List.map_filter (\<lambda>(n, v). case v of WireErr e \<Rightarrow> Some (n @ '': '' @ wire_error_message e) | _ \<Rightarrow> None) results)))"

text \<open>One step of a thread: it marks the status, wires its next tool, or reports.\<close>

definition worker_step :: "wire_world \<Rightarrow> nat \<Rightarrow> app \<Rightarrow> app" where
  "worker_step W i a =
     (let w = ap_workers a ! i in
      case wk_phase w of
        Spawned \<Rightarrow> a\<lparr>ap_status := Applying, ap_workers := (ap_workers a)[i := w\<lparr>wk_phase := Running\<rparr>]\<rparr>
      | Running \<Rightarrow>
          (case wk_todo w of
             [] \<Rightarrow> a\<lparr>ap_status := final_status (wk_results w), ap_workers := (ap_workers a)[i := w\<lparr>wk_phase := Finished\<rparr>]\<rparr>
           | ide # rest \<Rightarrow>
               (let (v, D) = wire_one W ide (ap_disk a)
                in a\<lparr>ap_disk := D,
                     ap_workers := (ap_workers a)[i := w\<lparr>wk_todo := rest, wk_results := wk_results w @ [(di_name ide, v)]\<rparr>]\<rparr>))
      | Finished \<Rightarrow> a)"

text \<open>The steps of the whole program; other programs change the disk at any time.\<close>

inductive wizard_step :: "surroundings \<Rightarrow> app \<Rightarrow> app \<Rightarrow> bool" for S where
  frame: "wizard_frame S act a = Some a' \<Longrightarrow> wizard_step S a a'"
| thread: "i < length (ap_workers a) \<Longrightarrow> wizard_step S a (worker_step (su_wire S) i a)"
| outside: "wizard_step S a (a\<lparr>ap_disk := D\<rparr>)"

inductive_cases wizard_stepE: "wizard_step S a a'"

definition app_start :: "string option \<Rightarrow> disk \<Rightarrow> app" where
  "app_start local D =
     \<lparr>ap_wizard = wizard_new local, ap_status = Idle, ap_workers = [], ap_disk = D, ap_opened = []\<rparr>"

inductive wizard_reaches :: "surroundings \<Rightarrow> app \<Rightarrow> app \<Rightarrow> bool" for S a where
  here: "wizard_reaches S a a"
| step: "wizard_reaches S a b \<Longrightarrow> wizard_step S b c \<Longrightarrow> wizard_reaches S a c"

fun frames :: "surroundings \<Rightarrow> user_action list \<Rightarrow> app \<Rightarrow> app option" where
  "frames S [] a = Some a"
| "frames S (x # xs) a = Option.bind (wizard_frame S x a) (frames S xs)"

section \<open>The invariant\<close>

definition thread_ok :: "worker \<Rightarrow> bool" where
  "thread_ok w \<longleftrightarrow> wk_ides w \<noteq> [] \<and> map fst (wk_results w) @ map di_name (wk_todo w) = map di_name (wk_ides w)
     \<and> (wk_phase w = Finished \<longrightarrow> wk_todo w = [])"

definition succeeded :: "worker \<Rightarrow> bool" where
  "succeeded w \<longleftrightarrow> wk_phase w = Finished \<and> all_wired (wk_results w)"

definition state_ok :: "wizard_state \<Rightarrow> bool" where
  "state_ok st \<longleftrightarrow> (wz_screen st \<noteq> Welcome \<longrightarrow> license_accepted st)
     \<and> (wz_screen st \<notin> {Welcome, DataDir} \<longrightarrow> wz_data_dir st \<noteq> [])
     \<and> length (ide_checked st) = length (detected_ides st)"

definition app_ok :: "app \<Rightarrow> bool" where
  "app_ok a \<longleftrightarrow> state_ok (ap_wizard a) \<and> list_all thread_ok (ap_workers a)
     \<and> (ap_status a = ApplyDone \<or> wz_screen (ap_wizard a) = ScreenDone \<longrightarrow> list_ex succeeded (ap_workers a))"

lemma app_start_ok: "app_ok (app_start local D)"
  by (simp add: app_ok_def app_start_def wizard_new_def state_ok_def)

lemma nav_row_ok: "state_ok st \<Longrightarrow> state_ok (nav_row act st)"
  by (cases "wz_screen st") (auto simp: nav_row_def state_ok_def can_advance_def split: user_action.splits)

lemma nav_row_done: "wz_screen (nav_row act st) = ScreenDone \<Longrightarrow> wz_screen st = ScreenDone"
  by (cases "wz_screen st") (auto simp: nav_row_def can_advance_def split: user_action.splits if_splits)

lemma frame_ok:
  assumes ok: "app_ok a" and f: "wizard_frame S act a = Some a'"
  shows "app_ok a'"
proof -
  have st: "state_ok (ap_wizard a)" using ok by (simp add: app_ok_def)
  have keep: "app_ok (a\<lparr>ap_wizard := nav_row act st'\<rparr>)"
    if "state_ok st'" "wz_screen st' = wz_screen (ap_wizard a)" "wz_screen (ap_wizard a) \<noteq> ScreenDone" for st'
    using ok that nav_row_ok [OF that(1)] nav_row_done [of act st'] by (auto simp: app_ok_def)
  show ?thesis
  proof (cases "wz_screen (ap_wizard a)")
    case Welcome
    then show ?thesis using f keep st by (auto simp: wizard_frame_def render_welcome_def state_ok_def)
  next
    case DataDir
    then show ?thesis using f keep st
      by (auto simp: wizard_frame_def render_data_dir_def state_ok_def Let_def split: user_action.splits option.splits)
  next
    case BundledDeps
    then show ?thesis using f keep st by (auto simp: wizard_frame_def render_bundled_deps_def)
  next
    case IdeDetect
    then show ?thesis using f keep st
      by (auto simp: wizard_frame_def render_ide_detect_def state_ok_def Let_def split: user_action.splits if_splits)
  next
    case WireConfirm
    have a': "a' = render_wire_confirm act a" using f WireConfirm by (simp add: wizard_frame_def)
    show ?thesis
      using ok WireConfirm unfolding a'
      by (auto simp: render_wire_confirm_def app_ok_def state_ok_def spawn_wire_def go_to_def thread_ok_def Let_def
          split: apply_status.splits user_action.splits)
  next
    case ScreenDone
    then show ?thesis using f ok
      by (auto simp: wizard_frame_def render_done_def app_ok_def state_ok_def split: user_action.splits)
  qed
qed

lemma list_ex_update:
  "list_ex P xs \<Longrightarrow> i < length xs \<Longrightarrow> (P (xs ! i) \<Longrightarrow> P y) \<Longrightarrow> list_ex P (xs[i := y])"
  unfolding list_ex_length length_list_update by (metis nth_list_update_eq nth_list_update_neq)

lemma list_all_update: "list_all P xs \<Longrightarrow> P y \<Longrightarrow> list_all P (xs[i := y])"
  by (auto simp: list_all_iff dest!: set_update_subset_insert [THEN subsetD])

lemma worker_step_length: "length (ap_workers (worker_step W i a)) = length (ap_workers a)"
  by (simp add: worker_step_def Let_def split: phase.split list.split prod.split)

lemma worker_steps_length: "length (ap_workers ((worker_step W i ^^ n) a)) = length (ap_workers a)"
  by (induction n) (simp_all add: worker_step_length)

lemma worker_step_ok:
  assumes ok: "app_ok a" and i: "i < length (ap_workers a)"
  shows "app_ok (worker_step W i a)"
proof -
  define w where "w = ap_workers a ! i"
  have w: "thread_ok w" using ok i by (simp add: app_ok_def w_def list_all_length)
  have upd: "app_ok (a\<lparr>ap_status := s, ap_disk := D, ap_workers := (ap_workers a)[i := w']\<rparr>)"
    if "thread_ok w'" "succeeded w \<longrightarrow> succeeded w'" "s = ApplyDone \<longrightarrow> succeeded w' \<or> ap_status a = ApplyDone" for s w' D
  proof -
    have "list_all thread_ok ((ap_workers a)[i := w'])" using ok that(1) by (intro list_all_update) (auto simp: app_ok_def)
    moreover have "list_ex succeeded (ap_workers a) \<Longrightarrow> list_ex succeeded ((ap_workers a)[i := w'])"
      using i that(2) by (intro list_ex_update) (auto simp: w_def)
    moreover have "succeeded w' \<Longrightarrow> list_ex succeeded ((ap_workers a)[i := w'])"
      using i by (auto simp: list_ex_length nth_list_update)
    ultimately show ?thesis using ok that(3) by (auto simp: app_ok_def)
  qed
  show ?thesis
  proof (cases "wk_phase w")
    case Spawned
    then show ?thesis using upd [of "w\<lparr>wk_phase := Running\<rparr>" Applying "ap_disk a"] w
      by (simp add: worker_step_def w_def [symmetric] thread_ok_def succeeded_def)
  next
    case Finished
    then show ?thesis using ok by (simp add: worker_step_def w_def [symmetric])
  next
    case Running
    show ?thesis
    proof (cases "wk_todo w")
      case Nil
      then show ?thesis using Running w upd [of "w\<lparr>wk_phase := Finished\<rparr>" "final_status (wk_results w)" "ap_disk a"]
        by (simp add: worker_step_def w_def [symmetric] thread_ok_def succeeded_def final_status_def split: if_splits)
    next
      case (Cons ide rest)
      obtain v D where o: "wire_one W ide (ap_disk a) = (v, D)" by (rule prod.exhaust)
      show ?thesis using Running Cons o w
          upd [of "w\<lparr>wk_todo := rest, wk_results := wk_results w @ [(di_name ide, v)]\<rparr>" "ap_status a" D]
        by (simp add: worker_step_def w_def [symmetric] thread_ok_def succeeded_def)
    qed
  qed
qed

lemma outside_ok: "app_ok a \<Longrightarrow> app_ok (a\<lparr>ap_disk := D\<rparr>)"
  by (simp add: app_ok_def)

lemma wizard_step_ok: "wizard_step S a a' \<Longrightarrow> app_ok a \<Longrightarrow> app_ok a'"
  by (erule wizard_stepE) (auto intro: frame_ok worker_step_ok outside_ok)

lemma wizard_reaches_ok: "wizard_reaches S a b \<Longrightarrow> app_ok a \<Longrightarrow> app_ok b"
  by (induction rule: wizard_reaches.induct) (auto intro: wizard_step_ok)

lemma frame_total: "app_ok a \<Longrightarrow> wizard_frame S act a \<noteq> None"
  by (auto simp: wizard_frame_def render_ide_detect_def app_ok_def state_ok_def Let_def split: screen.splits)

lemma frames_reach: "wizard_reaches S a b \<Longrightarrow> frames S xs b = Some c \<Longrightarrow> wizard_reaches S a c"
  by (induction xs arbitrary: b) (auto split: bind_splits dest: frame wizard_reaches.step)

lemma threads_reach:
  "wizard_reaches S a b \<Longrightarrow> i < length (ap_workers b) \<Longrightarrow> wizard_reaches S a ((worker_step (su_wire S) i ^^ n) b)"
proof (induction n)
  case (Suc n)
  then show ?case
    using wizard_reaches.step [OF Suc.IH wizard_step.thread [of i]] by (simp add: worker_steps_length)
qed simp

text \<open>C13: What the wizard guarantees, whatever the user clicks, however the threads interleave and whatever other
  programs do to the disk.  Past the first screen the licence is accepted, past the second a directory is named, no
  frame panics, and the last screen is reached only after a thread has finished that had every one of a non-empty
  selection of tools as its results, all wired or already so.\<close>

theorem wizard_invariant:
  assumes "wizard_reaches S (app_start local D) a"
  shows "(wz_screen (ap_wizard a) \<noteq> Welcome \<longrightarrow> license_accepted (ap_wizard a))
    \<and> (wz_screen (ap_wizard a) \<notin> {Welcome, DataDir} \<longrightarrow> wz_data_dir (ap_wizard a) \<noteq> [])
    \<and> wizard_frame S act a \<noteq> None
    \<and> (wz_screen (ap_wizard a) = ScreenDone \<longrightarrow>
        (\<exists>w \<in> set (ap_workers a). wk_phase w = Finished \<and> wk_ides w \<noteq> []
           \<and> map fst (wk_results w) = map di_name (wk_ides w) \<and> all_wired (wk_results w)))"
proof -
  have ok: "app_ok a" using wizard_reaches_ok [OF assms app_start_ok] .
  have "wz_screen (ap_wizard a) = ScreenDone \<Longrightarrow> list_ex succeeded (ap_workers a)" using ok by (simp add: app_ok_def)
  moreover have "list_all thread_ok (ap_workers a)" using ok by (simp add: app_ok_def)
  ultimately have "wz_screen (ap_wizard a) = ScreenDone \<longrightarrow>
        (\<exists>w \<in> set (ap_workers a). wk_phase w = Finished \<and> wk_ides w \<noteq> []
           \<and> map fst (wk_results w) = map di_name (wk_ides w) \<and> all_wired (wk_results w))"
    by (fastforce simp: list_ex_iff list_all_iff succeeded_def thread_ok_def)
  with ok frame_total [OF ok] show ?thesis by (auto simp: app_ok_def state_ok_def)
qed

section \<open>The thread alone\<close>

lemma worker_wires:
  assumes "i < length (ap_workers a)"
    and "ap_workers a ! i = \<lparr>wk_ides = ides, wk_phase = Running, wk_todo = todo, wk_results = rs\<rparr>"
  shows "(worker_step W i ^^ length todo) a =
    a\<lparr>ap_disk := snd (wire_all W todo (ap_disk a)),
      ap_workers := (ap_workers a)[i := \<lparr>wk_ides = ides, wk_phase = Running, wk_todo = [],
        wk_results = rs @ fst (wire_all W todo (ap_disk a))\<rparr>]\<rparr>"
  using assms
proof (induction todo arbitrary: a rs)
  case Nil
  then have "(ap_workers a)[i := \<lparr>wk_ides = ides, wk_phase = Running, wk_todo = [], wk_results = rs\<rparr>] = ap_workers a"
    by (metis list_update_id)
  then show ?case by simp
next
  case (Cons ide todo)
  obtain v D where o: "wire_one W ide (ap_disk a) = (v, D)" by (rule prod.exhaust)
  let ?w = "\<lparr>wk_ides = ides, wk_phase = Running, wk_todo = todo, wk_results = rs @ [(di_name ide, v)]\<rparr>"
  have s: "worker_step W i a = a\<lparr>ap_disk := D, ap_workers := (ap_workers a)[i := ?w]\<rparr>"
    using Cons.prems o by (simp add: worker_step_def)
  show ?case
    using Cons.prems Cons.IH [of "a\<lparr>ap_disk := D, ap_workers := (ap_workers a)[i := ?w]\<rparr>" "rs @ [(di_name ide, v)]"]
    by (simp add: funpow_Suc_right s o case_prod_beta del: funpow.simps)
qed

text \<open>C25: What pressing Apply comes to.  A thread that is not disturbed ends after one step to announce itself, one for
  each tool and one to report; it leaves the disk and the verdicts of the headless run over the same tools, and
  the status says whether all of them succeeded.\<close>

theorem apply_wires_selection:
  assumes confirm: "wz_screen (ap_wizard a) = WireConfirm" "ap_status a = Idle" "selected (ap_wizard a) \<noteq> []"
    and click: "wizard_frame S ClickApply a = Some b"
  shows "\<exists>c. c = (worker_step (su_wire S) (length (ap_workers a)) ^^ (length (selected (ap_wizard a)) + 2)) b
    \<and> wk_phase (last (ap_workers c)) = Finished
    \<and> (wk_results (last (ap_workers c)), ap_disk c) = wire_all (su_wire S) (selected (ap_wizard a)) (ap_disk a)
    \<and> ap_status c = final_status (wk_results (last (ap_workers c)))
    \<and> (ap_status c = ApplyDone \<longleftrightarrow> wc_errors (contract_of (selected (ap_wizard a)) (wk_results (last (ap_workers c)))) = [])"
proof -
  define ides where "ides = selected (ap_wizard a)"
  define n where "n = length (ap_workers a)"
  define W where "W = su_wire S"
  have b: "b = spawn_wire ides a"
    using confirm click by (simp add: wizard_frame_def render_wire_confirm_def ides_def Let_def spawn_wire_def)
  let ?b1 = "a\<lparr>ap_status := Applying, ap_workers := ap_workers a @ [\<lparr>wk_ides = ides, wk_phase = Running, wk_todo = ides, wk_results = []\<rparr>]\<rparr>"
  have s1: "worker_step W n b = ?b1" by (simp add: b worker_step_def spawn_wire_def n_def list_update_append)
  let ?rs = "fst (wire_all W ides (ap_disk a))" and ?D = "snd (wire_all W ides (ap_disk a))"
  let ?b2 = "a\<lparr>ap_status := Applying, ap_disk := ?D,
      ap_workers := ap_workers a @ [\<lparr>wk_ides = ides, wk_phase = Running, wk_todo = [], wk_results = ?rs\<rparr>]\<rparr>"
  have s2: "(worker_step W n ^^ length ides) ?b1 = ?b2"
    using worker_wires [of n ?b1 ides ides "[]" W] by (simp add: n_def list_update_append)
  let ?c = "a\<lparr>ap_status := final_status ?rs, ap_disk := ?D,
      ap_workers := ap_workers a @ [\<lparr>wk_ides = ides, wk_phase = Finished, wk_todo = [], wk_results = ?rs\<rparr>]\<rparr>"
  have s3: "worker_step W n ?b2 = ?c" by (simp add: worker_step_def n_def list_update_append)
  have c: "(worker_step W n ^^ (length ides + 2)) b = ?c"
    using s1 s2 s3 by (simp add: numeral_2_eq_2 funpow_swap1)
  have e: "final_status rs = ApplyDone \<longleftrightarrow> wc_errors (contract_of ids rs) = []" for ids rs
    by (induction rs) (auto simp: final_status_def all_wired_def contract_of_def map_filter_simps split: wire_verdict.splits if_splits)
  show ?thesis unfolding ides_def [symmetric] W_def [symmetric] n_def [symmetric] c
    by (intro exI [of _ ?c]) (simp add: e [of _ ides])
qed

text \<open>The status outlives the selection it was about.  After a successful run the user may go back, add a tool
  that was not selected, and go forward: the wizard reaches its last screen without a new thread, so nothing was
  written for that tool.\<close>

theorem done_status_goes_stale:
  assumes "wz_screen (ap_wizard a) = WireConfirm" "ap_status a = ApplyDone"
    and "i < length (detected_ides (ap_wizard a))" "length (ide_checked (ap_wizard a)) = length (detected_ides (ap_wizard a))"
    and "\<not> ide_checked (ap_wizard a) ! i"
  shows "\<exists>b. frames S [ClickBack, ToggleIde i, ClickNext, ClickNext] a = Some b \<and> wz_screen (ap_wizard b) = ScreenDone
    \<and> detected_ides (ap_wizard a) ! i \<in> set (selected (ap_wizard b))
    \<and> ap_workers b = ap_workers a \<and> ap_disk b = ap_disk a"
proof -
  let ?st = "ap_wizard a"
  define st' where "st' = ?st\<lparr>ide_checked := (ide_checked ?st)[i := True]\<rparr>"
  have sel: "detected_ides ?st ! i \<in> set (selected (st'\<lparr>wz_screen := s\<rparr>))" for s
    using assms by (auto simp: selected_def st'_def map_filter_def image_iff in_set_enumerate_eq intro!: exI [of _ i])
  then have ne: "selected (st'\<lparr>wz_screen := s\<rparr>) \<noteq> []" for s by (metis empty_iff list.set(1))
  have d: "detected_ides ?st \<noteq> []" using assms(3) by auto
  have "wizard_frame S ClickBack a = Some (go_to IdeDetect a)"
    using assms(1,2) by (simp add: wizard_frame_def render_wire_confirm_def Let_def go_to_def)
  moreover have "wizard_frame S (ToggleIde i) (go_to IdeDetect a) = Some (a\<lparr>ap_wizard := st'\<lparr>wz_screen := IdeDetect\<rparr>\<rparr>)"
    using assms d by (simp add: wizard_frame_def go_to_def render_ide_detect_def Let_def nav_row_def st'_def)
  moreover have "wizard_frame S ClickNext (a\<lparr>ap_wizard := st'\<lparr>wz_screen := IdeDetect\<rparr>\<rparr>) = Some (a\<lparr>ap_wizard := st'\<lparr>wz_screen := WireConfirm\<rparr>\<rparr>)"
    using assms d by (simp add: wizard_frame_def render_ide_detect_def Let_def nav_row_def can_advance_def st'_def)
  moreover have "wizard_frame S ClickNext (a\<lparr>ap_wizard := st'\<lparr>wz_screen := WireConfirm\<rparr>\<rparr>) = Some (a\<lparr>ap_wizard := st'\<lparr>wz_screen := ScreenDone\<rparr>\<rparr>)"
    using assms(2) ne by (simp add: wizard_frame_def render_wire_confirm_def Let_def go_to_def)
  ultimately show ?thesis using sel by simp
qed

text \<open>Until the thread has started the status is still idle, so a second click spawns a second one.\<close>

lemma apply_twice:
  assumes "wz_screen (ap_wizard a) = WireConfirm" "ap_status a = Idle" "selected (ap_wizard a) \<noteq> []"
  shows "\<exists>b. frames S [ClickApply, ClickApply] a = Some b \<and> length (ap_workers b) = length (ap_workers a) + 2"
  using assms by (simp add: wizard_frame_def render_wire_confirm_def spawn_wire_def Let_def)

text \<open>The directory the user chose has no effect on what a thread does.\<close>

lemma directory_is_not_used:
  "worker_step W i (a\<lparr>ap_wizard := (ap_wizard a)\<lparr>wz_data_dir := d\<rparr>\<rparr>) =
     (worker_step W i a)\<lparr>ap_wizard := (ap_wizard a)\<lparr>wz_data_dir := d\<rparr>\<rparr>"
  by (simp add: worker_step_def Let_def split: phase.split list.split prod.split)

section \<open>A concrete run\<close>

text \<open>Cursor is installed and already holds the entry; the program lies in \<open>/opt/amore\<close>.\<close>

definition sample_entry :: json where
  "sample_entry = JObj [(''args'', JArr [JStr ''--stdio'']), (''command'', JStr ''/opt/amore/amore-mcp''), (''env'', JObj [])]"

definition sample_install :: installation where
  "sample_install = \<lparr>in_os = LinuxOs, in_exe = Inr ''/opt/amore/amore-gui'', in_canonical = (\<lambda>_. None),
     in_exists = (\<lambda>p. p = ''/opt/amore/amore-mcp''), in_env = []\<rparr>"

definition sample_surroundings :: surroundings where
  "sample_surroundings =
     \<lparr>su_wire = \<lparr>ww_install = sample_install,
        ww_json = one_doc_codec (JObj [(''mcpServers'', JObj [(''amore'', sample_entry)])]),
        ww_yaml = one_doc_codec YNull, ww_faults = (\<lambda>_. no_wire_faults)\<rparr>,
      su_home = Some ''/h'', su_roaming = None, su_run = (\<lambda>_ _. None)\<rparr>"

definition sample_disk :: disk where
  "sample_disk = \<lparr>wd_files = [''/h/.cursor/mcp.json'' \<mapsto> Some ''doc''], wd_private = {}\<rparr>"

definition cursor :: detected_ide where
  "cursor = \<lparr>di_name = ''Cursor'', di_path = ''/h/.cursor/mcp.json'', di_format = JsonFormat\<rparr>"

lemma sample_found: "found_now sample_surroundings sample_disk = [cursor]"
  by (simp add: found_now_def sample_surroundings_def sample_install_def sample_disk_def detect_with_roots_def detect_claude_desktop_def
      detect_claude_code_def detect_cursor_def detect_cline_def detect_continue_ide_def detect_at_def on_disk_def
      path_join_def cursor_def map_filter_simps)

lemma sample_path: "resolve_amore_mcp_path sample_install = Inr ''/opt/amore/amore-mcp''"
  by (simp add: resolve_amore_mcp_path_def sample_install_def parent_dir_def last_component_def allow_user_install_def
      env_var_def is_system_protected_dir_def exe_suffix_def starts_with_def)

lemma sample_wire: "wire_one (su_wire sample_surroundings) cursor sample_disk = (SkippedNoChange, sample_disk)"
  by (simp add: wire_one_def cursor_def wire_json_def sample_surroundings_def sample_disk_def one_doc_codec_def
      wire_json_root_def amore_mcp_entry_object_def sample_path sample_entry_def obj_or_insert_def)

definition sample_confirm :: app where
  "sample_confirm =
     (app_start (Some ''/d'') sample_disk)\<lparr>ap_wizard :=
        (wizard_new (Some ''/d''))\<lparr>wz_screen := WireConfirm, license_accepted := True, detected_ides := [cursor], ide_checked := [True]\<rparr>\<rparr>"

lemma sample_confirm_frames:
  "frames sample_surroundings [ToggleLicense, ClickNext, ClickNext, ClickNext, ClickNext] (app_start (Some ''/d'') sample_disk)
     = Some sample_confirm"
  using sample_found
  by (simp add: wizard_frame_def app_start_def wizard_new_def render_welcome_def render_data_dir_def render_bundled_deps_def
      render_ide_detect_def nav_row_def can_advance_def Let_def sample_confirm_def free_space_bytes_def path_join_def
      sample_surroundings_def)

lemma sample_selected: "selected (ap_wizard sample_confirm) = [cursor]"
  by (simp add: selected_def sample_confirm_def map_filter_simps)

lemma sample_fields: "wz_screen (ap_wizard sample_confirm) = WireConfirm" "ap_status sample_confirm = Idle"
    "ap_workers sample_confirm = []" "ap_disk sample_confirm = sample_disk"
  by (simp_all add: sample_confirm_def app_start_def)

definition sample_end :: app where
  "sample_end = sample_confirm\<lparr>ap_wizard := (ap_wizard sample_confirm)\<lparr>wz_screen := ScreenDone\<rparr>, ap_status := ApplyDone,
     ap_workers := [\<lparr>wk_ides = [cursor], wk_phase = Finished, wk_todo = [], wk_results = [(''Cursor'', SkippedNoChange)]\<rparr>]\<rparr>"

lemma sample_apply:
  "wizard_frame sample_surroundings ClickApply sample_confirm = Some (spawn_wire [cursor] sample_confirm)"
  by (simp add: wizard_frame_def render_wire_confirm_def spawn_wire_def Let_def sample_selected sample_fields)

lemma sample_reaches: "wizard_reaches sample_surroundings (app_start (Some ''/d'') sample_disk) sample_end"
proof -
  let ?S = sample_surroundings
  let ?b = "spawn_wire [cursor] sample_confirm"
  let ?c = "sample_end\<lparr>ap_wizard := ap_wizard sample_confirm\<rparr>"
  have "wizard_reaches ?S (app_start (Some ''/d'') sample_disk) sample_confirm"
    using frames_reach [OF wizard_reaches.here sample_confirm_frames] .
  then have "wizard_reaches ?S (app_start (Some ''/d'') sample_disk) ?b"
    by (rule wizard_reaches.step [OF _ wizard_step.frame [OF sample_apply]])
  then have "wizard_reaches ?S (app_start (Some ''/d'') sample_disk) ((worker_step (su_wire ?S) 0 ^^ 3) ?b)"
    by (rule threads_reach) (simp add: spawn_wire_def)
  moreover have "(worker_step (su_wire ?S) 0 ^^ 3) ?b = ?c"
    using sample_wire
    by (simp add: numeral_3_eq_3 worker_step_def spawn_wire_def sample_end_def sample_confirm_def app_start_def final_status_def
        all_wired_def) (simp add: cursor_def)
  ultimately have "wizard_reaches ?S (app_start (Some ''/d'') sample_disk) ?c" by simp
  moreover have "wizard_frame ?S ClickNext ?c = Some sample_end"
    by (simp add: wizard_frame_def render_wire_confirm_def go_to_def Let_def sample_end_def sample_selected sample_fields)
  ultimately show ?thesis by (metis wizard_reaches.step wizard_step.frame)
qed

lemma wizard_invariant_witness:
  "wz_screen (ap_wizard sample_end) = ScreenDone \<and> license_accepted (ap_wizard sample_end)"
proof -
  have "wz_screen (ap_wizard sample_end) = ScreenDone" by (simp add: sample_end_def)
  then show ?thesis using wizard_invariant [OF sample_reaches, of Nothing] by simp
qed

lemma apply_wires_selection_witness:
  "\<exists>c :: app. ap_status c = final_status (wk_results (last (ap_workers c)))
    \<and> (wk_results (last (ap_workers c)), ap_disk c) = wire_all (su_wire sample_surroundings) [cursor] sample_disk"
proof -
  have "[cursor] \<noteq> []" by simp
  with apply_wires_selection [OF sample_fields(1,2) _ sample_apply, unfolded sample_selected sample_fields]
  show ?thesis by blast
qed

lemma done_status_goes_stale_witness:
  "\<exists>b. frames sample_surroundings [ClickBack, ToggleIde 0, ClickNext, ClickNext]
      (sample_confirm\<lparr>ap_status := ApplyDone, ap_wizard := (ap_wizard sample_confirm)\<lparr>ide_checked := [False]\<rparr>\<rparr>) = Some b
    \<and> cursor \<in> set (selected (ap_wizard b))"
  using done_status_goes_stale
    [of "sample_confirm\<lparr>ap_status := ApplyDone, ap_wizard := (ap_wizard sample_confirm)\<lparr>ide_checked := [False]\<rparr>\<rparr>" 0 sample_surroundings]
  by (fastforce simp: sample_confirm_def)

end
