(* ===== verification/Tray.thy ===== *)
theory Tray
  imports GuiWire
begin

text \<open>
  The tray icon of the desktop program, \<open>crates/amore-gui/src/tray.rs\<close>, and the dispatch of the program's
  arguments in its \<open>main.rs\<close>.  What reaches the user, a page opened, a line on standard error or in the log, is an
  output; the menu library, the HTTP client and the commands that ask about auto-start are inputs.
\<close>

section \<open>Menu\<close>

datatype tray_output =
    Opened string
  | Printed string
  | Logged string
  | CheckStarted

definition build_menu :: "(string \<times> string) option list" where
  "build_menu =
     [Some (''dashboard'', ''Open dashboard''), None,
      Some (''pause'', ''Pause''), Some (''resume'', ''Resume''), None,
      Some (''recent'', ''Recent activity''), Some (''updates'', ''Check for updates''), None,
      Some (''quit'', ''Quit'')]"

definition handle_menu_event :: "string \<Rightarrow> bool \<times> tray_output list" where
  "handle_menu_event item =
     (if item = ''dashboard'' then (False, [Opened ''http://localhost:3111''])
      else if item = ''pause'' then (False, [Printed ''[amore-tray] pause requested''])
      else if item = ''resume'' then (False, [Printed ''[amore-tray] resume requested''])
      else if item = ''recent'' then (False, [Printed ''[amore-tray] recent activity requested''])
      else if item = ''updates'' then (False, [CheckStarted])
      else if item = ''quit'' then (True, [])
      else (False, []))"

definition load_tray_icon :: "u8 list" where
  "load_tray_icon = concat (replicate (16 * 16) [138, 43, 226, 255])"

text \<open>What building the menu and the icon came to.\<close>

definition spawn_tray :: "(string + unit) \<Rightarrow> (string + unit) \<Rightarrow> tray_output list \<Rightarrow> string + tray_output list" where
  "spawn_tray menu tray autostart =
     (case menu of
        Inl e \<Rightarrow> Inl (''menu build failed: '' @ e)
      | Inr _ \<Rightarrow>
          (case tray of Inl e \<Rightarrow> Inl (''tray icon build failed: '' @ e) | Inr _ \<Rightarrow> Inr autostart))"

text \<open>The polls of the loop, one event at most each; the flag says whether it has ended.\<close>

fun tray_loop :: "string option list \<Rightarrow> bool \<times> tray_output list" where
  "tray_loop [] = (False, [])"
| "tray_loop (None # polls) = tray_loop polls"
| "tray_loop (Some item # polls) =
     (let (quit, outs) = handle_menu_event item
      in if quit then (True, outs) else (let (e, os) = tray_loop polls in (e, outs @ os)))"

definition run_tray_loop ::
  "(string + unit) \<Rightarrow> (string + unit) \<Rightarrow> tray_output list \<Rightarrow> string option list \<Rightarrow> string + (bool \<times> tray_output list)" where
  "run_tray_loop menu tray autostart polls =
     (case spawn_tray menu tray autostart of
        Inl e \<Rightarrow> Inl e
      | Inr outs \<Rightarrow> (let (e, os) = tray_loop polls in Inr (e, outs @ os)))"

section \<open>Auto-start\<close>

definition windows_autostart_check :: "bool \<Rightarrow> tray_output" where
  "windows_autostart_check success =
     (if success then Printed ''[amore-tray] auto-start is enabled (Run registry key present)''
      else Printed (''[amore-tray] auto-start not set (Run registry key absent '' @ [CHR 0xE2, CHR 0x80, CHR 0x94]
        @ '' expected on first run; MSI sets it)''))"

definition linux_autostart_check :: "bool \<Rightarrow> tray_output" where
  "linux_autostart_check success =
     (if success then Printed ''[amore-tray] systemd unit amore-tray.service is active''
      else Printed ''[amore-tray] Run: systemctl --user enable --now amore-tray.service  to auto-start at login'')"

definition login_hint :: string where
  "login_hint = ''To start Amore at login: System Settings > General > Login Items > add Amore''"

definition first_run_note :: string where
  "first_run_note = ''Amore first-run note:'' @ [CHR 0x0A] @ login_hint @ [CHR 0x0A, CHR 0x0A]
     @ ''You can delete this file '' @ [CHR 0xE2, CHR 0x80, CHR 0x94] @ '' it will not be recreated.'' @ [CHR 0x0A]"

text \<open>The last argument says whether the note can be written.\<close>

definition macos_autostart_hint :: "string option \<Rightarrow> bool \<Rightarrow> file_system \<Rightarrow> tray_output list \<times> file_system" where
  "macos_autostart_hint config_dir writable fs =
     ([Logged (''[amore-tray] '' @ login_hint)],
      case config_dir of
        None \<Rightarrow> fs
      | Some dir \<Rightarrow>
          (let first_run = path_join dir [''amore'', ''first-run.txt'']
           in if fs first_run = None \<and> writable then fs(first_run \<mapsto> Some first_run_note) else fs))"

section \<open>Looking for updates\<close>

definition tag_char :: "char \<Rightarrow> bool" where
  "tag_char c \<longleftrightarrow> is_alnum c \<or> c = CHR ''.'' \<or> c = CHR ''-'' \<or> c = CHR ''_''"

definition sanitize_tag_name :: "string \<Rightarrow> string option" where
  "sanitize_tag_name raw = (if raw = [] then None else if list_all tag_char raw then Some raw else None)"

datatype release_reply =
    NoClient string
  | NoReply string
  | Status nat
  | BadBody string
  | Body json

definition check_for_updates :: "string \<Rightarrow> release_reply \<Rightarrow> tray_output" where
  "check_for_updates current reply =
     (case reply of
        NoClient e \<Rightarrow> Logged ''update check: failed to build HTTP client''
      | NoReply e \<Rightarrow> Logged ''update check failed (no network or GitHub unreachable)''
      | Status c \<Rightarrow> Logged ''update check: GitHub API returned non-success status''
      | BadBody e \<Rightarrow> Logged ''update check: failed to parse JSON response''
      | Body json \<Rightarrow>
          (let raw = (case Option.bind (Option.bind (as_object json) (\<lambda>m. map_of m ''tag_name'')) as_str of
                        Some s \<Rightarrow> s | None \<Rightarrow> [])
           in case sanitize_tag_name raw of
                None \<Rightarrow> Logged (''update check: tag_name failed sanitization '' @ [CHR 0xE2, CHR 0x80, CHR 0x94]
                  @ '' contains non-alphanumeric characters or is empty'')
              | Some latest \<Rightarrow>
                  if latest \<noteq> ''v'' @ current then Logged ''update available'' else Logged ''up to date''))"

section \<open>The program's arguments\<close>

datatype gui_run =
    GuiPrints string
  | GuiTray
  | GuiAutoWire
  | GuiWizard

definition gui_usage :: string where
  "gui_usage = join_with [CHR 0x0A]
     [''amore-gui '' @ [CHR 0xE2, CHR 0x80, CHR 0x94] @ '' first-run setup wizard for Amore'', [], ''Usage:'',
      ''  amore-gui              Launch the GUI wizard'',
      ''  amore-gui --tray       Run as system tray icon (MSI auto-start path)'',
      ''  amore-gui --version    Print version and exit'',
      ''  amore-gui --help       Print this help and exit'',
      ''  amore-gui --no-gui     Print config summary as JSON and exit (CI smoke)'',
      ''  amore-gui --auto-wire  Detect IDEs and wire MCP config; emit JSON contract and exit'', []]"

definition config_summary :: "string \<Rightarrow> json" where
  "config_summary version = JObj [(''ide_count'', JNum 5), (''ready'', JBool True), (''version'', JStr version)]"

text \<open>The program without its own name; each printed text goes to both standard streams.\<close>

definition gui_dispatch :: "string \<Rightarrow> (json \<Rightarrow> string) \<Rightarrow> string list \<Rightarrow> gui_run" where
  "gui_dispatch version render args =
     (case args of
        [] \<Rightarrow> GuiWizard
      | a # _ \<Rightarrow>
          if a = ''--version'' then GuiPrints (''amore-gui '' @ version)
          else if a = ''--help'' then GuiPrints gui_usage
          else if a = ''--no-gui'' then GuiPrints (render (config_summary version))
          else if a = ''--tray'' then GuiTray
          else if a = ''--auto-wire'' then GuiAutoWire
          else GuiWizard)"

section \<open>Lemmas\<close>

lemma every_item_handled:
  "(item, label) \<in> set (map the (filter (\<lambda>x. x \<noteq> None) build_menu)) \<Longrightarrow> item \<noteq> ''quit'' \<Longrightarrow> snd (handle_menu_event item) \<noteq> []"
  by (auto simp: build_menu_def handle_menu_event_def)

lemma only_quit_quits: "fst (handle_menu_event item) \<longleftrightarrow> item = ''quit''"
  by (simp add: handle_menu_event_def)

text \<open>The loop ends with the first click on Quit, having answered the clicks before it in their order.\<close>

lemma tray_loop_upto_quit:
  "tray_loop polls =
     (Some ''quit'' \<in> set polls,
      concat (map (\<lambda>p. case p of None \<Rightarrow> [] | Some item \<Rightarrow> snd (handle_menu_event item)) (takeWhile (\<lambda>p. p \<noteq> Some ''quit'') polls)))"
proof (induction polls)
  case (Cons p polls)
  show ?case
  proof (cases p)
    case (Some item)
    then show ?thesis using Cons only_quit_quits [of item] by (cases "handle_menu_event item") (auto simp: handle_menu_event_def)
  qed (use Cons in simp)
qed simp

lemma sanitized_tag: "sanitize_tag_name raw = Some t \<longleftrightarrow> t = raw \<and> raw \<noteq> [] \<and> list_all tag_char raw"
  by (auto simp: sanitize_tag_name_def)

lemma icon_is_square: "length load_tray_icon = 16 * 16 * 4"
  by (simp add: load_tray_icon_def length_concat sum_list_replicate)

text \<open>The note is written again after it was deleted, although it says it is not.\<close>

lemma note_is_recreated:
  "snd (macos_autostart_hint (Some dir) True ((snd (macos_autostart_hint (Some dir) True fs))
     (path_join dir [''amore'', ''first-run.txt''] := None))) (path_join dir [''amore'', ''first-run.txt'']) = Some (Some first_run_note)"
  by (simp add: macos_autostart_hint_def Let_def)

text \<open>A newer tag, an older one and one that is not a version are all announced as an update.\<close>

lemma update_is_any_other_tag:
  "check_for_updates current (Body (JObj [(''tag_name'', JStr t)])) = Logged ''update available'' \<longleftrightarrow>
     t \<noteq> [] \<and> list_all tag_char t \<and> t \<noteq> ''v'' @ current"
  by (simp add: check_for_updates_def sanitize_tag_name_def Let_def)

end
