(* ===== verification/Installer.thy ===== *)
theory Installer
  imports Prelude Float32
begin

text \<open>
  The silent installation of Ollama by the desktop program, \<open>crates/amore-gui/src/install.rs\<close>: download, integrity
  check, installer, wait.  The type of the status is not declared in the repository and the module is not part of
  the crate (\<open>lib.rs\<close> does not name it); the constructors here are the four it uses.  SHA-256, the network, the
  disk and the installed program are inputs.
\<close>

section \<open>Definitions\<close>

datatype dep_status = Downloading rat | Installing | DepReady | DepFailed string

definition PROBE_ATTEMPTS :: nat where
  "PROBE_ATTEMPTS = 30"

definition OLLAMA_INSTALLER_SHA256 :: string where
  "OLLAMA_INSTALLER_SHA256 = ''38ef4715a31b6fede8f37be840c5e1e1524150d2c637d1acca94227980daf300''"

text \<open>The outside world.  A reply is its status code and its announced length; a read is an error or some bytes, none
  at the end.  Running a file gives an error or an exit code, if it has one.\<close>

record installer_world =
  iw_sha256 :: "bytes \<Rightarrow> bytes"
  iw_client :: "string + unit"
  iw_reply :: "string + (nat \<times> nat option)"
  iw_create :: "string + unit"
  iw_reads :: "(string + bytes) list"
  iw_write :: "nat \<Rightarrow> string + unit"
  iw_run :: "bytes \<Rightarrow> string + int option"
  iw_probe :: "nat \<Rightarrow> nat option"

definition success :: "nat \<Rightarrow> bool" where
  "success code \<longleftrightarrow> 200 \<le> code \<and> code < 300"

definition percent_of :: "nat \<Rightarrow> nat \<Rightarrow> rat" where
  "percent_of written total_len = (let q = fdiv (f32 (of_nat written)) (f32 (of_nat total_len)) in max 0 (min 1 q))"

text \<open>The loop: the statuses it pushes, and the bytes of the file or the error.  \<open>k\<close> counts the writes.\<close>

fun download_loop ::
  "installer_world \<Rightarrow> nat \<Rightarrow> (string + bytes) list \<Rightarrow> nat \<Rightarrow> nat \<Rightarrow> rat \<Rightarrow> bytes \<Rightarrow> dep_status list \<times> (string + bytes)" where
  "download_loop W total_len [] k written last_pct got = ([], Inr got)"
| "download_loop W total_len (Inl e # reads) k written last_pct got =
     ([], Inl (''Download interrupted ('' @ e @ ''). Please check your internet connection.''))"
| "download_loop W total_len (Inr b # reads) k written last_pct got =
     (if b = [] then ([], Inr got)
      else case iw_write W k of
          Inl e \<Rightarrow> ([], Inl (''Couldn't save the installer file ('' @ e @ ''). Is your disk full?''))
        | Inr _ \<Rightarrow>
            (let written = written + length b; pct = percent_of written total_len;
                 push = 0 < total_len \<and> f32 (1 / 100) \<le> f32 (pct - last_pct);
                 (hist, r) = download_loop W total_len reads (k + 1) written (if push then pct else last_pct) (got @ b)
             in ((if push then [Downloading pct] else []) @ hist, r)))"

definition eq_ignore_ascii_case :: "string \<Rightarrow> string \<Rightarrow> bool" where
  "eq_ignore_ascii_case a b \<longleftrightarrow> to_lowercase a = to_lowercase b"

definition integrity_message :: string where
  "integrity_message = ''Ollama installer integrity check failed. The downloaded file doesn't match the expected fingerprint. ''
     @ ''This could mean the download was corrupted, tampered with in transit, or Ollama released a new version that ''
     @ ''Amore hasn't been updated for yet. Please retry, or report this to amore.dev/security if it persists.''"

text \<open>The statuses pushed and the file, if there is one to run.\<close>

definition download :: "installer_world \<Rightarrow> dep_status list \<times> bytes option" where
  "download W =
     (case iw_reply W of
        Inl e \<Rightarrow> ([DepFailed (''Couldn't reach ollama.com ('' @ e @ ''). Please check your internet connection.'')], None)
      | Inr (code, len) \<Rightarrow>
          if \<not> success code
          then ([DepFailed (''Couldn't download Ollama (server returned '' @ dec_nat code @ ''). Try again in a minute.'')], None)
          else case iw_create W of
              Inl e \<Rightarrow> ([DepFailed (''Couldn't create the installer file ('' @ e @ '').'')], None)
            | Inr _ \<Rightarrow>
                (let (hist, r) = download_loop W (case len of Some n \<Rightarrow> n | None \<Rightarrow> 0) (iw_reads W) 0 0 (- 1) []
                 in case r of
                      Inl msg \<Rightarrow> (hist @ [DepFailed msg], None)
                    | Inr got \<Rightarrow>
                        if eq_ignore_ascii_case (hex_encode (iw_sha256 W got)) OLLAMA_INSTALLER_SHA256
                        then (hist, Some got) else (hist @ [DepFailed integrity_message], None)))"

definition dec_int :: "int \<Rightarrow> string" where
  "dec_int i = (if i < 0 then ''-'' @ dec_nat (nat (- i)) else dec_nat (nat i))"

definition run_installer :: "installer_world \<Rightarrow> bytes \<Rightarrow> dep_status list \<times> bool" where
  "run_installer W prog =
     (case iw_run W prog of
        Inr code \<Rightarrow>
          (if code = Some 0 then ([], True)
           else ([DepFailed (''The Ollama installer didn't finish cleanly (exit code ''
             @ dec_int (case code of Some c \<Rightarrow> c | None \<Rightarrow> - 1) @ '').'')], False))
      | Inl e \<Rightarrow> ([DepFailed (''Couldn't run the Ollama installer ('' @ e @ '').'')], False))"

fun probe_loop :: "(nat \<Rightarrow> nat option) \<Rightarrow> nat \<Rightarrow> nat \<Rightarrow> bool" where
  "probe_loop probe 0 k = False"
| "probe_loop probe (Suc n) k = (case probe k of Some c \<Rightarrow> success c \<or> probe_loop probe n (k + 1) | None \<Rightarrow> probe_loop probe n (k + 1))"

definition wait_ready :: "installer_world \<Rightarrow> bool" where
  "wait_ready W = probe_loop (iw_probe W) PROBE_ATTEMPTS 0"

text \<open>The statuses in order, and what was executed.\<close>

definition install_run :: "installer_world \<Rightarrow> dep_status list \<times> bytes option" where
  "install_run W =
     (let start = [Downloading 0] in
      case iw_client W of
        Inl e \<Rightarrow> (start @ [DepFailed (''Couldn't start the downloader ('' @ e @ ''). Please check your internet connection.'')], None)
      | Inr _ \<Rightarrow>
          (case download W of
             (hist, None) \<Rightarrow> (start @ hist, None)
           | (hist, Some prog) \<Rightarrow>
               (case run_installer W prog of
                  (hist2, False) \<Rightarrow> (start @ hist @ [Installing] @ hist2, Some prog)
                | (hist2, True) \<Rightarrow>
                    (start @ hist @ [Installing] @ hist2
                     @ [if wait_ready W then DepReady
                        else DepFailed ''Ollama installed but didn't start within 60 seconds. Try opening Ollama from your Start menu.''],
                     Some prog))))"

section \<open>The download\<close>

text \<open>The bytes the reads yield before the end of the body.\<close>

fun body_of :: "(string + bytes) list \<Rightarrow> bytes" where
  "body_of (Inr b # reads) = (if b = [] then [] else b @ body_of reads)"
| "body_of _ = []"

lemma download_loop_body:
  "snd (download_loop W total_len reads k written last_pct got) = Inr f \<Longrightarrow> f = got @ body_of reads"
  by (induction W total_len reads k written last_pct got rule: download_loop.induct)
     (auto simp: Let_def case_prod_beta split: if_splits sum.splits)

definition is_progress :: "dep_status \<Rightarrow> bool" where
  "is_progress s \<longleftrightarrow> (\<exists>p. s = Downloading p \<and> 0 \<le> p \<and> p \<le> 1)"

lemma percent_bounds: "0 \<le> percent_of w t" "percent_of w t \<le> 1"
  by (simp_all add: percent_of_def Let_def)

lemma percent_mono:
  assumes "v \<le> w"
  shows "percent_of v t \<le> percent_of w t"
proof -
  have "f32 (of_nat v) / f32 (of_nat t) \<le> f32 (of_nat w) / f32 (of_nat t)"
    using assms by (intro divide_right_mono f32_mono f32_nonneg) simp_all
  then have "fdiv (f32 (of_nat v)) (f32 (of_nat t)) \<le> fdiv (f32 (of_nat w)) (f32 (of_nat t))"
    by (intro f32_mono) simp_all
  then show ?thesis by (simp add: percent_of_def Let_def max.mono min.mono)
qed

lemma cent_gap: "f32 (99 / 10000) < f32 (1 / 100)"
  by code_simp

lemma push_gap:
  assumes "f32 (1 / 100) \<le> f32 (p - l)" and "l \<le> p"
  shows "99 / 10000 < p - l"
proof (rule ccontr)
  assume "\<not> ?thesis"
  then have "f32 (p - l) \<le> f32 (99 / 10000)" using assms(2) by (intro f32_mono) simp_all
  with cent_gap assms(1) show False by simp
qed

text \<open>The progress the loop reports: between 0 and 1, and each report nearly one percent above the last.\<close>

fun progress_from :: "rat \<Rightarrow> dep_status list \<Rightarrow> bool" where
  "progress_from l [] = True"
| "progress_from l (s # ss) = (case s of Downloading p \<Rightarrow> l + 99 / 10000 < p \<and> 0 \<le> p \<and> p \<le> 1 \<and> progress_from p ss | _ \<Rightarrow> False)"

lemma download_loop_progress:
  assumes "last_pct \<le> percent_of written total_len"
  shows "progress_from last_pct (fst (download_loop W total_len reads k written last_pct got))"
  using assms
proof (induction W total_len reads k written last_pct got rule: download_loop.induct)
  case (3 W total_len b reads k written last_pct got)
  let ?w = "written + length b"
  have le: "last_pct \<le> percent_of ?w total_len"
    using 3(2) percent_mono [of written ?w total_len] by simp
  note gap = push_gap [OF _ le]
  show ?case
  proof (cases "iw_write W k")
    case (Inr u)
    then show ?thesis
      using 3 le gap percent_bounds [of ?w total_len] by (auto simp: Let_def case_prod_beta)
  qed simp
qed simp_all

lemma progress_length: "progress_from l ss \<Longrightarrow> l \<le> 1 \<Longrightarrow> of_nat (length ss) * (99 / 10000) \<le> 1 - l"
proof (induction l ss rule: progress_from.induct)
  case (2 l s ss)
  then obtain p where "s = Downloading p" "l + 99 / 10000 < p" "p \<le> 1" "progress_from p ss"
    by (auto split: dep_status.splits)
  with 2 show ?case by (simp add: field_simps)
qed simp

definition downloads :: "dep_status list \<Rightarrow> dep_status list" where
  "downloads hist = filter (\<lambda>s. case s of Downloading _ \<Rightarrow> True | _ \<Rightarrow> False) hist"

lemma progress_downloads: "progress_from l ss \<Longrightarrow> downloads ss = ss"
  by (induction l ss rule: progress_from.induct) (auto simp: downloads_def split: dep_status.splits)

lemma download_loop_reports: "length (fst (download_loop W total_len reads 0 0 (- 1) [])) \<le> 102"
proof -
  have "progress_from (- 1) (fst (download_loop W total_len reads 0 0 (- 1) []))"
    using percent_bounds(1) [of 0 total_len] by (intro download_loop_progress) linarith
  then show ?thesis
  proof (cases "fst (download_loop W total_len reads 0 0 (- 1) [])")
    case (Cons s ss)
    then obtain p where "0 \<le> p" "p \<le> 1" "progress_from p ss"
      using \<open>progress_from _ _\<close> by (auto split: dep_status.splits)
    then have "of_nat (length ss) * (99 / 10000) \<le> (1 :: rat)" using progress_length [of p ss] by simp
    then have "of_nat (length ss) < (of_nat 102 :: rat)" by simp
    then have "length ss < 102" by (simp only: of_nat_less_iff)
    then show ?thesis using Cons by simp
  qed simp
qed

lemma lower_hex_digit: "d < 16 \<Longrightarrow> lower_char (hex_digit d) = hex_digit d"
  by (auto simp: lower_char_def hex_digit_def is_upper_def Let_def)

lemma lower_hex: "to_lowercase (hex_encode bs) = hex_encode bs"
proof (induction bs)
  case (Cons b bs)
  have "of_char b div 16 < (16 :: nat)" by (simp add: less_mult_imp_div_less)
  with Cons show ?case by (simp add: hex_encode_def to_lowercase_def hex_byte_def Let_def lower_hex_digit)
qed (simp add: hex_encode_def to_lowercase_def)

lemma lower_pin: "to_lowercase OLLAMA_INSTALLER_SHA256 = OLLAMA_INSTALLER_SHA256"
  by code_simp

lemma probe_loop_iff: "probe_loop probe n k \<longleftrightarrow> (\<exists>j. k \<le> j \<and> j < k + n \<and> (\<exists>c. probe j = Some c \<and> success c))"
proof (induction n arbitrary: k)
  case (Suc n)
  have "probe_loop probe (Suc n) k \<longleftrightarrow> (\<exists>c. probe k = Some c \<and> success c) \<or> probe_loop probe n (k + 1)"
    by (simp split: option.split)
  moreover have "k \<le> j \<and> j < k + Suc n \<longleftrightarrow> j = k \<or> (k + 1 \<le> j \<and> j < k + 1 + n)" for j by auto
  ultimately show ?case unfolding Suc by metis
qed simp

lemma download_verified:
  "snd (download W) = Some prog \<Longrightarrow> prog = body_of (iw_reads W) \<and> hex_encode (iw_sha256 W prog) = OLLAMA_INSTALLER_SHA256"
  by (auto simp: download_def eq_ignore_ascii_case_def lower_hex lower_pin Let_def case_prod_beta dest: download_loop_body
      split: sum.splits if_splits)


text \<open>The reports of progress are few, however many reads the body takes.\<close>

lemma progress_reports_bounded: "length (downloads (fst (install_run W))) \<le> 103"
proof -
  obtain hist r where d: "download W = (hist, r)" by (rule prod.exhaust)
  have "length (downloads hist) \<le> 102"
  proof -
    have "downloads hist = [] \<or> (\<exists>t. downloads hist = downloads (fst (download_loop W t (iw_reads W) 0 0 (- 1) [])))"
      using d by (auto simp: download_def Let_def case_prod_beta downloads_def split: sum.splits if_splits)
    moreover have "length (downloads xs) \<le> length xs" for xs by (simp add: downloads_def)
    ultimately show ?thesis using download_loop_reports [of W] by (metis le_trans list.size(3) zero_le)
  qed
  then show ?thesis using d
    by (auto simp: install_run_def Let_def downloads_def run_installer_def split: sum.splits option.splits)
qed

end
