(* ===== verification/I18n.thy ===== *)
theory I18n
  imports Prelude
begin

text \<open>
  The translations of the user interface, \<open>crates/amore-i18n/src/lib.rs\<close>: the language of a locale tag, the bundle of
  a language, and the look-up with its fall-back.  The Fluent library is a parameter: it parses the embedded text
  of a language into message ids with an optional pattern, and formats a pattern with arguments.
\<close>

section \<open>Languages\<close>

datatype lang = En | Fr | Nl | De | Ar

definition from_locale :: "string \<Rightarrow> lang" where
  "from_locale s =
     (let tag = to_lowercase (hd (split_on (\<lambda>c. c = CHR ''_'' \<or> c = CHR ''-'') s))
      in if tag = ''fr'' then Fr
         else if tag = ''nl'' then Nl
         else if tag = ''de'' then De
         else if tag = ''ar'' then Ar
         else En)"

fun bcp47 :: "lang \<Rightarrow> string" where
  "bcp47 En = ''en''"
| "bcp47 Fr = ''fr''"
| "bcp47 Nl = ''nl''"
| "bcp47 De = ''de''"
| "bcp47 Ar = ''ar''"

section \<open>Bundles\<close>

record 'p fluent =
  fl_source :: "lang \<Rightarrow> string"
  fl_parse :: "string \<Rightarrow> string + (string \<times> 'p option) list"
  fl_format :: "'p \<Rightarrow> (string \<rightharpoonup> string) \<Rightarrow> string"

datatype i18n_error =
    LangId string
  | FtlParse string
  | KeyNotFound string string

record 'p i18n =
  in_lang :: lang
  in_bundle :: "(string \<times> 'p option) list"

text \<open>\<open>None\<close> is a panic: the text does not parse, or an id occurs twice.\<close>

definition i18n_new :: "'p fluent \<Rightarrow> lang \<Rightarrow> 'p i18n option" where
  "i18n_new F l =
     (case fl_parse F (fl_source F l) of
        Inl e \<Rightarrow> None
      | Inr msgs \<Rightarrow> if distinct (map fst msgs) then Some \<lparr>in_lang = l, in_bundle = msgs\<rparr> else None)"

definition from_os_locale :: "'p fluent \<Rightarrow> string option \<Rightarrow> 'p i18n option" where
  "from_os_locale F os = i18n_new F (from_locale (case os of Some l \<Rightarrow> l | None \<Rightarrow> ''en''))"

definition try_t :: "'p fluent \<Rightarrow> 'p i18n \<Rightarrow> string \<Rightarrow> (string \<times> string) list \<Rightarrow> i18n_error + string" where
  "try_t F I key args =
     (case map_of (in_bundle I) key of
        None \<Rightarrow> Inl (KeyNotFound key (bcp47 (in_lang I)))
      | Some None \<Rightarrow> Inl (KeyNotFound key (bcp47 (in_lang I)))
      | Some (Some pattern) \<Rightarrow> Inr (fl_format F pattern (map_of (rev args))))"

definition translate :: "'p fluent \<Rightarrow> 'p i18n \<Rightarrow> string \<Rightarrow> (string \<times> string) list \<Rightarrow> string" where
  "translate F I key args = (case try_t F I key args of Inl e \<Rightarrow> key | Inr s \<Rightarrow> s)"

section \<open>Lemmas\<close>

text \<open>A tag is recognised with any region behind it and in either case.\<close>

lemma from_locale_region:
  assumes "c = CHR ''_'' \<or> c = CHR ''-''"
  shows "from_locale (bcp47 l @ c # rest) = l"
  using assms by (cases l) (auto simp: from_locale_def to_lowercase_def lower_char_def is_upper_def)

lemma from_locale_bcp47 [simp]: "from_locale (bcp47 l) = l"
  by (cases l) (simp_all add: from_locale_def to_lowercase_def lower_char_def is_upper_def)

lemma from_locale_upper: "from_locale ''AR_LB'' = Ar" "from_locale '''' = En" "from_locale ''arabic'' = En"
  by code_simp+

text \<open>A look-up is answered with the formatted pattern or with the key itself, and fails only for a key without one.\<close>

lemma translate_cases:
  "translate F I key args =
     (case Option.bind (map_of (in_bundle I) key) id of None \<Rightarrow> key | Some p \<Rightarrow> fl_format F p (map_of (rev args)))"
  by (simp add: translate_def try_t_def split: option.split)

text \<open>The last value of an argument counts.\<close>

lemma last_argument_counts: "translate F I key (args @ [(k, v)]) = translate F I key (filter (\<lambda>a. fst a \<noteq> k) args @ [(k, v)])"
proof -
  have "map_of (rev (args @ [(k, v)])) = map_of (rev (filter (\<lambda>a. fst a \<noteq> k) args @ [(k, v)]))"
  proof
    fix x
    have "x \<noteq> k \<Longrightarrow> map_of (filter (\<lambda>a. fst a \<noteq> k) ys) x = map_of ys x" for ys :: "(string \<times> string) list"
      by (induction ys) auto
    then show "map_of (rev (args @ [(k, v)])) x = map_of (rev (filter (\<lambda>a. fst a \<noteq> k) args @ [(k, v)])) x"
      by (cases "x = k") (simp_all add: rev_filter)
  qed
  then show ?thesis by (simp add: translate_cases split: option.split)
qed

text \<open>A bundle for the language the system names, or English.\<close>

lemma os_locale_lang: "from_os_locale F os = Some I \<Longrightarrow> in_lang I = (case os of None \<Rightarrow> En | Some l \<Rightarrow> from_locale l)"
  using from_locale_bcp47 [of En] by (auto simp: from_os_locale_def i18n_new_def split: sum.splits if_splits option.splits)

end
