(* ===== verification/RegisterCli.thy ===== *)
theory RegisterCli
  imports Register GuiWire
begin

text \<open>
  The command-line side of the registration flags: the paths of \<open>crates/amore-mcp/src/register.rs\<close> on every
  platform, its probes and their overrides for tests, and \<open>run_registration_flags\<close> of \<open>main.rs\<close>, which runs the
  flags in a fixed order on one file system and ends the process at the first failure.
\<close>

section \<open>Probes\<close>

text \<open>An override, when a test has set one, wins over the probe.\<close>

definition home_dir :: "string option \<Rightarrow> string option \<Rightarrow> string option" where
  "home_dir override home = (case override of Some p \<Rightarrow> Some p | None \<Rightarrow> home)"

definition claude_cli_on_path :: "string + bool \<Rightarrow> bool" where
  "claude_cli_on_path out = (case out of Inl e \<Rightarrow> False | Inr success \<Rightarrow> success)"

definition claude_cli_available :: "bool option \<Rightarrow> string + bool \<Rightarrow> bool" where
  "claude_cli_available override out = (case override of Some v \<Rightarrow> v | None \<Rightarrow> claude_cli_on_path out)"

definition direct_write_opt_in :: "bool option \<Rightarrow> environ \<Rightarrow> bool" where
  "direct_write_opt_in override env =
     (case override of Some v \<Rightarrow> v | None \<Rightarrow> env_var ''AMORE_DIRECT_CONFIG_WRITE'' env = Some ''1'')"

text \<open>The spawned command changes the files; its exit status is success or a code.\<close>

definition invoke_claude_mcp_add ::
  "(file_system \<Rightarrow> (string + (bool \<times> int option)) \<times> file_system) \<Rightarrow> file_system \<Rightarrow> (string + unit) \<times> file_system" where
  "invoke_claude_mcp_add spawn fs =
     (case spawn fs of
        (Inl e, fs') \<Rightarrow> (Inl ''spawning `claude mcp add`'', fs')
      | (Inr (ok, code), fs') \<Rightarrow>
          (if ok then Inr () else Inl (''`claude mcp add` exited '' @ debug_code code @ ''; try --self-contained to bypass CLI''), fs'))"

definition current_exe_str :: "string + string \<Rightarrow> (string \<Rightarrow> string option) \<Rightarrow> string + string" where
  "current_exe_str exe canonical =
     (case exe of
        Inl e \<Rightarrow> Inl ''current_exe failed''
      | Inr p \<Rightarrow> Inr (case canonical p of Some c \<Rightarrow> c | None \<Rightarrow> p))"

fun register_method_text :: "register_method \<Rightarrow> string" where
  "register_method_text ClaudeCli = ''claude-cli''"
| "register_method_text DirectWrite = ''direct-write''"

text \<open>The same loop as in the desktop program.\<close>

definition register_retry_rename :: "(nat \<Rightarrow> (string \<times> bool) option) \<Rightarrow> string + unit" where
  "register_retry_rename attempts = retry_loop attempts 3 0"

section \<open>Paths\<close>

definition claude_code_config_path :: "string option \<Rightarrow> string option" where
  "claude_code_config_path home = map_option (\<lambda>h. path_join h [''.claude.json'']) home"

definition claude_desktop_config_path :: "platform \<Rightarrow> string option \<Rightarrow> string option \<Rightarrow> string option" where
  "claude_desktop_config_path os home data =
     (case os of
        WindowsOs \<Rightarrow> map_option (\<lambda>d. path_join d [''Claude'', ''claude_desktop_config.json'']) data
      | MacOs \<Rightarrow> map_option (\<lambda>h. path_join h [''Library'', ''Application Support'', ''Claude'', ''claude_desktop_config.json'']) home
      | LinuxOs \<Rightarrow> map_option (\<lambda>h. path_join h [''.config'', ''Claude'', ''claude_desktop_config.json'']) home)"

definition cursor_config_path :: "string option \<Rightarrow> string option" where
  "cursor_config_path home = map_option (\<lambda>h. path_join h [''.cursor'', ''mcp.json'']) home"

definition cline_config_path :: "platform \<Rightarrow> string option \<Rightarrow> string option \<Rightarrow> string option" where
  "cline_config_path os home data =
     (let tail = [''Code'', ''User'', ''globalStorage'', ''saoudrizwan.claude-dev'', ''settings'', ''cline_mcp_settings.json'']
      in case os of
           WindowsOs \<Rightarrow> map_option (\<lambda>d. path_join d tail) data
         | MacOs \<Rightarrow> map_option (\<lambda>h. path_join h ([''Library'', ''Application Support''] @ tail)) home
         | LinuxOs \<Rightarrow> map_option (\<lambda>h. path_join h ([''.config''] @ tail)) home)"

definition continue_config_path :: "string option \<Rightarrow> string option" where
  "continue_config_path home = map_option (\<lambda>h. path_join h [''.continue'', ''config.json'']) home"

section \<open>The flags\<close>

record reg_cli =
  cl_claude_code :: bool
  cl_claude_desktop :: bool
  cl_cursor :: bool
  cl_cline :: bool
  cl_continue :: bool
  cl_self_contained :: bool

text \<open>Here a failing \<open>chmod\<close> is an error too.\<close>

definition register_set_private :: "private_call \<Rightarrow> string \<Rightarrow> string + unit" where
  "register_set_private call p =
     (case call of
        Chmod ok \<Rightarrow> if ok then Inr () else Inl (''chmod 0o600 on '' @ p)
      | Icacls (Inl _) _ \<Rightarrow> Inl (''icacls spawn: '' @ p)
      | Icacls (Inr code) listing \<Rightarrow>
          (if code \<noteq> Some 0 then Inl (''icacls '' @ debug_code code @ '' on '' @ p @ ''; write aborted'')
           else case listing of
               Inl _ \<Rightarrow> Inl (''icacls re-read: '' @ p)
             | Inr out \<Rightarrow>
                 (if acl_has_broad_ace out then Inl (''broad ACE on '' @ p @ '' after grant; write aborted'') else Inr ())))"

text \<open>What the registrations meet; \<open>rw_private\<close> and \<open>rw_rename\<close> say for each file how its backup is made private and
  how the attempts to rename go; \<open>rw_data\<close> is the data directory, which only Windows uses.\<close>

record reg_world =
  rw_os :: platform
  rw_codec :: "json codec"
  rw_exe :: "string + string"
  rw_canonical :: "string \<Rightarrow> string option"
  rw_home :: "string option"
  rw_data :: "string option"
  rw_env :: environ
  rw_claude :: "string + bool"
  rw_spawn :: "file_system \<Rightarrow> (string + (bool \<times> int option)) \<times> file_system"
  rw_private :: "string \<Rightarrow> private_call"
  rw_rename :: "string \<Rightarrow> nat \<Rightarrow> (string \<times> bool) option"

type_synonym registration = "file_system \<Rightarrow> (register_error + register_report) \<times> file_system"

definition rename_ok :: "reg_world \<Rightarrow> string option \<Rightarrow> bool" where
  "rename_ok R path = (case path of None \<Rightarrow> True | Some p \<Rightarrow> \<not> isl (register_retry_rename (rw_rename R p)))"

definition chmod_ok :: "reg_world \<Rightarrow> string option \<Rightarrow> bool" where
  "chmod_ok R path = (case path of None \<Rightarrow> True | Some p \<Rightarrow> \<not> isl (register_set_private (rw_private R p) (bak_path p)))"

definition reg_claude_code :: "reg_world \<Rightarrow> bool \<Rightarrow> registration" where
  "reg_claude_code R sc fs =
     (case current_exe_str (rw_exe R) (rw_canonical R) of
        Inl e \<Rightarrow> (Inl (RegError e), fs)
      | Inr exe \<Rightarrow>
          (let path = claude_code_config_path (home_dir None (rw_home R))
           in register_claude_code (rw_codec R) (chmod_ok R path) (rename_ok R path)
                (if claude_cli_available None (rw_claude R) then Some (invoke_claude_mcp_add (rw_spawn R)) else None)
                (direct_write_opt_in None (rw_env R)) exe (home_dir None (rw_home R)) sc fs))"

definition reg_direct :: "reg_world \<Rightarrow> string option \<Rightarrow> string \<Rightarrow> registration" where
  "reg_direct R path target fs =
     (case current_exe_str (rw_exe R) (rw_canonical R) of
        Inl e \<Rightarrow> (Inl (RegError e), fs)
      | Inr exe \<Rightarrow>
          (case path of
             None \<Rightarrow> (Inl (RegError ''no home dir''), fs)
           | Some p \<Rightarrow> direct_write_json_config (rw_codec R) (chmod_ok R path) (rename_ok R path) p exe target fs))"

definition registrations :: "reg_world \<Rightarrow> reg_cli \<Rightarrow> (bool \<times> string \<times> registration) list" where
  "registrations R cl =
     (let home = home_dir None (rw_home R) in
      [(cl_claude_code cl, ''Claude Code'', reg_claude_code R (cl_self_contained cl)),
       (cl_claude_desktop cl, ''Claude Desktop'', reg_direct R (claude_desktop_config_path (rw_os R) home (rw_data R)) ''Claude Desktop''),
       (cl_cursor cl, ''Cursor'', reg_direct R (cursor_config_path home) ''Cursor''),
       (cl_cline cl, ''Cline'', reg_direct R (cline_config_path (rw_os R) home (rw_data R)) ''Cline''),
       (cl_continue cl, ''Continue'', reg_direct R (continue_config_path home) ''Continue'')])"

datatype reg_outcome = NotHandled | Handled | Exited nat

definition report_line :: "register_report \<Rightarrow> string" where
  "report_line r = ''[amore-mcp] '' @ rep_target r @ '' registered via '' @ register_method_text (rep_method r) @ '' ''
     @ [CHR 0xE2, CHR 0x86, CHR 0x92] @ '' '' @ rep_path r"

text \<open>The outcome, the reports printed, and the files.  A panic ends the process with code 101.\<close>

fun run_flags :: "(bool \<times> string \<times> registration) list \<Rightarrow> bool \<Rightarrow> file_system \<Rightarrow> reg_outcome \<times> register_report list \<times> file_system" where
  "run_flags [] any fs = (if any then Handled else NotHandled, [], fs)"
| "run_flags ((flag, name, reg) # rest) any fs =
     (if \<not> flag then run_flags rest any fs
      else case reg fs of
          (Inl (RegError e), fs') \<Rightarrow> (Exited 1, [], fs')
        | (Inl (RegPanic e), fs') \<Rightarrow> (Exited 101, [], fs')
        | (Inr report, fs') \<Rightarrow>
            (let (out, reports, fs'') = run_flags rest True fs' in (out, report # reports, fs'')))"

definition run_registration_flags :: "reg_world \<Rightarrow> reg_cli \<Rightarrow> file_system \<Rightarrow> reg_outcome \<times> register_report list \<times> file_system" where
  "run_registration_flags R cl fs = run_flags (registrations R cl) False fs"

section \<open>Lemmas\<close>

lemma run_flags_none: "list_all (\<lambda>(f, _). \<not> f) rs \<Longrightarrow> run_flags rs any fs = (if any then Handled else NotHandled, [], fs)"
  by (induction rs) auto

lemma no_flag_no_effect:
  "\<not> cl_claude_code cl \<and> \<not> cl_claude_desktop cl \<and> \<not> cl_cursor cl \<and> \<not> cl_cline cl \<and> \<not> cl_continue cl
    \<Longrightarrow> run_registration_flags R cl fs = (NotHandled, [], fs)"
  by (simp add: run_registration_flags_def registrations_def run_flags_none Let_def)

lemma run_flags_handled:
  "run_flags rs any fs = (Handled, reports, fs') \<Longrightarrow> length reports = length (filter fst rs)"
  by (induction rs any fs arbitrary: reports rule: run_flags.induct)
     (auto split: if_splits prod.splits sum.splits register_error.splits)

lemma run_flags_not_handled: "fst (run_flags rs any fs) = NotHandled \<longleftrightarrow> \<not> any \<and> filter fst rs = []"
proof (induction rs arbitrary: any fs)
  case (Cons r rs)
  obtain flag name reg where r: "r = (flag, name, reg)" by (rule prod_cases3)
  obtain res fs' where "reg fs = (res, fs')" by (rule prod.exhaust)
  with Cons [of True fs'] Cons [of any fs] r show ?case
    by (cases res) (auto simp: case_prod_beta split: register_error.splits)
qed simp

text \<open>The two ways to register write the same file for three of the tools, and different ones for Claude Code and
  Continue, so that neither sees what the other wrote.\<close>

lemma register_and_wizard_paths:
  assumes "home = Some h" "\<And>p. exists p"
  shows "map_option di_path (detect_claude_desktop os exists home data) = claude_desktop_config_path os home data"
    and "map_option di_path (detect_cursor exists home) = cursor_config_path home"
    and "map_option di_path (detect_cline os exists home data) = cline_config_path os home data"
    and "map_option di_path (detect_continue_ide exists home) \<noteq> continue_config_path home"
    and "map_option di_path (detect_claude_code exists home) \<noteq> claude_code_config_path home"
  using assms
  by (auto simp: detect_claude_desktop_def claude_desktop_config_path_def detect_cursor_def cursor_config_path_def
      detect_cline_def cline_config_path_def detect_continue_ide_def continue_config_path_def detect_claude_code_def
      claude_code_config_path_def detect_at_def path_join_def Let_def split: platform.split option.split)

section \<open>What the flags leave behind\<close>

definition touched :: "string \<Rightarrow> string set" where
  "touched p = {p, p @ ''.bak'', p @ ''.bak.old'', tmp_path p}"

definition holds_entry :: "json codec \<Rightarrow> string \<Rightarrow> file_system \<Rightarrow> string \<Rightarrow> bool" where
  "holds_entry c exe fs p =
     (case fs p of
        Some (Some t) \<Rightarrow>
          Option.bind (Option.bind (parse c t) (jget ''mcpServers'')) (jget ''amore'') = Some (amore_entry_json exe)
      | _ \<Rightarrow> False)"

lemma write_atomic_json_ok:
  assumes "write_atomic_json c ch rn p content fs = (Inr u, fs')"
  shows "fs' p = Some (Some content)" and "q \<notin> touched p \<Longrightarrow> fs' q = fs q"
proof -
  let ?run = "run_file_ops (atomic_ops ch rn fs p content) fs"
  have e: "fs' = ?run" "rn" "fs p = None \<or> ch"
    using assms by (auto simp: write_atomic_json_def Let_def split: if_splits option.splits)
  show "fs' p = Some (Some content)"
    using e(2,3) unfolding e(1)
    by (cases "fs (p @ ''.bak'')"; cases "fs p")
       (auto simp: run_file_ops_def atomic_ops_def backup_ops_def write_ops_def split: option.split)
  show "q \<notin> touched p \<Longrightarrow> fs' q = fs q"
    using e(2,3) unfolding e(1) touched_def
    by (cases "fs (p @ ''.bak'')"; cases "fs p")
       (auto simp: run_file_ops_def atomic_ops_def backup_ops_def write_ops_def split: option.split)
qed

lemma upsert_entry:
  "upsert_mcp_server v exe = Inr (present, v') \<Longrightarrow> Option.bind (jget ''mcpServers'' v') (jget ''amore'') = Some (amore_entry_json exe)"
  by (auto simp: upsert_mcp_server_def Let_def obj_insert_lookup split: json.splits option.splits)

definition json_codec_ok :: "json codec \<Rightarrow> bool" where
  "json_codec_ok c \<longleftrightarrow> (\<forall>v t. pretty c v = Some t \<longrightarrow> parse c t = Some v)"

lemma direct_write_ok:
  assumes "direct_write_json_config c ch rn p exe target fs = (Inr rep, fs')" and "json_codec_ok c"
  shows "holds_entry c exe fs' p" and "q \<notin> touched p \<Longrightarrow> fs' q = fs q"
proof -
  obtain v present v' content u where v: "upsert_mcp_server v exe = Inr (present, v')" "pretty c v' = Some content"
      "write_atomic_json c ch rn p content fs = (Inr u, fs')"
    using assms(1) by (auto simp: direct_write_json_config_def split: sum.splits prod.splits option.splits)
  have "parse c content = Some v'" using assms(2) v(2) by (simp add: json_codec_ok_def)
  then show "holds_entry c exe fs' p"
    using write_atomic_json_ok(1) [OF v(3)] upsert_entry [OF v(1)] by (simp add: holds_entry_def)
  show "q \<notin> touched p \<Longrightarrow> fs' q = fs q" by (rule write_atomic_json_ok(2) [OF v(3)])
qed

text \<open>The registrations with the file of each; every one writes its entry and nothing outside the file and its
  companions.\<close>

definition writes_entry :: "json codec \<Rightarrow> string \<Rightarrow> registration \<Rightarrow> string \<Rightarrow> bool" where
  "writes_entry c exe reg p \<longleftrightarrow>
     (\<forall>fs rep fs'. reg fs = (Inr rep, fs') \<longrightarrow> holds_entry c exe fs' p \<and> (\<forall>q. q \<notin> touched p \<longrightarrow> fs' q = fs q))"

lemma run_flags_frame:
  assumes "list_all2 (\<lambda>(f, n, r) p. writes_entry c exe r p) rs ps"
    and "run_flags rs any fs = (Handled, reports, fs')" and "list_all (\<lambda>p. q \<notin> touched p) ps"
  shows "fs' q = fs q"
  using assms
proof (induction rs ps arbitrary: any fs reports rule: list_all2_induct)
  case (Cons r rs p ps)
  obtain f n reg where r: "r = (f, n, reg)" by (rule prod_cases3)
  show ?case
  proof (cases f)
    case True
    then obtain rep fs1 reports1 where o: "reg fs = (Inr rep, fs1)" "run_flags rs True fs1 = (Handled, reports1, fs')"
      using Cons.prems r by (auto split: prod.splits sum.splits register_error.splits)
    then have "fs1 q = fs q" using Cons.hyps(1) Cons.prems(2) r by (auto simp: writes_entry_def)
    then show ?thesis using Cons.IH [OF o(2)] Cons.prems(2) by simp
  next
    case False
    then show ?thesis using Cons r by auto
  qed
qed simp

lemma run_flags_effect:
  assumes "list_all2 (\<lambda>(f, n, r) p. writes_entry c exe r p) rs ps"
    and "sorted_wrt (\<lambda>p q. p \<notin> touched q) ps"
    and "run_flags rs any fs = (Handled, reports, fs')"
  shows "list_all2 (\<lambda>(f, n, r) p. f \<longrightarrow> holds_entry c exe fs' p) rs ps"
  using assms
proof (induction rs ps arbitrary: any fs reports rule: list_all2_induct)
  case (Cons r rs p ps)
  obtain f n reg where r: "r = (f, n, reg)" by (rule prod_cases3)
  show ?case
  proof (cases f)
    case True
    then obtain rep fs1 reports1 where o: "reg fs = (Inr rep, fs1)" "run_flags rs True fs1 = (Handled, reports1, fs')"
      using Cons.prems r by (auto split: prod.splits sum.splits register_error.splits)
    have "fs' p = fs1 p"
      using run_flags_frame [OF Cons.hyps(2) o(2), of p] Cons.prems(1) by (auto simp: list_all_iff)
    moreover have "holds_entry c exe fs1 p" using Cons.hyps(1) o(1) r by (auto simp: writes_entry_def)
    ultimately have "holds_entry c exe fs' p" by (simp add: holds_entry_def)
    then show ?thesis using Cons.IH [OF _ o(2)] Cons.prems(1) r by simp
  next
    case False
    then show ?thesis using Cons r by auto
  qed
qed simp

text \<open>The files of the five tools, given the home and the data directory.\<close>

definition tool_files :: "platform \<Rightarrow> string \<Rightarrow> string \<Rightarrow> string list" where
  "tool_files os h d =
     [path_join h [''.claude.json''], the (claude_desktop_config_path os (Some h) (Some d)), path_join h [''.cursor'', ''mcp.json''],
      the (cline_config_path os (Some h) (Some d)), path_join h [''.continue'', ''config.json'']]"

lemma name_part_below: "CHR ''/'' \<notin> set x \<Longrightarrow> name_part (p @ CHR ''/'' # x) = x"
  by (simp add: name_part_def takeWhile_append)

lemma touched_names:
  assumes "q \<in> touched (p @ CHR ''/'' # x)" and "CHR ''/'' \<notin> set x"
  shows "name_part q \<in> {x, x @ ''.bak'', x @ ''.bak.old'', ''.'' @ x @ ''.amore-tmp''}"
proof -
  have "parent_prefix (p @ CHR ''/'' # x) = p @ ''/''" using assms(2) by (simp add: parent_prefix_def dropWhile_append)
  then have "tmp_path (p @ CHR ''/'' # x) = p @ CHR ''/'' # (''.'' @ x @ ''.amore-tmp'')"
    using name_part_below [OF assms(2)] by (simp add: tmp_path_def)
  then show ?thesis
    using assms name_part_below [of "x @ ''.bak''" p] name_part_below [of "x @ ''.bak.old''" p]
      name_part_below [of "''.'' @ x @ ''.amore-tmp''" p] name_part_below [of x p]
    by (auto simp: touched_def)
qed

lemma below: "path_join p (xs @ [x]) = path_join p xs @ CHR ''/'' # x"
  by (simp add: path_join_def)

lemma tool_files_names:
  "\<exists>b1 b2 b3 b4 b5. tool_files os h d =
     [b1 @ CHR ''/'' # ''.claude.json'', b2 @ CHR ''/'' # ''claude_desktop_config.json'', b3 @ CHR ''/'' # ''mcp.json'',
      b4 @ CHR ''/'' # ''cline_mcp_settings.json'', b5 @ CHR ''/'' # ''config.json'']"
proof -
  have b: "\<exists>b. path_join p (xs @ [x]) = b @ CHR ''/'' # x" for p xs x using below by blast
  have "\<exists>b. the (claude_desktop_config_path os (Some h) (Some d)) = b @ CHR ''/'' # ''claude_desktop_config.json''"
    using b [of d "[''Claude'']"] b [of h "[''Library'', ''Application Support'', ''Claude'']"] b [of h "[''.config'', ''Claude'']"]
    by (cases os) (simp_all only: claude_desktop_config_path_def platform.case option.map option.sel append.simps)
  moreover have "\<exists>b. the (cline_config_path os (Some h) (Some d)) = b @ CHR ''/'' # ''cline_mcp_settings.json''"
    using b [of d "[''Code'', ''User'', ''globalStorage'', ''saoudrizwan.claude-dev'', ''settings'']"]
      b [of h "[''Library'', ''Application Support'', ''Code'', ''User'', ''globalStorage'', ''saoudrizwan.claude-dev'', ''settings'']"]
      b [of h "[''.config'', ''Code'', ''User'', ''globalStorage'', ''saoudrizwan.claude-dev'', ''settings'']"]
    by (cases os) (simp_all only: cline_config_path_def Let_def platform.case option.map option.sel append.simps)
  ultimately show ?thesis
    using b [of h "[]" "''.claude.json''"] b [of h "[''.cursor'']" "''mcp.json''"] b [of h "[''.continue'']" "''config.json''"]
    by (simp only: tool_files_def append.simps) metis
qed

lemma tool_files_apart: "sorted_wrt (\<lambda>p q. p \<notin> touched q) (tool_files os h d)"
proof -
  obtain b1 b2 b3 b4 b5 where t: "tool_files os h d =
     [b1 @ CHR ''/'' # ''.claude.json'', b2 @ CHR ''/'' # ''claude_desktop_config.json'', b3 @ CHR ''/'' # ''mcp.json'',
      b4 @ CHR ''/'' # ''cline_mcp_settings.json'', b5 @ CHR ''/'' # ''config.json'']"
    using tool_files_names by metis
  show ?thesis
    unfolding t by (auto dest!: touched_names simp: name_part_below)
qed

lemma reg_direct_writes:
  assumes "json_codec_ok (rw_codec R)" "current_exe_str (rw_exe R) (rw_canonical R) = Inr exe"
  shows "writes_entry (rw_codec R) exe (reg_direct R (Some p) target) p"
  using assms direct_write_ok by (auto simp: writes_entry_def reg_direct_def)

lemma reg_claude_code_writes:
  assumes "json_codec_ok (rw_codec R)" "current_exe_str (rw_exe R) (rw_canonical R) = Inr exe" "rw_home R = Some h"
  shows "writes_entry (rw_codec R) exe (reg_claude_code R True) (path_join h [''.claude.json''])"
  using assms direct_write_ok
  by (auto simp: writes_entry_def reg_claude_code_def register_claude_code_def claude_code_config_path_def home_dir_def Let_def)


definition sample_config :: json where
  "sample_config = JObj [(''mcpServers'', JObj [(''amore'', amore_entry_json ''/m'')])]"

definition sample_codec :: "json codec" where
  "sample_codec = \<lparr>parse = (\<lambda>s. if s = ''doc'' then Some sample_config else None),
     pretty = (\<lambda>v. if v = sample_config then Some ''doc'' else None)\<rparr>"

definition sample_registrations :: reg_world where
  "sample_registrations = \<lparr>rw_os = LinuxOs, rw_codec = sample_codec, rw_exe = Inr ''/m'', rw_canonical = (\<lambda>_. None), rw_home = Some ''/h'', rw_data = Some ''/h/.local/share'',
     rw_env = [], rw_claude = Inl ''none'', rw_spawn = (\<lambda>fs. (Inl ''none'', fs)), rw_private = (\<lambda>_. Chmod True),
     rw_rename = (\<lambda>_ _. None)\<rparr>"

definition cursor_only :: reg_cli where
  "cursor_only = \<lparr>cl_claude_code = False, cl_claude_desktop = False, cl_cursor = True, cl_cline = False,
     cl_continue = False, cl_self_contained = True\<rparr>"

lemma sample_direct: "\<exists>rep fs'. reg_direct sample_registrations (Some p) target Map.empty = (Inr rep, fs')"
proof -
  have "upsert_mcp_server (JObj []) ''/m'' = Inr (False, sample_config)"
    by (simp add: upsert_mcp_server_def obj_or_insert_def sample_config_def)
  moreover have "\<exists>u fs'. write_atomic_json sample_codec True True p ''doc'' Map.empty = (Inr u, fs')"
    by (simp add: write_atomic_json_def atomic_ops_def backup_ops_def write_ops_def run_file_ops_def sample_codec_def Let_def)
  ultimately show ?thesis
    by (auto simp: reg_direct_def current_exe_str_def sample_registrations_def direct_write_json_config_def
        read_json_or_empty_def rename_ok_def chmod_ok_def register_set_private_def register_retry_rename_def numeral_3_eq_3 sample_codec_def
        split: sum.splits)
qed

lemma sample_run: "\<exists>reports fs'. run_registration_flags sample_registrations cursor_only Map.empty = (Handled, reports, fs')"
proof -
  obtain p where p: "cursor_config_path (home_dir None (rw_home sample_registrations)) = Some p"
    by (simp add: cursor_config_path_def home_dir_def sample_registrations_def)
  obtain rep fs' where "reg_direct sample_registrations (Some p) ''Cursor'' Map.empty = (Inr rep, fs')"
    using sample_direct by blast
  then show ?thesis
    by (simp add: run_registration_flags_def registrations_def cursor_only_def Let_def p)
qed


end
