(* ===== verification/Lifecycle.thy ===== *)
theory Lifecycle
  imports McpServer RegisterCli
begin

text \<open>
  The life of the MCP server process, \<open>crates/amore-mcp/src/main.rs\<close>: the registration flags, the exporters and the
  log of \<open>observability/\<close>, the start-up of \<open>McpServer\<close>, serving, the signals of \<open>shutdown.rs\<close>, the drain and the
  way the process ends.  The transport, the exporters' crates and the signals are inputs.
\<close>

section \<open>Observability\<close>

text \<open>The attributes of the trace exporter, when an endpoint is set; building it may fail.\<close>

definition otel_resource :: "string \<Rightarrow> string option \<Rightarrow> platform \<Rightarrow> (string \<times> string) list" where
  "otel_resource version hostname os =
     [(''service.name'', ''amore''),
      (''service.version'', version),
      (''service.instance.id'', case hostname of Some h \<Rightarrow> h | None \<Rightarrow> ''unknown''),
      (''service.namespace'', ''ai-memory''),
      (''host.os.type'', case os of LinuxOs \<Rightarrow> ''linux'' | WindowsOs \<Rightarrow> ''windows'' | MacOs \<Rightarrow> ''macos'')]"

definition init_otel_tracer ::
  "environ \<Rightarrow> string \<Rightarrow> string option \<Rightarrow> platform \<Rightarrow> (string \<Rightarrow> bool) \<Rightarrow> string + (string \<times> (string \<times> string) list) option" where
  "init_otel_tracer env version hostname os builds =
     (case env_var ''OTEL_EXPORTER_OTLP_ENDPOINT'' env of
        None \<Rightarrow> Inr None
      | Some v \<Rightarrow>
          if v = [] then Inr None
          else if builds v then Inr (Some (v, otel_resource version hostname os))
          else Inl (''failed to build OTel SpanExporter for '' @ v))"

datatype log_layer = FilterLayer string | OtelLayer | JsonLayer | TextLayer

text \<open>The layers of the log, from the filter on; \<open>RUST_LOG\<close> counts when it parses.\<close>

definition install_logging_subscriber :: "(string \<Rightarrow> bool) \<Rightarrow> environ \<Rightarrow> log_format \<Rightarrow> bool \<Rightarrow> log_layer list" where
  "install_logging_subscriber valid_filter env fmt otel =
     (let filter_text = (case env_var ''RUST_LOG'' env of Some v \<Rightarrow> if valid_filter v then v else ''info'' | None \<Rightarrow> ''info'')
      in [FilterLayer filter_text] @ (if otel then [OtelLayer] else [])
         @ [case fmt of LogJson \<Rightarrow> JsonLayer | LogText \<Rightarrow> TextLayer])"

definition install_prometheus_exporter ::
  "(string \<Rightarrow> 'a option) \<Rightarrow> ('a \<Rightarrow> bool) \<Rightarrow> ('a \<Rightarrow> bool) \<Rightarrow> environ \<Rightarrow> string + 'a" where
  "install_prometheus_exporter addr loopback listen env =
     (case parse_metrics_bind addr loopback env of
        Inl e \<Rightarrow> Inl e
      | Inr a \<Rightarrow> if listen a then Inr a else Inl ''failed to install Prometheus exporter'')"

datatype metric_kind = Histogram | Counter | Gauge

definition describe_metrics :: "(metric_kind \<times> string) list" where
  "describe_metrics =
     [(Histogram, ''amore_db_operation_duration_seconds''),
      (Counter, ''amore_db_operation_total''),
      (Gauge, ''amore_cache_hit_ratio''),
      (Counter, ''amore_wal_writes_total''),
      (Histogram, ''amore_wal_fsync_duration_seconds''),
      (Gauge, ''amore_circuit_breaker_state''),
      (Histogram, ''amore_qdrant_pool_checkout_duration_seconds''),
      (Counter, ''amore_rate_limit_rejected_total''),
      (Counter, ''amore_shutdown_initiated_total'')]"

definition spawn_health_server ::
  "(string \<Rightarrow> 'a option) \<Rightarrow> ('a \<Rightarrow> bool) \<Rightarrow> ('a \<Rightarrow> bool) \<Rightarrow> environ \<Rightarrow> string + 'a" where
  "spawn_health_server addr loopback listen env =
     (case parse_health_bind addr loopback env of
        Inl e \<Rightarrow> Inl e
      | Inr a \<Rightarrow> if listen a then Inr a else Inl ''health server bind failed'')"

section \<open>Shutdown\<close>

text \<open>What can end the wait: the receiver is also woken when its sender is dropped.\<close>

datatype signal = CtrlC | SigTerm | CtrlBreak | SenderSent | SenderDropped

definition listens_to :: "platform \<Rightarrow> bool \<Rightarrow> signal \<Rightarrow> bool" where
  "listens_to os rx s =
     (case s of
        CtrlC \<Rightarrow> True
      | SigTerm \<Rightarrow> os \<noteq> WindowsOs
      | CtrlBreak \<Rightarrow> os = WindowsOs
      | SenderSent \<Rightarrow> rx
      | SenderDropped \<Rightarrow> rx)"

text \<open>The signal that ends the wait, of those that arrive in order, with the increment of the counter; \<open>None\<close> while it
  goes on.\<close>

definition wait_for_shutdown :: "platform \<Rightarrow> bool \<Rightarrow> signal list \<Rightarrow> nat \<Rightarrow> (signal \<times> nat) option" where
  "wait_for_shutdown os rx arriving initiated = map_option (\<lambda>s. (s, initiated + 1)) (find (listens_to os rx) arriving)"

section \<open>The process\<close>

datatype serve_result = Serving | ConnectionClosed | ServeFailed string

datatype life_action =
    Registered register_report
  | AbortHealth
  | WaitService bool
  | FlushOtel
  | CountShutdown

datatype exit = Exit nat "string option"

text \<open>Rust prints the error a \<open>main\<close> returns with \<open>Debug\<close>: the variant with its quoted detail.  Quotes, backslashes
  and control characters of the detail are escaped by \<open>esc\<close>.\<close>

fun debug_error :: "(string \<Rightarrow> string) \<Rightarrow> main_error \<Rightarrow> string" where
  "debug_error esc IdeDisconnected = ''IdeDisconnected''"
| "debug_error esc (DepUnreachable d) = ''DepUnreachable('' @ [CHR 0x22] @ esc d @ [CHR 0x22] @ '')''"
| "debug_error esc (ConfigInvalid d) = ''ConfigInvalid('' @ [CHR 0x22] @ esc d @ [CHR 0x22] @ '')''"
| "debug_error esc (Other d) = ''Other('' @ [CHR 0x22] @ esc d @ [CHR 0x22] @ '')''"

definition main_result :: "(string \<Rightarrow> string) \<Rightarrow> main_error + unit \<Rightarrow> exit" where
  "main_result esc r = (case r of Inr _ \<Rightarrow> Exit 0 None | Inl e \<Rightarrow> Exit 1 (Some (''Error: '' @ debug_error esc e)))"

text \<open>\<open>lf_service_done\<close>: whether the service ends within the thirty seconds after the signal.\<close>

record life_world =
  lf_os :: platform
  lf_esc :: "string \<Rightarrow> string"
  lf_otel :: bool
  lf_serve :: serve_result
  lf_signals :: "signal list"
  lf_service_done :: bool

text \<open>\<open>main\<close> after the start: \<open>None\<close> while no signal has come.\<close>

definition serve_and_drain :: "life_world \<Rightarrow> ((main_error + unit) \<times> life_action list) option" where
  "serve_and_drain L =
     (case lf_serve L of
        ConnectionClosed \<Rightarrow> Some (Inr (), [AbortHealth])
      | ServeFailed d \<Rightarrow> Some (Inl (Other d), [AbortHealth])
      | Serving \<Rightarrow>
          map_option (\<lambda>_. (Inr (), [CountShutdown, AbortHealth, WaitService (lf_service_done L)]
              @ (if lf_otel L then [FlushOtel] else [])))
            (wait_for_shutdown (lf_os L) True (lf_signals L) 0))"

definition mcp_main ::
  "life_world \<Rightarrow> ('a, 'q) startup_world \<Rightarrow> reg_world \<Rightarrow> reg_cli \<Rightarrow> file_system \<Rightarrow> data_tree \<Rightarrow> 'q
    \<Rightarrow> (exit \<times> life_action list \<times> file_system) option" where
  "mcp_main L W R cl fs T q =
     (case run_registration_flags R cl fs of
        (Exited n, reports, fs') \<Rightarrow> Some (Exit n None, map Registered reports, fs')
      | (Handled, reports, fs') \<Rightarrow> Some (Exit 0 None, map Registered reports, fs')
      | (NotHandled, reports, fs') \<Rightarrow>
          (case start_server W T q of
             Inl e \<Rightarrow> Some (main_result (lf_esc L) (Inl e), [], fs')
           | Inr r \<Rightarrow> map_option (\<lambda>(res, acts). (main_result (lf_esc L) res, acts, fs')) (serve_and_drain L)))"

section \<open>Lemmas\<close>

lemma metrics_described_once: "distinct (map snd describe_metrics)"
  by (simp add: describe_metrics_def)

lemma wait_ends_iff: "wait_for_shutdown os rx arriving n = None \<longleftrightarrow> (\<forall>s \<in> set arriving. \<not> listens_to os rx s)"
  by (auto simp: wait_for_shutdown_def find_None_iff)

text \<open>A dropped sender ends the wait as a sent message does, and without a receiver neither does.\<close>

lemma dropped_sender_wakes:
  "wait_for_shutdown os True [SenderDropped] n = Some (SenderDropped, n + 1)" "wait_for_shutdown os False [SenderDropped] n = None"
  by (simp_all add: wait_for_shutdown_def listens_to_def)

text \<open>Only a start that got as far as serving flushes the traces.\<close>

lemma early_end_keeps_traces:
  "lf_serve L \<noteq> Serving \<Longrightarrow> serve_and_drain L = Some (r, acts) \<Longrightarrow> FlushOtel \<notin> set acts"
  by (cases "lf_serve L") (auto simp: serve_and_drain_def)

lemma debug_shows_detail:
  "debug_error esc e \<noteq> main_error_message e"
  by (cases e) auto

text \<open>C34: how the server process ends.  Without a registration flag it writes no file of a tool, and it runs on exactly
  when it got as far as serving and no signal it listens to has come.  Otherwise the exit code is zero with nothing
  printed, or one with the error that stopped the start-up or the serving; what is printed then is the variant with
  its internal detail, never the plain message the error type has for the user, and the traces are not flushed.\<close>

theorem process_outcome:
  assumes flags: "\<not> cl_claude_code cl \<and> \<not> cl_claude_desktop cl \<and> \<not> cl_cursor cl \<and> \<not> cl_cline cl \<and> \<not> cl_continue cl"
  shows "(mcp_main L W R cl fs T q = None \<longleftrightarrow>
        \<not> isl (start_server W T q) \<and> lf_serve L = Serving \<and> find (listens_to (lf_os L) True) (lf_signals L) = None)
    \<and> (\<forall>code msg acts fs'. mcp_main L W R cl fs T q = Some (Exit code msg, acts, fs') \<longrightarrow> fs' = fs
        \<and> (code = 0 \<and> msg = None \<and> AbortHealth \<in> set acts
          \<or> code = 1 \<and> FlushOtel \<notin> set acts
            \<and> (\<exists>e. (start_server W T q = Inl e \<or> (\<exists>d. lf_serve L = ServeFailed d \<and> e = Other d))
                  \<and> msg = Some (''Error: '' @ debug_error (lf_esc L) e) \<and> debug_error (lf_esc L) e \<noteq> main_error_message e)))"
proof -
  note f = no_flag_no_effect [OF flags, of R fs]
  show ?thesis
  proof (cases "start_server W T q")
    case (Inl e)
    then show ?thesis using f debug_shows_detail [of "lf_esc L" e] by (auto simp: mcp_main_def main_result_def)
  next
    case (Inr r)
    then show ?thesis
      using f debug_shows_detail [of "lf_esc L"]
      by (cases "lf_serve L") (auto simp: mcp_main_def main_result_def serve_and_drain_def wait_for_shutdown_def)
  qed
qed

definition idle_registrations :: reg_world where
  "idle_registrations = \<lparr>rw_os = LinuxOs, rw_codec = one_doc_codec JNull, rw_exe = Inl ''none'', rw_canonical = (\<lambda>_. None), rw_home = None, rw_data = None,
     rw_env = [], rw_claude = Inl ''none'', rw_spawn = (\<lambda>fs. (Inl ''none'', fs)), rw_private = (\<lambda>_. Chmod True),
     rw_rename = (\<lambda>_ _. None)\<rparr>"

definition no_metrics_world :: "(unit, nat) startup_world" where
  "no_metrics_world = \<lparr>sw_env = [], sw_otel = True, sw_addr = (\<lambda>_. None), sw_loopback = (\<lambda>_. True), sw_listen = (\<lambda>_. True),
     sw_qdrant = toy_server, sw_dirs = \<lparr>pd_config = None, pd_data = None, pd_home = None, pd_cwd = None\<rparr>,
     sw_mkdir1 = True, sw_mkdir2 = True, sw_open = (\<lambda>_ _. Inl ''none'')\<rparr>"

lemma process_outcome_witness:
  "\<exists>acts fs'. mcp_main \<lparr>lf_os = LinuxOs, lf_esc = id, lf_otel = False, lf_serve = Serving, lf_signals = [], lf_service_done = True\<rparr>
      no_metrics_world idle_registrations
      \<lparr>cl_claude_code = False, cl_claude_desktop = False, cl_cursor = False, cl_cline = False, cl_continue = False, cl_self_contained = False\<rparr>
      Map.empty \<lparr>dt_dirs = {}, dt_files = Map.empty\<rparr> 0
    = Some (Exit 1 (Some (''Error: ConfigInvalid('' @ [CHR 0x22] @ ''Prometheus init failed'' @ [CHR 0x22] @ '')'')), acts, fs')
    \<and> fs' = Map.empty"
proof -
  let ?L = "\<lparr>lf_os = LinuxOs, lf_esc = id, lf_otel = False, lf_serve = Serving, lf_signals = [], lf_service_done = True\<rparr>"
  let ?cl = "\<lparr>cl_claude_code = False, cl_claude_desktop = False, cl_cursor = False, cl_cline = False, cl_continue = False, cl_self_contained = False\<rparr>"
  let ?T = "\<lparr>dt_dirs = {}, dt_files = Map.empty\<rparr>"
  have s: "start_server no_metrics_world ?T 0 = Inl (ConfigInvalid ''Prometheus init failed'')"
    by (simp add: start_server_def no_metrics_world_def parse_metrics_bind_def bound_def env_var_def Let_def)
  have n: "run_registration_flags idle_registrations ?cl Map.empty = (NotHandled, [], Map.empty)"
    by (rule no_flag_no_effect) simp
  have m: "mcp_main ?L no_metrics_world idle_registrations ?cl Map.empty ?T 0
    = Some (Exit 1 (Some (''Error: '' @ debug_error id (ConfigInvalid ''Prometheus init failed''))), [], Map.empty)"
    using s n by (simp add: mcp_main_def main_result_def)
  show ?thesis
    using process_outcome [of ?cl ?L no_metrics_world idle_registrations Map.empty ?T 0] m by simp
qed

end
