(* ===== verification/StoreTypes.thy ===== *)
theory StoreTypes
  imports Compaction
begin

text \<open>
  The SQLite store under everything the program does to it: insertions and compaction passes in any order, with any
  clock, each of which may fail (\<open>crates/amore-core/src/sqlite_store.rs\<close>, \<open>compaction.rs\<close>).  The types of the columns
  the schema cannot express are an invariant of the two components together.
\<close>

datatype store_op =
    OpInsert insert_call
  | OpCompact pass_env compaction_opts

definition store_step ::
  "'q qdrant_server \<Rightarrow> (bytes \<Rightarrow> bytes) \<Rightarrow> (json \<Rightarrow> string option) \<Rightarrow> store_op \<Rightarrow> sqlite_store \<times> 'q qstate
    \<Rightarrow> sqlite_store \<times> 'q qstate" where
  "store_step srv sha256 canon x st =
     (case x of
        OpInsert c \<Rightarrow>
          (snd (insert_observation sha256 canon (c_fault c) (c_nanos c) (c_now c) (c_source c) (c_payload c) (fst st)), snd st)
      | OpCompact E opts \<Rightarrow> snd (do_compact srv E opts st))"

definition is_digest :: "string \<Rightarrow> bool" where
  "is_digest h \<longleftrightarrow> length h = 64 \<and> list_all (\<lambda>c. c \<in> set ''0123456789abcdef'') h"

definition is_obs_id :: "string \<Rightarrow> bool" where
  "is_obs_id i \<longleftrightarrow> (\<exists>n. i = gen_id n)"

definition row_typed :: "row \<Rightarrow> bool" where
  "row_typed r \<longleftrightarrow> is_obs_id (row_id r) \<and> is_digest (row_hash r) \<and> is_digest (row_prev_hash r)"

definition store_typed :: "sqlite_store \<Rightarrow> bool" where
  "store_typed S \<longleftrightarrow> list_all row_typed (observations S) \<and> distinct (map row_id (observations S))
     \<and> map fst (observations_fts S) = map row_id (observations S)"

section \<open>Lemmas\<close>

lemma hex_digit_range: "d < 16 \<Longrightarrow> hex_digit d \<in> set ''0123456789abcdef''"
proof -
  have "list_all (\<lambda>d. hex_digit d \<in> set ''0123456789abcdef'') [0..<16]" by code_simp
  then show "d < 16 \<Longrightarrow> hex_digit d \<in> set ''0123456789abcdef''" by (auto simp: list_all_iff)
qed

lemma hex_encode_range: "list_all (\<lambda>c. c \<in> set ''0123456789abcdef'') (hex_encode bs)"
proof (induction bs)
  case (Cons b bs)
  have "of_char b div 16 < (16 :: nat)" "of_char b mod 16 < (16 :: nat)" by (simp_all add: less_mult_imp_div_less)
  then have "list_all (\<lambda>c. c \<in> set ''0123456789abcdef'') (hex_byte b)"
    unfolding hex_byte_def Let_def using hex_digit_range by (simp del: set_simps)
  moreover have "hex_encode (b # bs) = hex_byte b @ hex_encode bs" by (simp add: hex_encode_def)
  ultimately show ?case using Cons by (simp only: list_all_append)
qed (simp add: hex_encode_def)

lemma digest_hash: "length (sha256 (hash_message i p c)) = 32 \<Longrightarrow> is_digest (compute_hash sha256 i p c)"
  using hex_encode_range [of "sha256 (hash_message i p c)"] by (simp add: is_digest_def compute_hash_def)

lemma digest_genesis: "is_digest GENESIS_PREV_HASH"
  by (simp add: is_digest_def GENESIS_PREV_HASH_def list_all_iff)

lemma last_hash_typed: "list_all row_typed (observations S) \<Longrightarrow> last_observation_hash S = Some h \<Longrightarrow> is_digest h"
proof -
  assume t: "list_all row_typed (observations S)" and h: "last_observation_hash S = Some h"
  let ?xs = "order_asc (observations S)"
  have ne: "?xs \<noteq> []" and l: "row_hash (last ?xs) = h"
    using h by (auto simp: last_observation_hash_def newest_def split: if_splits)
  then have "last ?xs \<in> set (observations S)" by (metis last_in_set set_order_asc)
  with t l show "is_digest h" by (auto simp: list_all_iff row_typed_def)
qed

lemma insert_typed:
  assumes "\<forall>b. length (sha256 b) = 32" and S: "store_typed S"
  shows "store_typed (snd (insert_observation sha256 canon f nanos now src v S))"
proof -
  have "is_digest (case last_observation_hash S of Some h \<Rightarrow> h | None \<Rightarrow> GENESIS_PREV_HASH)"
    using S last_hash_typed [of S] digest_genesis by (auto simp: store_typed_def split: option.split)
  then show ?thesis
    using S digest_hash assms(1)
    by (auto simp: insert_observation_def store_typed_def row_typed_def seal_def is_obs_id_def Let_def
        split: option.splits)
qed

lemma delete_typed: "store_typed S \<Longrightarrow> store_typed (delete_id i S)"
  using delete_id_sync [of S i] by (auto simp: store_typed_def delete_id_def list_all_iff distinct_map_filter)

lemma deletes_typed: "store_typed S \<Longrightarrow> store_typed (fold delete_id ids S)"
  by (induction ids arbitrary: S) (auto intro: delete_typed)

lemma compact_typed: "store_typed (fst st) \<Longrightarrow> store_typed (fst (snd (do_compact srv E opts st)))"
proof -
  assume t: "store_typed (fst st)"
  obtain r1 st1 where 1: "do_dedup srv E (dedup_window_secs opts) st = (r1, st1)" by (rule prod.exhaust)
  obtain r2 st2 where 2: "do_evict srv E (max_age_ms opts) st1 = (r2, st2)" by (rule prod.exhaust)
  have t1: "store_typed (fst st1)" using do_dedup_store [OF 1] t deletes_typed by metis
  have t2: "store_typed (fst st2)" using do_evict_store [OF 2] t1 deletes_typed by metis
  have "snd (do_compact srv E opts st) \<in> {st1, st2}"
    using 1 2 by (auto simp: do_compact_def split: sum.splits option.splits)
  with t1 t2 show "store_typed (fst (snd (do_compact srv E opts st)))" by auto
qed

lemma step_typed:
  "\<forall>b. length (sha256 b) = 32 \<Longrightarrow> store_typed (fst st) \<Longrightarrow> store_typed (fst (store_step srv sha256 canon x st))"
  by (cases x) (simp_all add: store_step_def insert_typed compact_typed)

lemma steps_typed:
  "\<forall>b. length (sha256 b) = 32 \<Longrightarrow> store_typed (fst st) \<Longrightarrow> store_typed (fst (fold (store_step srv sha256 canon) xs st))"
  by (induction xs arbitrary: st) (simp_all add: step_typed)

text \<open>C10: the columns keep their types.  Whatever is inserted and compacted, in any order, under any clock and with
  any of it failing, every row has an observation id of its own and two digests of 64 lower-case hexadecimal digits,
  and the full-text index has exactly the rows of the table, in their order.\<close>

theorem store_rows_typed:
  assumes "\<forall>b. length (sha256 b) = 32"
  shows "store_typed (fst (fold (store_step srv sha256 canon) xs (empty_store, q)))"
  using assms by (rule steps_typed) (simp add: store_typed_def empty_store_def)

lemma store_rows_typed_witness:
  "store_typed (fst (fold (store_step toy_server (\<lambda>_. replicate 32 CHR ''x'') (\<lambda>_. Some ''{}''))
     [OpInsert (toy_call 1 5),
      OpCompact \<lparr>now_dedup = 100, now_evict = 100, fault_dedup = False, fault_evict = False, vacuum_pages = None\<rparr>
        \<lparr>interval_ms = 1, dedup_window_secs = 1, max_age_ms = Some 50\<rparr>,
      OpInsert (toy_call 2 3)] (empty_store, (open_lazy ''c'', 0))))"
  by (rule store_rows_typed) simp

end
