(* ===== verification/Session.thy ===== *)
theory Session
  imports McpServer StoreTypes
begin

text \<open>
  The serving server, \<open>crates/amore-mcp/src/main.rs\<close>: the requests of a client, many at a time.  The handler of a
  request runs without interruption up to its first \<open>await\<close> and is resumed later, with other handlers in between; what
  it does after that is one step here.  A handler may also be dropped while it waits.  The code up to the first
  \<open>await\<close> and the rest of it compose to the tools of \<open>McpServer\<close>.
\<close>

section \<open>The two parts of a handler\<close>

datatype 'q ask =
    AskRecall "'q recall_env" string usize
  | AskObserve "'q recall_env" "'q \<Rightarrow> 'q" ingest_clock string json
  | AskLookup string

datatype 'q pending =
    WaitSearch "'q recall_env" string usize
  | WaitVector "'q recall_env" "'q \<Rightarrow> 'q" string json envelope

text \<open>The libraries: the limiter, SHA-256 and the serialisers.\<close>

record 'l mcp_lib =
  ml_check :: "string \<Rightarrow> 'l \<Rightarrow> bool \<times> 'l"
  ml_sha :: "bytes \<Rightarrow> bytes"
  ml_canon :: "json \<Rightarrow> string option"
  ml_payload :: "json \<Rightarrow> string option"
  ml_receipt :: "ingest_receipt \<Rightarrow> string option"
  ml_envelope :: "recall_envelope \<Rightarrow> string option"
  ml_hits :: "doc_hit list \<Rightarrow> string option"

definition ingest_begin ::
  "(bytes \<Rightarrow> bytes) \<Rightarrow> (json \<Rightarrow> string option) \<Rightarrow> ingest_clock \<Rightarrow> string \<Rightarrow> json \<Rightarrow> 'q hybrid_recall
    \<Rightarrow> (string + envelope) \<times> 'q hybrid_recall" where
  "ingest_begin sha256 canon C src v r =
     (case r_sqlite r of
        None \<Rightarrow> (Inl ''observe: no SQLite store attached'', r)
      | Some S \<Rightarrow>
          (case insert_observation sha256 canon (ic_fault C) (ic_nanos C) (ic_now C) src v S of
             (res, S') \<Rightarrow> (res, r\<lparr>r_sqlite := Some S'\<rparr>)))"

definition ingest_rest ::
  "'q recall_env \<Rightarrow> ('q \<Rightarrow> 'q) \<Rightarrow> string \<Rightarrow> json \<Rightarrow> envelope \<Rightarrow> 'q hybrid_recall \<Rightarrow> ingest_receipt \<times> 'q hybrid_recall" where
  "ingest_rest E applied src v env r =
     (let text = extract_indexable_text v (canonical_json env);
          (res, r1) = embed_query E text r;
          receipt = \<lparr>receipt_id = env_id env, persisted_bm25 = True, persisted_vector = False, receipt_degraded = clean\<rparr>
      in case res of
           Inl e \<Rightarrow> (receipt\<lparr>receipt_degraded := clean\<lparr>ollama_unavailable := True\<rparr>\<rparr>, r1)
         | Inr vec \<Rightarrow>
             (case timed (re_timeout E) (re_qdrant_ms E)
                     (upsert (re_server E) (re_t2 E) (re_t3 E) (qdrant_id (env_hash env)) vec (ingest_payload src text v))
                     (\<lambda>st. let st' = drop_qdrant_call (re_t2 E) st in (fst st', applied (snd st')))
                     (r_qdrant r1) of
                (Inr _, q') \<Rightarrow> (receipt\<lparr>persisted_vector := True\<rparr>, r1\<lparr>r_qdrant := q'\<rparr>)
              | (Inl e, q') \<Rightarrow> (receipt\<lparr>receipt_degraded := clean\<lparr>qdrant_unavailable := True\<rparr>\<rparr>, r1\<lparr>r_qdrant := q'\<rparr>)))"

text \<open>Up to the first \<open>await\<close>: an answer already, or a handler that waits.\<close>

definition observe_begin ::
  "'l mcp_lib \<Rightarrow> 'q recall_env \<Rightarrow> ('q \<Rightarrow> 'q) \<Rightarrow> ingest_clock \<Rightarrow> string \<Rightarrow> json \<Rightarrow> ('l, 'q) amore_server
    \<Rightarrow> ((mcp_error + string) + 'q pending) \<times> ('l, 'q) amore_server" where
  "observe_begin L E applied C src v srv =
     (if src = [] then (Inl (Inl (InvalidParams ''observe: source must be a non-empty string'')), srv)
      else case ml_payload L v of
          None \<Rightarrow> (Inl (Inl (InvalidParams ''observe: payload serialisation failed'')), srv)
        | Some t \<Rightarrow>
            if MAX_QUERY_BYTES < length t then (Inl (Inl (InvalidParams ''observe: payload exceeds 16384 bytes'')), srv)
            else (case ingest_begin (ml_sha L) (ml_canon L) C src v (am_recall srv) of
                (Inl e, r) \<Rightarrow> (Inl (Inl (InternalError e)), srv\<lparr>am_recall := r\<rparr>)
              | (Inr env, r) \<Rightarrow> (Inr (WaitVector E applied src v env), srv\<lparr>am_recall := r\<rparr>)))"

definition start ::
  "'l mcp_lib \<Rightarrow> 'q ask \<Rightarrow> ('l, 'q) amore_server \<Rightarrow> ((mcp_error + string) + 'q pending) \<times> ('l, 'q) amore_server" where
  "start L ask srv =
     (case ask of
        AskLookup query \<Rightarrow> (Inl (tool_canonical_doc_lookup (ml_hits L) query srv), srv)
      | AskRecall E query k \<Rightarrow>
          (case check_rate_limit (ml_check L) ''default'' srv of
             (Inl e, srv) \<Rightarrow> (Inl (Inl e), srv)
           | (Inr _, srv) \<Rightarrow>
               if MAX_QUERY_BYTES < length query then (Inl (Inl (InvalidParams ''query exceeds 16384 bytes'')), srv)
               else (Inr (WaitSearch E query (clamp_top_k k)), srv))
      | AskObserve E applied C src v \<Rightarrow>
          (case check_rate_limit (ml_check L) ''default'' srv of
             (Inl e, srv) \<Rightarrow> (Inl (Inl e), srv)
           | (Inr _, srv) \<Rightarrow> observe_begin L E applied C src v srv))"

definition finish ::
  "'l mcp_lib \<Rightarrow> 'q pending \<Rightarrow> ('l, 'q) amore_server \<Rightarrow> (mcp_error + string) \<times> ('l, 'q) amore_server" where
  "finish L p srv =
     (case p of
        WaitSearch E query k \<Rightarrow>
          (case search E query k (am_recall srv) of
             (Inl e, r) \<Rightarrow> (Inl (InternalError e), srv\<lparr>am_recall := r\<rparr>)
           | (Inr envelope, r) \<Rightarrow>
               (case ml_envelope L envelope of
                  None \<Rightarrow> (Inl (InternalError ''serialize recall envelope failed''), srv\<lparr>am_recall := r\<rparr>)
                | Some body \<Rightarrow> (Inr body, srv\<lparr>am_recall := r\<rparr>)))
      | WaitVector E applied src v env \<Rightarrow>
          (case ingest_rest E applied src v env (am_recall srv) of
             (receipt, r) \<Rightarrow>
               (case ml_receipt L receipt of
                  None \<Rightarrow> (Inl (InternalError ''serialize observe receipt failed''), srv\<lparr>am_recall := r\<rparr>)
                | Some body \<Rightarrow> (Inr body, srv\<lparr>am_recall := r\<rparr>))))"

definition run_alone :: "'l mcp_lib \<Rightarrow> 'q ask \<Rightarrow> ('l, 'q) amore_server \<Rightarrow> (mcp_error + string) \<times> ('l, 'q) amore_server" where
  "run_alone L ask srv = (case start L ask srv of (Inl a, srv') \<Rightarrow> (a, srv') | (Inr p, srv') \<Rightarrow> finish L p srv')"

lemma ingest_split:
  "ingest sha256 canon E applied C src v r =
     (case ingest_begin sha256 canon C src v r of
        (Inl e, r') \<Rightarrow> (Inl e, r')
      | (Inr env, r') \<Rightarrow> (case ingest_rest E applied src v env r' of (rc, r'') \<Rightarrow> (Inr rc, r'')))"
  by (auto simp: ingest_def ingest_begin_def ingest_rest_def Let_def split: option.splits sum.splits prod.splits)

text \<open>Undisturbed, the two parts are the tools.\<close>

lemma alone_is_tool:
  "run_alone L (AskRecall E query k) srv = tool_recall (ml_check L) E (ml_envelope L) query k srv"
  "run_alone L (AskObserve E applied C src v) srv =
     tool_observe (ml_check L) (ingest (ml_sha L) (ml_canon L) E applied C) (ml_payload L) (ml_receipt L) src v srv"
  "run_alone L (AskLookup query) srv = (tool_canonical_doc_lookup (ml_hits L) query srv, srv)"
  by (auto simp: run_alone_def start_def finish_def observe_begin_def tool_recall_def tool_observe_def ingest_split
      split: option.splits sum.splits prod.splits)

section \<open>Requests side by side\<close>

definition is_observe :: "'q ask \<Rightarrow> bool" where
  "is_observe a \<longleftrightarrow> (case a of AskObserve _ _ _ _ _ \<Rightarrow> True | _ \<Rightarrow> False)"

definition stored_id :: "'q pending \<Rightarrow> string option" where
  "stored_id p = (case p of WaitVector _ _ _ _ env \<Rightarrow> Some (env_id env) | _ \<Rightarrow> None)"

text \<open>The server with its requests, numbered as they arrive: those that wait, the answers given (and whether to an
  \<open>observe\<close>), those that were dropped, and the ids of the rows inserted by each.\<close>

record ('l, 'q) live =
  lv_server :: "('l, 'q) amore_server"
  lv_next :: nat
  lv_flight :: "nat \<rightharpoonup> 'q pending"
  lv_answers :: "(nat \<times> bool \<times> (mcp_error + string)) list"
  lv_dropped :: "nat set"
  lv_inserted :: "(nat \<times> string) list"

definition live_start :: "('l, 'q) amore_server \<Rightarrow> ('l, 'q) live" where
  "live_start srv = \<lparr>lv_server = srv, lv_next = 0, lv_flight = Map.empty, lv_answers = [], lv_dropped = {}, lv_inserted = []\<rparr>"

text \<open>A dropped handler may have begun a call to Ollama or Qdrant, but touches the rows no more.\<close>

inductive live_step :: "'l mcp_lib \<Rightarrow> ('l, 'q) live \<Rightarrow> ('l, 'q) live \<Rightarrow> bool" for L where
  answers: "start L ask (lv_server s) = (Inl a, srv) \<Longrightarrow>
    live_step L s (s\<lparr>lv_server := srv, lv_next := Suc (lv_next s),
      lv_answers := lv_answers s @ [(lv_next s, is_observe ask, a)]\<rparr>)"
| waits: "start L ask (lv_server s) = (Inr p, srv) \<Longrightarrow>
    live_step L s (s\<lparr>lv_server := srv, lv_next := Suc (lv_next s), lv_flight := (lv_flight s)(lv_next s \<mapsto> p),
      lv_inserted := lv_inserted s @ (case stored_id p of Some i \<Rightarrow> [(lv_next s, i)] | None \<Rightarrow> [])\<rparr>)"
| resumes: "\<lbrakk>lv_flight s k = Some p; finish L p (lv_server s) = (a, srv)\<rbrakk> \<Longrightarrow>
    live_step L s (s\<lparr>lv_server := srv, lv_flight := (lv_flight s)(k := None),
      lv_answers := lv_answers s @ [(k, stored_id p \<noteq> None, a)]\<rparr>)"
| drops: "\<lbrakk>lv_flight s k = Some p; r_sqlite r = r_sqlite (am_recall (lv_server s))\<rbrakk> \<Longrightarrow>
    live_step L s (s\<lparr>lv_server := (lv_server s)\<lparr>am_recall := r\<rparr>, lv_flight := (lv_flight s)(k := None),
      lv_dropped := insert k (lv_dropped s)\<rparr>)"

inductive live_run :: "'l mcp_lib \<Rightarrow> ('l, 'q) amore_server \<Rightarrow> ('l, 'q) live \<Rightarrow> bool" for L srv where
  begins: "live_run L srv (live_start srv)"
| continues: "\<lbrakk>live_run L srv s; live_step L s s'\<rbrakk> \<Longrightarrow> live_run L srv s'"

section \<open>Lemmas\<close>

lemma search_keeps_rows: "r_sqlite (snd (search E q k r)) = r_sqlite r"
  by (auto simp: search_def vector_lane_def embed_query_def Let_def split: prod.splits sum.splits)

lemma limiter_keeps_recall: "check_rate_limit check key srv = (res, srv') \<Longrightarrow> am_recall srv' = am_recall srv"
  by (auto simp: check_rate_limit_def split: prod.splits if_splits)

lemma observe_begin_rows:
  assumes "r_sqlite (am_recall srv) = Some S" and "observe_begin L E applied C src v srv = (res, srv')"
  obtains (refused) a where "res = Inl (Inl a)" "r_sqlite (am_recall srv') = Some S"
  | (stored) env n S' where "res = Inr (WaitVector E applied src v env)" "r_sqlite (am_recall srv') = Some S'"
      "S' = snd (insert_observation (ml_sha L) (ml_canon L) (ic_fault C) (ic_nanos C) (ic_now C) src v S)"
      "observations S' = observations S @ [n]" "row_id n = env_id env"
proof (cases rule: insert_observation_cases [of "ml_sha L" "ml_canon L" "ic_fault C" "ic_nanos C" "ic_now C" src v S,
      case_names fails inserts])
  case (fails e)
  with assms have "\<exists>a. res = Inl (Inl a) \<and> r_sqlite (am_recall srv') = Some S"
    by (auto simp: observe_begin_def ingest_begin_def split: if_splits option.splits)
  then show thesis using refused by blast
next
  case (inserts env n)
  have i: "row_id n = env_id env" using inserts(2) by (auto simp: row_envelope_def)
  from assms inserts(1) consider "\<exists>a. res = Inl (Inl a) \<and> srv' = srv"
    | "res = Inr (WaitVector E applied src v env)" "r_sqlite (am_recall srv')
        = Some (snd (insert_observation (ml_sha L) (ml_canon L) (ic_fault C) (ic_nanos C) (ic_now C) src v S))"
    by (auto simp: observe_begin_def ingest_begin_def split: if_splits option.splits)
  then show thesis
  proof cases
    case 1
    with assms(1) refused show thesis by auto
  next
    case 2
    then show thesis using stored inserts(1) i by auto
  qed
qed

text \<open>What the first part of a handler does to the rows.\<close>

lemma start_rows:
  assumes S: "r_sqlite (am_recall srv) = Some S" and run: "start L ask srv = (res, srv')"
  shows "case res of
      Inl a \<Rightarrow> r_sqlite (am_recall srv') = Some S \<and> (is_observe ask \<longrightarrow> isl a)
    | Inr p \<Rightarrow> (case stored_id p of
          None \<Rightarrow> r_sqlite (am_recall srv') = Some S
        | Some i \<Rightarrow> (\<exists>n f nanos now src v S'. r_sqlite (am_recall srv') = Some S' \<and> row_id n = i
            \<and> observations S' = observations S @ [n]
            \<and> S' = snd (insert_observation (ml_sha L) (ml_canon L) f nanos now src v S)))"
proof (cases ask)
  case (AskRecall E q k)
  with S run show ?thesis
    by (auto simp: start_def is_observe_def stored_id_def limiter_keeps_recall split: prod.splits sum.splits if_splits)
next
  case (AskLookup q)
  with S run show ?thesis by (auto simp: start_def is_observe_def)
next
  case (AskObserve E applied C src v)
  obtain lim srv1 where l: "check_rate_limit (ml_check L) ''default'' srv = (lim, srv1)" by (rule prod.exhaust)
  then have S1: "r_sqlite (am_recall srv1) = Some S" using S limiter_keeps_recall by metis
  show ?thesis
  proof (cases lim)
    case (Inl e)
    with l run AskObserve S1 show ?thesis by (auto simp: start_def)
  next
    case (Inr u)
    then have b: "observe_begin L E applied C src v srv1 = (res, srv')" using l run AskObserve by (simp add: start_def)
    from S1 b show ?thesis
      by (rule observe_begin_rows) (auto simp: stored_id_def, blast)
  qed
qed

text \<open>The rest leaves the rows alone and answers with the receipt of the row.\<close>

lemma finish_rows:
  assumes "finish L p srv = (a, srv')"
  shows "r_sqlite (am_recall srv') = r_sqlite (am_recall srv)"
    and "\<lbrakk>stored_id p = Some i; a = Inr text\<rbrakk> \<Longrightarrow> \<exists>rc. ml_receipt L rc = Some text \<and> receipt_id rc = i \<and> persisted_bm25 rc"
    and "\<lbrakk>stored_id p = Some i; \<forall>rc. ml_receipt L rc \<noteq> None\<rbrakk> \<Longrightarrow> \<exists>text. a = Inr text"
proof -
  have rest: "r_sqlite r' = r_sqlite r \<and> receipt_id rc = env_id env \<and> persisted_bm25 rc"
    if "ingest_rest E applied src v env r = (rc, r')" for E applied src v env r rc r'
    using that by (auto simp: ingest_rest_def embed_query_def Let_def split: sum.splits prod.splits)
  have srch: "r_sqlite r' = r_sqlite r" if "search E q k r = (x, r')" for E q k r x r'
    using search_keeps_rows [of E q k r] that by simp
  show "r_sqlite (am_recall srv') = r_sqlite (am_recall srv)"
    using assms rest srch by (fastforce simp: finish_def split: pending.splits prod.splits sum.splits option.splits)
  show "\<exists>rc. ml_receipt L rc = Some text \<and> receipt_id rc = i \<and> persisted_bm25 rc" if "stored_id p = Some i" "a = Inr text"
    using assms that rest by (fastforce simp: finish_def stored_id_def split: pending.splits prod.splits option.splits)
  show "\<exists>text. a = Inr text" if "stored_id p = Some i" "\<forall>rc. ml_receipt L rc \<noteq> None"
    using assms that by (auto simp: finish_def stored_id_def split: pending.splits prod.splits option.splits)
      (metis option.distinct(1))
qed

text \<open>The rows added are those of the requests, each with a number of its own; a waiting handler has the row it will
  answer with; and an \<open>observe\<close> was answered well only with the receipt of its row.\<close>

definition rows_ok :: "sqlite_store \<Rightarrow> ('l, 'q) live \<Rightarrow> bool" where
  "rows_ok S s \<longleftrightarrow>
     (\<exists>S' new. r_sqlite (am_recall (lv_server s)) = Some S' \<and> observations S' = observations S @ new \<and> store_typed S'
        \<and> map row_id new = map snd (lv_inserted s))"

definition flight_ok :: "('l, 'q) live \<Rightarrow> bool" where
  "flight_ok s \<longleftrightarrow> distinct (map fst (lv_inserted s)) \<and> (\<forall>x \<in> set (lv_inserted s). fst x < lv_next s)
     \<and> (\<forall>k p. lv_flight s k = Some p \<longrightarrow> k < lv_next s \<and> (\<forall>i. stored_id p = Some i \<longrightarrow> (k, i) \<in> set (lv_inserted s)))"

definition acks_ok :: "'l mcp_lib \<Rightarrow> ('l, 'q) live \<Rightarrow> bool" where
  "acks_ok L s \<longleftrightarrow>
     (\<forall>k text. (k, True, Inr text) \<in> set (lv_answers s)
        \<longrightarrow> (\<exists>rc. ml_receipt L rc = Some text \<and> persisted_bm25 rc \<and> (k, receipt_id rc) \<in> set (lv_inserted s)))"

definition settled_ok :: "('l, 'q) live \<Rightarrow> bool" where
  "settled_ok s \<longleftrightarrow>
     (\<forall>(k, i) \<in> set (lv_inserted s). k \<in> lv_dropped s \<or> (\<exists>p. lv_flight s k = Some p \<and> stored_id p = Some i)
        \<or> (\<exists>text. (k, True, Inr text) \<in> set (lv_answers s)))"

lemma start_not_ok:
  "start L ask srv = (Inl (Inr text), srv') \<Longrightarrow> r_sqlite (am_recall srv) = Some S \<Longrightarrow> \<not> is_observe ask"
  using start_rows [of srv S L ask] by fastforce

lemma step_rows:
  assumes "live_step L s s'" and sha: "\<forall>b. length (ml_sha L b) = 32" and "rows_ok S s"
  shows "rows_ok S s'"
proof -
  obtain S1 new where S1: "r_sqlite (am_recall (lv_server s)) = Some S1" "observations S1 = observations S @ new"
      "store_typed S1" "map row_id new = map snd (lv_inserted s)"
    using assms(3) by (auto simp: rows_ok_def)
  show ?thesis
    using assms(1)
  proof cases
    case (answers ask a srv)
    then show ?thesis using S1 start_rows [OF S1(1) answers(2)] by (simp add: rows_ok_def)
  next
    case (waits ask p srv)
    note st = start_rows [OF S1(1) waits(2)]
    show ?thesis
    proof (cases "stored_id p")
      case None
      then show ?thesis using S1 st waits by (simp add: rows_ok_def)
    next
      case (Some i)
      then obtain n f nanos now src v S2 where n: "r_sqlite (am_recall srv) = Some S2" "row_id n = i"
          "observations S2 = observations S1 @ [n]"
          "S2 = snd (insert_observation (ml_sha L) (ml_canon L) f nanos now src v S1)"
        using st by auto
      then have "store_typed S2" using insert_typed [OF sha S1(3)] by simp
      then show ?thesis using S1 n Some waits by (auto simp: rows_ok_def intro!: exI [of _ S2] exI [of _ "new @ [n]"])
    qed
  next
    case (resumes k p a srv)
    then show ?thesis using S1 finish_rows(1) [OF resumes(3)] by (auto simp: rows_ok_def)
  next
    case (drops k p r)
    then show ?thesis using S1 by (simp add: rows_ok_def)
  qed
qed

lemma step_flight:
  assumes "live_step L s s'" and "flight_ok s"
  shows "flight_ok s'"
  using assms(1)
proof cases
  case (waits ask p srv)
  have fresh: "lv_next s \<notin> fst ` set (lv_inserted s)" using assms(2) by (auto simp: flight_ok_def)
  then show ?thesis using assms(2) waits(1) by (fastforce simp: flight_ok_def less_Suc_eq split: option.splits)
next
  case (resumes k p a srv)
  then show ?thesis using assms(2) by (simp add: flight_ok_def)
next
  case (drops k p r)
  then show ?thesis using assms(2) by (simp add: flight_ok_def)
next
  case (answers ask a srv)
  then show ?thesis using assms(2) by (fastforce simp: flight_ok_def)
qed

lemma step_acks:
  assumes "live_step L s s'" and "rows_ok S s" and "flight_ok s" and "acks_ok L s"
  shows "acks_ok L s'"
  using assms(1)
proof cases
  case (answers ask a srv)
  then show ?thesis using assms(2,4) start_not_ok by (fastforce simp: acks_ok_def rows_ok_def)
next
  case (waits ask p srv)
  then show ?thesis using assms(4) by (fastforce simp: acks_ok_def)
next
  case (resumes k p a srv)
  then show ?thesis using assms(3,4) finish_rows(2) [OF resumes(3)] by (fastforce simp: acks_ok_def flight_ok_def)
next
  case (drops k p r)
  then show ?thesis using assms(4) by (simp add: acks_ok_def)
qed

lemma step_settled:
  assumes "live_step L s s'" and "\<forall>rc. ml_receipt L rc \<noteq> None" and "flight_ok s" and "settled_ok s"
  shows "settled_ok s'"
  using assms(1)
proof cases
  case (answers ask a srv)
  then show ?thesis using assms(4) by (fastforce simp: settled_ok_def)
next
  case (waits ask p srv)
  then show ?thesis using assms(3,4) by (fastforce simp: settled_ok_def flight_ok_def split: option.splits)
next
  case (resumes k p a srv)
  then show ?thesis using assms(4) finish_rows(3) [OF resumes(3) _ assms(2)]
    by (fastforce simp: settled_ok_def)
next
  case (drops k p r)
  then show ?thesis using assms(4) by (fastforce simp: settled_ok_def)
qed

lemma run_ok:
  assumes "live_run L srv s" and "r_sqlite (am_recall srv) = Some S" and "store_typed S"
    and "\<forall>b. length (ml_sha L b) = 32" and "\<forall>rc. ml_receipt L rc \<noteq> None"
  shows "rows_ok S s \<and> flight_ok s \<and> acks_ok L s \<and> settled_ok s"
  using assms(1)
proof induction
  case begins
  then show ?case using assms(2,3) by (simp add: rows_ok_def flight_ok_def acks_ok_def settled_ok_def live_start_def)
next
  case (continues s s')
  then show ?case using step_rows step_flight step_acks step_settled assms(4,5) by blast
qed

section \<open>Properties\<close>

text \<open>C4: what the server acknowledges, it has.  However the requests of its clients interleave, whatever fails in them and
  whichever are dropped, the rows are those at the start and one for each \<open>observe\<close> that got as far as its
  insertion, in that order and well typed; every successful answer to an \<open>observe\<close> is the receipt of the row that
  very request inserted; and a row without such an answer belongs to a request that still waits or was dropped.\<close>

theorem acknowledged_is_stored:
  assumes "live_run L srv s" and "r_sqlite (am_recall srv) = Some S" and "store_typed S"
    and "\<forall>b. length (ml_sha L b) = 32" and "\<forall>rc. ml_receipt L rc \<noteq> None"
  shows "\<exists>S' new. r_sqlite (am_recall (lv_server s)) = Some S' \<and> observations S' = observations S @ new \<and> store_typed S'
    \<and> map row_id new = map snd (lv_inserted s) \<and> distinct (map fst (lv_inserted s))
    \<and> (\<forall>k text. (k, True, Inr text) \<in> set (lv_answers s)
         \<longrightarrow> (\<exists>rc. ml_receipt L rc = Some text \<and> persisted_bm25 rc \<and> (k, receipt_id rc) \<in> set (lv_inserted s)))
    \<and> (\<forall>k i. (k, i) \<in> set (lv_inserted s)
         \<longrightarrow> k \<in> lv_dropped s \<or> lv_flight s k \<noteq> None \<or> (\<exists>text. (k, True, Inr text) \<in> set (lv_answers s)))"
  using run_ok [OF assms] unfolding rows_ok_def flight_ok_def acks_ok_def settled_ok_def by fastforce

definition toy_lib :: "unit mcp_lib" where
  "toy_lib = \<lparr>ml_check = (\<lambda>_ l. (True, l)), ml_sha = (\<lambda>_. replicate 32 CHR ''x''), ml_canon = (\<lambda>_. Some ''{}''),
     ml_payload = (\<lambda>_. Some ''{}''), ml_receipt = (\<lambda>rc. Some (receipt_id rc)), ml_envelope = (\<lambda>_. None), ml_hits = (\<lambda>_. None)\<rparr>"

definition toy_mcp :: "(unit, nat) amore_server" where
  "toy_mcp = \<lparr>am_recall = with_sqlite empty_store (with_embedder (new_ollama ''u'') (open_lazy ''c'', 0)), am_docs = [],
     am_limiter = (), am_rejected = 0\<rparr>"

definition toy_ask :: "nat ask" where
  "toy_ask = AskObserve toy_env (\<lambda>q. q) \<lparr>ic_fault = False, ic_nanos = 1, ic_now = 5\<rparr> ''s'' JNull"

lemma toy_waits: "\<exists>p srv i. start toy_lib toy_ask toy_mcp = (Inr p, srv) \<and> stored_id p = Some i"
  by (simp add: start_def toy_ask_def toy_lib_def toy_mcp_def check_rate_limit_def observe_begin_def ingest_begin_def
      with_sqlite_def with_embedder_def insert_observation_def seal_def empty_store_def stored_id_def MAX_QUERY_BYTES_def Let_def)

lemma acknowledged_is_stored_witness:
  "\<exists>s text rc. live_run toy_lib toy_mcp s \<and> lv_answers s = [(0, True, Inr text)] \<and> ml_receipt toy_lib rc = Some text
     \<and> (0, receipt_id rc) \<in> set (lv_inserted s)"
proof -
  obtain p srv i where w: "start toy_lib toy_ask toy_mcp = (Inr p, srv)" "stored_id p = Some i" using toy_waits by blast
  let ?s1 = "(live_start toy_mcp)\<lparr>lv_server := srv, lv_next := Suc 0, lv_flight := [0 \<mapsto> p], lv_inserted := [(0, i)]\<rparr>"
  have r1: "live_run toy_lib toy_mcp ?s1"
    using live_run.continues [OF live_run.begins live_step.waits [of toy_lib toy_ask "live_start toy_mcp" p srv]] w
    by (simp add: live_start_def)
  have total: "\<forall>rc. ml_receipt toy_lib rc \<noteq> None" by (simp add: toy_lib_def)
  obtain a srv2 where f: "finish toy_lib p srv = (a, srv2)" by (rule prod.exhaust)
  obtain body where a: "a = Inr body" using finish_rows(3) [OF f w(2) total] by blast
  let ?s2 = "?s1\<lparr>lv_server := srv2, lv_flight := Map.empty, lv_answers := [(0, True, Inr body)]\<rparr>"
  have r2: "live_run toy_lib toy_mcp ?s2"
    using live_run.continues [OF r1 live_step.resumes [of ?s1 0 p toy_lib a srv2]] f w(2) a
    by (simp add: live_start_def)
  have S: "r_sqlite (am_recall toy_mcp) = Some empty_store" "store_typed empty_store" "\<forall>b. length (ml_sha toy_lib b) = 32"
    by (simp_all add: toy_mcp_def with_sqlite_def store_typed_def empty_store_def toy_lib_def)
  obtain rc where "ml_receipt toy_lib rc = Some body" "(0, receipt_id rc) \<in> set (lv_inserted ?s2)"
    using acknowledged_is_stored [OF r2 S total] by auto
  moreover have "lv_answers ?s2 = [(0, True, Inr body)]" by simp
  ultimately show ?thesis using r2 by blast
qed

end
