(* ===== verification/CliMain.thy ===== *)
theory CliMain
  imports Cli
begin

text \<open>
  The program \<open>amore\<close>: \<open>main\<close> of \<open>crates/amore-cli/src/main.rs\<close>, from a parsed command to what it prints, its exit
  code and the state it leaves.  Every command works on its own part of the state, as modelled by the component that
  the command calls; where two parts are views of one disk (the directories of the diagnosis, of the erasure and of the
  snapshots) a command changes its own view only.  Progress lines and warnings on the error stream are left out.
\<close>

section \<open>Commands, surroundings and state\<close>

datatype update_action = UpdateCheck | UpdateApply

datatype command =
    CmdInit string bool
  | CmdServe
  | CmdRecall string nat
  | CmdStatus
  | CmdDoctor
  | CmdSnapshot snap_action
  | CmdSecrets secrets_action
  | CmdFlags bool
  | CmdUpdate update_action
  | CmdDiag "string option"
  | CmdDataErase bool

text \<open>What a run of the program meets: its environment, and what the things it calls answer.  \<open>su_flag_order\<close> is the
  iteration order of the names in a flag table.\<close>

record ('q, 'b) cli_world =
  su_version :: string
  su_env :: environ
  su_dirs :: home_dirs
  su_json :: "json codec"
  su_toml :: "toml codec"
  su_yaml :: "yaml codec"
  su_doctor :: doctor_world
  su_tools :: snapshot_tools
  su_rest :: "'q rest"
  su_typed :: "string + string"
  su_print :: "json \<Rightarrow> string"
  su_features :: "string set"
  su_flags_file :: "(string \<times> string) list option"
  su_flag_order :: "(string \<rightharpoonup> bool) \<Rightarrow> string list"
  su_fetch :: "string \<Rightarrow> string \<Rightarrow> string + string"
  su_newer :: "string \<Rightarrow> string \<Rightarrow> bool option"
  su_install :: "'b \<Rightarrow> string + 'b"
  su_stamp_ok :: bool
  su_now :: nat
  su_answer :: string
  su_sha256 :: "bytes \<Rightarrow> bytes"
  su_erase :: erase_faults
  su_diag :: "bool \<times> bool \<times> bool"
  su_dumps :: "dump_entry list option"
  su_crash_setup :: "bool \<times> bool"

text \<open>The state.  A diagnostic bundle is its entries, or \<^const>\<open>None\<close> when the archive is torn.\<close>

record ('q, 'b) cli_state =
  cs_handlers :: handlers
  cs_files :: file_system
  cs_secrets :: secret_store
  cs_snap :: "'q snap_world"
  cs_stamp :: "string option"
  cs_bin :: 'b
  cs_disk :: doctor_disk
  cs_machine :: machine
  cs_bundles :: "string \<rightharpoonup> (string \<times> string) list option"

text \<open>How a command ends: it returns, returns an error, or calls \<open>process::exit\<close>.\<close>

datatype cli_end = Done | Failed string | ExitWith nat

definition end_of :: "string + 'a \<Rightarrow> cli_end" where
  "end_of r = (case r of Inl e \<Rightarrow> Failed e | Inr _ \<Rightarrow> Done)"

definition println :: "string list \<Rightarrow> string" where
  "println ls = concat (map (\<lambda>l. l @ nl) ls)"

definition printed :: "string + string list \<Rightarrow> string" where
  "printed r = (case r of Inl _ \<Rightarrow> [] | Inr ls \<Rightarrow> println ls)"

section \<open>The commands\<close>

text \<open>The adapters as \<open>new\<close> makes them: no path given, and the command that the editors are to start.\<close>

definition default_adapters :: "('q, 'b) cli_world \<Rightarrow> ide_adapter list" where
  "default_adapters E =
     all_adapters (su_json E) (su_toml E) (su_yaml E) None (env_var ''CODEX_HOME'' (su_env E))
       (hd_home (su_dirs E)) (hd_config (su_dirs E)) ''amore-mcp''"

definition doctor_json :: "doctor_report \<Rightarrow> json" where
  "doctor_json R =
     JObj [(''version'', JStr (dr_version R)),
       (''checks'', JArr (map (\<lambda>c. JObj [(''name'', JStr (ck_name c)), (''verdict'', JStr (ck_verdict c)),
          (''detail'', JStr (ck_detail c))]) (dr_checks R))),
       (''all_pass'', JBool (all_pass R))]"

text \<open>What \<open>apply_update\<close> prints for the status of the check and the result of the application.\<close>

definition apply_output :: "update_status \<Rightarrow> string + apply_result \<Rightarrow> string" where
  "apply_output status r =
     (case status of
        Available v \<Rightarrow>
          ''A new version ('' @ v @ '') is available. Apply now? [y/N] ''
          @ (case r of
               Inr Skipped \<Rightarrow> println [''Update skipped.'']
             | Inr (apply_result.Updated w) \<Rightarrow> println [''Updated to v'' @ w @ ''. Restart amore to use the new version.'']
             | _ \<Rightarrow> [])
      | _ \<Rightarrow> println [''No update available.''])"

fun cmd_update ::
  "('q, 'b) cli_world \<Rightarrow> update_action \<Rightarrow> ('q, 'b) cli_state \<Rightarrow> string \<times> cli_end \<times> ('q, 'b) cli_state" where
  "cmd_update E UpdateCheck S =
     (case cmd_update_check (su_fetch E) (su_newer E) (su_version E) (su_stamp_ok E) (su_env E) (su_now E) (cs_stamp S) of
        (r, stamp) \<Rightarrow> (printed (map_sum (\<lambda>e. e) (\<lambda>l. [l]) r), end_of r, S\<lparr>cs_stamp := stamp\<rparr>))"
| "cmd_update E UpdateApply S =
     (case cmd_update_apply (su_fetch E) (su_newer E) (su_install E) (su_version E) (su_stamp_ok E) (su_env E) (su_now E)
         (su_answer E) (cs_stamp S, cs_bin S) of
        (r, stamp, bin) \<Rightarrow>
          (case check_for_update (su_fetch E) (su_newer E) (su_version E) (su_stamp_ok E) (su_env E) (su_now E) (cs_stamp S) of
             (Inl _, _) \<Rightarrow> []
           | (Inr status, _) \<Rightarrow> apply_output status r,
           end_of r, S\<lparr>cs_stamp := stamp, cs_bin := bin\<rparr>))"

text \<open>The archive is created before it is finished: a failure in between leaves it torn.\<close>

definition run_diag :: "('q, 'b) cli_world \<Rightarrow> string option \<Rightarrow> ('q, 'b) cli_state \<Rightarrow> string \<times> cli_end \<times> ('q, 'b) cli_state" where
  "run_diag E output S =
     (let (mkdir_ok, create_ok, finish_ok) = su_diag E;
          (r, entries) = cmd_diag mkdir_ok create_ok finish_ok (su_dumps E) output;
          path = bundle_path (case output of Some p \<Rightarrow> p | None \<Rightarrow> ''amore-diag.tar.gz'');
          bundles = (case r of
            Inr _ \<Rightarrow> (cs_bundles S)(path \<mapsto> Some entries)
          | Inl _ \<Rightarrow> if mkdir_ok \<and> create_ok then (cs_bundles S)(path \<mapsto> None) else cs_bundles S)
      in (printed (map_sum (\<lambda>e. e) (\<lambda>l. [l]) r), end_of r, S\<lparr>cs_bundles := bundles\<rparr>))"

text \<open>Standard output, the lines on the error stream, the end and the state.\<close>

fun run_command ::
  "('q, 'b) cli_world \<Rightarrow> command \<Rightarrow> ('q, 'b) cli_state \<Rightarrow> string \<times> string list \<times> cli_end \<times> ('q, 'b) cli_state" where
  "run_command E (CmdInit ide dry) S =
     (case cmd_init (default_adapters E) ide dry (cs_files S) of
        (Inl e, fs) \<Rightarrow> ([], [], Failed e, S\<lparr>cs_files := fs\<rparr>)
      | (Inr t, fs) \<Rightarrow> (if dry then t else t @ nl, [], Done, S\<lparr>cs_files := fs\<rparr>))"
| "run_command E CmdServe S = (printed cmd_serve, [], end_of cmd_serve, S)"
| "run_command E (CmdRecall query top_k) S = (printed (cmd_recall query top_k), [], end_of (cmd_recall query top_k), S)"
| "run_command E CmdStatus S = (println (cmd_status (su_version E) (su_env E)), [], Done, S)"
| "run_command E CmdDoctor S =
     (case cmd_doctor (su_version E) (su_doctor E) (su_env E) (su_dirs E) (cs_disk S) of
        (R, code, D) \<Rightarrow>
          (println [su_print E (doctor_json R)], [], if all_pass R then Done else ExitWith code, S\<lparr>cs_disk := D\<rparr>))"
| "run_command E (CmdSnapshot action) S =
     (case cmd_snapshot (su_tools E) (su_rest E) (su_env E) (su_dirs E) action (cs_snap S) of
        (r, W) \<Rightarrow> ([], [], end_of r, S\<lparr>cs_snap := W\<rparr>))"
| "run_command E (CmdSecrets action) S =
     (case cmd_secrets (parse (su_toml E)) (su_typed E) action (cs_secrets S) of
        (r, K) \<Rightarrow> (printed r, [], end_of r, S\<lparr>cs_secrets := K\<rparr>))"
| "run_command E (CmdFlags as_json) S =
     (let flags = load_flags (su_flags_file E) (su_env E) in
      (println (flags_run (su_print E) as_json (compile_time_features (su_features E))
         (list_flags (su_flag_order E flags) flags)), [], Done, S))"
| "run_command E (CmdUpdate action) S = (case cmd_update E action S of (out, r) \<Rightarrow> (out, [], r))"
| "run_command E (CmdDiag output) S = (case run_diag E output S of (out, r) \<Rightarrow> (out, [], r))"
| "run_command E (CmdDataErase confirm) S =
     (case run_data_erase (su_sha256 E) (su_erase E) confirm (su_env E) (su_dirs E) (cs_machine S) of
        (ls, r, M) \<Rightarrow>
          (if confirm then [] else println ls, if confirm then ls else [], end_of r, S\<lparr>cs_machine := M\<rparr>))"

text \<open>The crash handler is installed before anything else.  An error that \<open>main\<close> returns is printed and makes the exit
  code one.\<close>

definition cli_main ::
  "('q, 'b) cli_world \<Rightarrow> command \<Rightarrow> ('q, 'b) cli_state \<Rightarrow> string \<times> string list \<times> nat \<times> ('q, 'b) cli_state" where
  "cli_main E c S =
     (let (mkdir_ok, attach_ok) = su_crash_setup E;
          S = S\<lparr>cs_handlers := install_crash_handler (su_env E) mkdir_ok attach_ok (cs_handlers S)\<rparr>;
          (out, err, r, S') = run_command E c S
      in case r of
           Done \<Rightarrow> (out, err, 0, S')
         | Failed e \<Rightarrow> (out, err @ [''Error: '' @ e], 1, S')
         | ExitWith code \<Rightarrow> (out, err, code, S'))"

section \<open>What a command may change\<close>

text \<open>Commands that only report, and commands that change nothing when they fail.\<close>

fun reports :: "command \<Rightarrow> bool" where
  "reports (CmdInit ide dry) = dry"
| "reports (CmdSecrets (SecretGet n)) = True"
| "reports (CmdDataErase confirm) = (\<not> confirm)"
| "reports c = (case c of CmdServe \<Rightarrow> True | CmdRecall _ _ \<Rightarrow> True | CmdStatus \<Rightarrow> True | CmdFlags _ \<Rightarrow> True | _ \<Rightarrow> False)"

fun all_or_nothing :: "command \<Rightarrow> bool" where
  "all_or_nothing (CmdInit ide dry) = True"
| "all_or_nothing (CmdSecrets a) = True"
| "all_or_nothing (CmdUpdate a) = (a = UpdateCheck)"
| "all_or_nothing c = reports c"

text \<open>The state with the part of a command set back.\<close>

fun others :: "command \<Rightarrow> ('q, 'b) cli_state \<Rightarrow> ('q, 'b) cli_state \<Rightarrow> ('q, 'b) cli_state" where
  "others (CmdInit ide dry) S S' = S'\<lparr>cs_files := cs_files S\<rparr>"
| "others (CmdSecrets a) S S' = S'\<lparr>cs_secrets := cs_secrets S\<rparr>"
| "others (CmdSnapshot a) S S' = S'\<lparr>cs_snap := cs_snap S\<rparr>"
| "others (CmdUpdate a) S S' = S'\<lparr>cs_stamp := cs_stamp S, cs_bin := cs_bin S\<rparr>"
| "others CmdDoctor S S' = S'\<lparr>cs_disk := cs_disk S\<rparr>"
| "others (CmdDataErase b) S S' = S'\<lparr>cs_machine := cs_machine S\<rparr>"
| "others (CmdDiag p) S S' = S'\<lparr>cs_bundles := cs_bundles S\<rparr>"
| "others c S S' = S'"

lemma end_of_simps [simp]: "end_of (Inl e) = Failed e" "end_of (Inr x) = Done"
  by (simp_all add: end_of_def)

lemma end_of_cases [simp]: "end_of r \<noteq> ExitWith n" "ExitWith n \<noteq> end_of r"
  by (cases r; simp)+

lemma cmd_init_fails: "cmd_init adapters ide dry fs = (Inl e, fs') \<Longrightarrow> fs' = fs"
  by (auto simp: cmd_init_def apply_adapter_def Let_def split: option.splits sum.splits if_splits apply_outcome.splits prod.splits)

lemma cmd_init_dry: "cmd_init adapters ide True fs = (r, fs') \<Longrightarrow> fs' = fs"
  by (auto simp: cmd_init_def split: option.splits sum.splits if_splits)

lemma cmd_secrets_fails: "cmd_secrets p t a K = (Inl e, K') \<Longrightarrow> K' = K"
  by (cases a) (auto simp: set_password_def split: sum.splits if_splits prod.splits)

lemma cmd_secrets_get: "cmd_secrets p t (SecretGet n) K = (r, K') \<Longrightarrow> K' = K"
  by (auto split: sum.splits)

lemma check_fails: "check_for_update f g v w env now st = (Inl e, st') \<Longrightarrow> st' = st"
  by (auto simp: check_for_update_def Let_def split: if_splits sum.splits prod.splits)

lemma update_check_fails: "cmd_update_check f g v w env now st = (Inl e, st') \<Longrightarrow> st' = st"
  by (auto simp: cmd_update_check_def dest: check_fails split: sum.splits prod.splits)

lemma run_command_reports:
  assumes "reports c" and "run_command E c S = (out, err, r, S')"
  shows "S' = S"
  using assms
  by (cases "(E, c, S)" rule: run_command.cases)
    (auto simp: cmd_init_dry run_data_erase_def Let_def split: sum.splits prod.splits dest: cmd_init_dry cmd_secrets_get
      elim!: reports.elims)

lemma run_command_others:
  assumes "run_command E c S = (out, err, r, S')"
  shows "others c S S' = S"
  using assms
  by (cases "(E, c, S)" rule: run_command.cases; (cases "su_diag E")?)
    (auto simp: run_diag_def Let_def split: sum.splits prod.splits elim!: cmd_update.elims)

lemma run_command_fails:
  assumes "run_command E c S = (out, err, Failed e, S')" and "all_or_nothing c"
  shows "S' = S"
  using assms
  by (cases "(E, c, S)" rule: run_command.cases)
    (auto simp: end_of_def run_data_erase_def Let_def split: sum.splits prod.splits if_splits
      dest: cmd_init_fails cmd_secrets_fails update_check_fails)

lemma run_command_exit:
  assumes "run_command E c S = (out, err, ExitWith n, S')"
  shows "c = CmdDoctor \<and> n = 1"
  using assms
  by (cases "(E, c, S)" rule: run_command.cases)
    (auto simp: run_diag_def cmd_doctor_def Let_def split: sum.splits prod.splits if_splits elim!: cmd_update.elims)

text \<open>Registering twice: the second run of \<open>init\<close> finds the entry, says so and leaves every file.\<close>

lemma default_adapter_name:
  "find (\<lambda>a. adapter_name a = ide) (default_adapters E) = Some a \<Longrightarrow> adapter_name a = ide \<and> a \<in> set (default_adapters E)"
  by (auto simp: find_Some_iff)

lemma init_again:
  assumes codecs: "config_codec_ok (JObj []) nl (su_json E)" "config_codec_ok (TTable []) [] (su_toml E)" "yaml_codec_ok (su_yaml E)"
    and first: "run_command E (CmdInit ide False) S = (out, [], Done, S1)"
  shows "\<exists>path. run_command E (CmdInit ide False) S1 = (outcome_line ide path NoChange @ nl, [], Done, S1)"
proof -
  obtain a out' fs where a: "find (\<lambda>a. adapter_name a = ide) (default_adapters E) = Some a"
      "apply_adapter a (cs_files S) = Inr (out', fs)" "S1 = S\<lparr>cs_files := fs\<rparr>"
    using first by (auto simp: cmd_init_def split: option.splits sum.splits prod.splits apply_outcome.splits)
  have n: "adapter_name a = ide" and i: "a \<in> set (default_adapters E)" using default_adapter_name [OF a(1)] by auto
  from second_apply_of_all [OF codecs i [unfolded default_adapters_def] a(2)]
  have again: "apply_adapter a fs = Inr (NoChange, fs)" .
  then obtain path where p: "config_path a = Inr path" by (auto simp: apply_adapter_def split: sum.splits)
  show ?thesis using a(1,3) n again p by (auto simp: cmd_init_def)
qed

section \<open>Properties\<close>


text \<open>The storing of a secret that the user aborted, on an empty machine.\<close>

definition toy_cli_world :: "(bytes option, unit) cli_world" where
  "toy_cli_world = \<lparr>su_version = ''1'', su_env = [],
     su_dirs = \<lparr>hd_config = Some ''/c'', hd_data = None, hd_cache = None, hd_home = None, hd_local = None, on_windows = False\<rparr>,
     su_json = one_doc_codec (JObj []), su_toml = one_doc_codec (TTable []), su_yaml = one_doc_codec (YMap []), su_doctor = healthy, su_tools = toy_tools, su_rest = toy_rest,
     su_typed = Inl ''interrupted'', su_print = (\<lambda>_. []), su_features = {}, su_flags_file = None, su_flag_order = (\<lambda>_. []),
     su_fetch = (\<lambda>_ _. Inl ''offline''), su_newer = (\<lambda>_ _. None), su_install = Inr, su_stamp_ok = True, su_now = 0,
     su_answer = [], su_sha256 = (\<lambda>b. b), su_erase = quiet_system, su_diag = (True, True, True), su_dumps = None,
     su_crash_setup = (True, True)\<rparr>"

definition toy_cli_state :: "(bytes option, unit) cli_state" where
  "toy_cli_state = \<lparr>cs_handlers = \<lparr>panic_hooked = False, native_attached = False\<rparr>, cs_files = Map.empty,
     cs_secrets = \<lparr>ss_ring = Map.empty, ss_entry_ok = (\<lambda>_. True), ss_backend = True, ss_config_dir = None, ss_file = (\<lambda>_. None)\<rparr>,
     cs_snap = \<lparr>sw_q = None, sw_dbs = Map.empty, sw_staging = Map.empty, sw_out = Map.empty, sw_tmp = Map.empty\<rparr>,
     cs_stamp = None, cs_bin = (), cs_disk = \<lparr>dd_dirs = {}, dd_files = {}\<rparr>,
     cs_machine = \<lparr>m_files = {}, m_dirs = {}, m_keyring = {}, m_registry = {}\<rparr>, cs_bundles = Map.empty\<rparr>"


end
