(* ===== verification/Launcher.thy ===== *)
theory Launcher
  imports DataErase
begin

text \<open>
  The launcher, \<open>crates/amore-launcher/src-tauri/src/main.rs\<close>, and the build script of the server,
  \<open>crates/amore-mcp/build.rs\<close>.  Tauri, its shell plugin and the protobuf compiler are parameters.
\<close>

section \<open>The launcher\<close>

text \<open>The URLs that were handed to the system so far.\<close>

record launcher =
  la_catalogue :: string
  la_opened :: "string list"

definition get_products :: "launcher \<Rightarrow> string" where
  "get_products L = la_catalogue L"

text \<open>\<open>shell_open\<close>: what the shell plugin answers for a URL.\<close>

definition open_install_url :: "(string \<Rightarrow> string + unit) \<Rightarrow> string \<Rightarrow> launcher \<Rightarrow> (string + unit) \<times> launcher" where
  "open_install_url shell_open url L =
     (case shell_open url of
        Inl e \<Rightarrow> (Inl (''Failed to open URL: '' @ e), L)
      | Inr _ \<Rightarrow> (Inr (), L\<lparr>la_opened := la_opened L @ [url]\<rparr>))"

text \<open>The handlers the program registers.  A reply is a text, or nothing for \<open>open_install_url\<close>; any other command
  is refused by Tauri.\<close>

datatype launcher_command = GetProducts | OpenInstallUrl string | OtherCommand string

fun launcher_invoke ::
  "(string \<Rightarrow> string + unit) \<Rightarrow> launcher_command \<Rightarrow> launcher \<Rightarrow> (string + string option) \<times> launcher" where
  "launcher_invoke shell_open GetProducts L = (Inr (Some (get_products L)), L)"
| "launcher_invoke shell_open (OpenInstallUrl url) L =
     (case open_install_url shell_open url L of
        (Inl e, L') \<Rightarrow> (Inl e, L')
      | (Inr _, L') \<Rightarrow> (Inr None, L'))"
| "launcher_invoke shell_open (OtherCommand name) L = (Inl (''Command '' @ name @ '' not found''), L)"

fun launcher_run ::
  "(string \<Rightarrow> string + unit) \<Rightarrow> launcher_command list \<Rightarrow> launcher \<Rightarrow> (string + string option) list \<times> launcher" where
  "launcher_run shell_open [] L = ([], L)"
| "launcher_run shell_open (c # cs) L =
     (case launcher_invoke shell_open c L of
        (r, L') \<Rightarrow> (case launcher_run shell_open cs L' of (rs, L'') \<Rightarrow> (r # rs, L'')))"

definition requested_urls :: "launcher_command list \<Rightarrow> string list" where
  "requested_urls cs = List.map_filter (\<lambda>c. case c of OpenInstallUrl u \<Rightarrow> Some u | _ \<Rightarrow> None) cs"

text \<open>Whatever the page asks for, the catalogue stays the embedded one, and the system is handed the requested URLs
  that the shell plugin accepts, in order, without any filter of the launcher's own.\<close>

lemma launcher_run_effect:
  "launcher_run shell_open cs L = (rs, L') \<Longrightarrow>
    la_catalogue L' = la_catalogue L \<and> length rs = length cs
    \<and> la_opened L' = la_opened L @ filter (\<lambda>u. shell_open u = Inr ()) (requested_urls cs)
    \<and> (\<forall>i < length cs. cs ! i = GetProducts \<longrightarrow> rs ! i = Inr (Some (la_catalogue L)))"
proof (induction cs arbitrary: L rs)
  case (Cons c cs)
  obtain r L1 where i: "launcher_invoke shell_open c L = (r, L1)" by fastforce
  obtain rs1 where t: "launcher_run shell_open cs L1 = (rs1, L')" "rs = r # rs1"
    using Cons.prems i by (auto split: prod.splits)
  have s: "la_catalogue L1 = la_catalogue L"
      "la_opened L1 = la_opened L @ filter (\<lambda>u. shell_open u = Inr ()) (requested_urls [c])"
      "c = GetProducts \<Longrightarrow> r = Inr (Some (la_catalogue L))"
    using i by (cases c; auto simp: open_install_url_def get_products_def requested_urls_def List.map_filter_simps
        split: sum.splits)+
  have q: "requested_urls (c # cs) = requested_urls [c] @ requested_urls cs"
    by (simp add: requested_urls_def List.map_filter_simps split: option.split)
  show ?case
    unfolding q t(2) using Cons.IH [OF t(1)] s by (auto simp: nth_Cons split: nat.split)
qed (simp add: requested_urls_def List.map_filter_simps)

section \<open>The build script\<close>

definition local_proto :: "string \<Rightarrow> string" where
  "local_proto manifest = sub (sub manifest ''proto'') ''amore.proto''"

definition workspace_proto :: "string \<Rightarrow> string" where
  "workspace_proto manifest = sub (sub (sub (sub manifest ''..'') ''..'') ''proto'') ''amore.proto''"

definition proto_path :: "(string \<Rightarrow> bool) \<Rightarrow> string \<Rightarrow> string + string" where
  "proto_path exists manifest =
     (if exists (local_proto manifest) then Inr (local_proto manifest)
      else if exists (workspace_proto manifest) then Inr (workspace_proto manifest)
      else Inl (''amore.proto not found at '' @ local_proto manifest @ '' or '' @ workspace_proto manifest))"

text \<open>\<open>Path::parent\<close> of a path with a separator.\<close>

definition path_parent :: "string \<Rightarrow> string option" where
  "path_parent p =
     (if CHR ''/'' \<in> set p then Some (rev (tl (dropWhile (\<lambda>c. c \<noteq> CHR ''/'') (rev p)))) else None)"

text \<open>\<open>compile\<close>: the code generator, for a file and its directory.  The result are the lines for Cargo.\<close>

definition build_main ::
  "(string \<Rightarrow> bool) \<Rightarrow> (string \<Rightarrow> string \<Rightarrow> string + unit) \<Rightarrow> environ \<Rightarrow> string + string list" where
  "build_main exists compile env =
     (case env_var ''CARGO_MANIFEST_DIR'' env of
        None \<Rightarrow> Inl ''environment variable not found''
      | Some manifest \<Rightarrow>
          (case proto_path exists manifest of
             Inl e \<Rightarrow> Inl e
           | Inr path \<Rightarrow>
               (case path_parent path of
                  None \<Rightarrow> Inl ''proto dir not found''
                | Some dir \<Rightarrow>
                    (case compile path dir of
                       Inl e \<Rightarrow> Inl e
                     | Inr _ \<Rightarrow> Inr [''cargo:rerun-if-changed='' @ path]))))"

lemma path_parent_sub: "CHR ''/'' \<notin> set x \<Longrightarrow> path_parent (sub d x) = Some d"
proof -
  assume x: "CHR ''/'' \<notin> set x"
  have "dropWhile (\<lambda>c. c \<noteq> CHR ''/'') (rev (sub d x)) = CHR ''/'' # rev d"
    using x by (subst sub_def) (auto simp: dropWhile_append3 dropWhile_append1)
  then show ?thesis by (simp add: path_parent_def sub_def)
qed

text \<open>The script succeeds exactly when one of the two files exists and compiles; the packaged copy wins over the one
  of the workspace, and the file is compiled in its own directory.\<close>

lemma build_main_compiles:
  "build_main exists compile env = Inr out \<longleftrightarrow>
    (\<exists>manifest dir. env_var ''CARGO_MANIFEST_DIR'' env = Some manifest
      \<and> (if exists (local_proto manifest) then dir = sub manifest ''proto''
         else exists (workspace_proto manifest) \<and> dir = sub (sub (sub manifest ''..'') ''..'') ''proto'')
      \<and> compile (sub dir ''amore.proto'') dir = Inr ()
      \<and> out = [''cargo:rerun-if-changed='' @ sub dir ''amore.proto''])"
  by (auto simp: build_main_def proto_path_def local_proto_def workspace_proto_def path_parent_sub
      split: option.splits sum.splits)

end
