(* ===== verification/Fuzz.thy ===== *)
theory Fuzz
  imports Wal Provenance IdeAdapter
begin

text \<open>
  The fuzz targets of \<open>crates/amore-core/fuzz/fuzz_targets\<close>: what a run does with the bytes of the fuzzer, over the
  modelled log, provenance chain and configuration merge.  The targets look only for panics; here their results are
  values, and the lemmas say what every input leads to.  UTF-8 decoding, SHA-256, HMAC and \<open>serde_json\<close> are
  parameters.
\<close>

section \<open>Replay of the log\<close>

text \<open>The first byte selects the kind, the rest is the payload; \<open>lossy\<close> is \<open>from_utf8_lossy\<close>.\<close>

definition fuzz_kind :: "char \<Rightarrow> wal_kind" where
  "fuzz_kind b = (if even (of_char b :: nat) then Upsert else Delete)"

definition fuzz_record :: "(bytes \<Rightarrow> string) \<Rightarrow> char \<Rightarrow> bytes \<Rightarrow> wal_record" where
  "fuzz_record lossy b raw =
     \<lparr>kind = fuzz_kind b, doc_id = 42, payload_json = lossy raw, ts_utc = 1748000000\<rparr>"

definition fuzz_write_key :: bytes where "fuzz_write_key = replicate 32 (CHR 0xDE)"
definition fuzz_read_key :: bytes where "fuzz_read_key = replicate 32 (CHR 0xAB)"

definition fuzz_tmp :: "nat \<Rightarrow> string" where "fuzz_tmp nanos = ''amore-fuzz-wal-'' @ dec_nat nanos"

text \<open>The databases under the temporary directory by name; \<open>can_write\<close> and \<open>can_read\<close>: whether sled opens the
  database the first and the second time.  The result are the items that the iteration yields.\<close>

definition fuzz_wal_replay ::
  "'v wal_codec \<Rightarrow> (bytes \<Rightarrow> string) \<Rightarrow> io_fault \<Rightarrow> bool \<Rightarrow> bool \<Rightarrow> nat \<Rightarrow> bytes \<Rightarrow> (string \<rightharpoonup> (string, 'v) kv)
    \<Rightarrow> (string + u64 \<times> wal_record) list \<times> (string \<rightharpoonup> (string, 'v) kv)" where
  "fuzz_wal_replay X lossy io can_write can_read nanos data dbs =
     (case data of
        [] \<Rightarrow> ([], dbs)
      | b # payload_raw \<Rightarrow>
          (let tmp = fuzz_tmp nanos in
           if \<not> can_write then ([], dbs)
           else
             let wal_write = open_with_key (case dbs tmp of Some db \<Rightarrow> db | None \<Rightarrow> []) fuzz_write_key;
                 (_, written) = wal_append X io (fuzz_record lossy b payload_raw) wal_write;
                 items = (if can_read then iter_from X (open_with_key (wal_db written) fuzz_read_key) 0 else [])
             in (items, dbs(tmp := None))))"

section \<open>Canonical JSON\<close>

text \<open>\<open>None\<close>: the target stopped before \<open>verify\<close>.\<close>

definition fuzz_canonical_json ::
  "(bytes \<Rightarrow> string option) \<Rightarrow> (string \<Rightarrow> json option) \<Rightarrow> (bytes \<Rightarrow> bytes) \<Rightarrow> (json \<Rightarrow> string option) \<Rightarrow> nat \<Rightarrow> bytes
    \<Rightarrow> bool option" where
  "fuzz_canonical_json utf8 parse_json sha256 to_canonical nanos data =
     (case utf8 data of
        None \<Rightarrow> None
      | Some s \<Rightarrow>
          (case parse_json s of
             None \<Rightarrow> None
           | Some payload \<Rightarrow>
               (case seal sha256 to_canonical nanos GENESIS_PREV_HASH payload of
                  Inl _ \<Rightarrow> None
                | Inr e \<Rightarrow> Some (verify sha256 e))))"

section \<open>Configuration files\<close>

definition fuzz_mcp_protocol :: "(bytes \<Rightarrow> string option) \<Rightarrow> json codec \<Rightarrow> bytes \<Rightarrow> (string + string) option" where
  "fuzz_mcp_protocol utf8 c data =
     map_option (\<lambda>s. merge_mcp_servers c s ''amore'' (mcp_entry ''amore-mcp'')) (utf8 data)"

section \<open>What the targets find\<close>

lemma fuzz_keys_differ: "fuzz_write_key \<noteq> fuzz_read_key"
  by (simp add: fuzz_write_key_def fuzz_read_key_def)

lemma wal_item_foreign_key:
  "deser X v = Some (seal_envelope X key r) \<Longrightarrow>
    wal_item X key' (rec_key s, v) = (if compute_tag X key r = compute_tag X key' r then Some (Inr (s, r)) else None)"
  by (auto simp: wal_item_def seal_envelope_def hex_encode_inject)

text \<open>A run on a fresh directory leaves the directories as they were.  Its iteration yields no error and at most
  the record: nothing when the record was too large or not written, and otherwise the record exactly when both
  keys give it the same tag.  (With a keyed hash they do not, so that what was written under another key is dropped
  without a word.)\<close>

lemma fuzz_wal_replay_outcome:
  assumes "serde_ok X" and "dbs (fuzz_tmp nanos) = None"
  shows "fuzz_wal_replay X lossy io can_write can_read nanos data dbs =
    (case data of
       [] \<Rightarrow> []
     | b # raw \<Rightarrow>
         if can_write \<and> can_read \<and> io \<noteq> InsertFails \<and> length (lossy raw) \<le> MAX_WAL_PAYLOAD_BYTES
            \<and> compute_tag X fuzz_write_key (fuzz_record lossy b raw) = compute_tag X fuzz_read_key (fuzz_record lossy b raw)
         then [Inr (1, fuzz_record lossy b raw)] else [],
     dbs)"
proof (cases data)
  case (Cons b raw)
  let ?r = "fuzz_record lossy b raw" and ?e = "seal_envelope X fuzz_write_key (fuzz_record lossy b raw)"
  obtain v where v: "ser X ?e = Some v" "deser X v = Some ?e"
    using assms(1) by (auto simp: serde_ok_def)
  have d: "dbs(fuzz_tmp nanos := None) = dbs" using assms(2) by (simp add: fun_upd_idem)
  have w: "open_with_key ([] :: (string, 'a) kv) k = \<lparr>wal_db = [], wal_seq = 1, machine_key = k\<rparr>" for k
    by (simp add: open_with_key_def kv_last_prefix_def)
  have i: "iter_from X (open_with_key [(rec_key 1, v)] fuzz_read_key) 0
      = (if compute_tag X fuzz_write_key ?r = compute_tag X fuzz_read_key ?r then [Inr (1, ?r)] else [])"
    using wal_item_foreign_key [OF v(2), of fuzz_read_key 1]
    by (simp add: iter_from_def kv_range_from_def rec_key_le open_with_key_def Let_def List.map_filter_simps)
  have n: "iter_from X (open_with_key [] fuzz_read_key) 0 = []"
    by (simp add: iter_from_def kv_range_from_def List.map_filter_simps w)
  have l: "payload_json ?r = lossy raw" by (simp add: fuzz_record_def)
  show ?thesis
    using v(1) i n d
    by (auto simp: Cons fuzz_wal_replay_def Let_def assms(2) wal_append_def w l split: io_fault.splits)
qed (simp add: fuzz_wal_replay_def)

text \<open>Where the target reaches \<open>verify\<close> it is true, and the envelope is a chain by itself.\<close>

lemma fuzz_canonical_json_verifies:
  "fuzz_canonical_json utf8 parse_json sha256 to_canonical nanos data \<noteq> Some False"
  by (auto simp: fuzz_canonical_json_def seal_def verify_def Let_def split: option.splits sum.splits)

text \<open>Every text that comes out of the merge goes through it unchanged, and has the entry: a fuzzed file is
  repaired in one step or refused.\<close>

lemma fuzz_mcp_protocol_stable:
  assumes "config_codec_ok (JObj []) nl c" and "fuzz_mcp_protocol utf8 c data = Some (Inr t)" and "utf8 data' = Some t"
  shows "fuzz_mcp_protocol utf8 c data' = Some (Inr t)"
  using assms merge_mcp_servers_idem [OF assms(1)] by (auto simp: fuzz_mcp_protocol_def)

end
