(* ===== verification/Spec2Isabelle.thy ===== *)
theory Spec2Isabelle
  imports Wal WalConcurrent SqliteStore Compaction CircuitBreaker Porter1 StreamingIngest Cache Recall Docs Ensemble Mining
    IdeAdapter WorldModel McpServer DataErase Update Snapshot Register TantivyIndex Reranker
    Calendar Benchmark LongMemEval Adversarial TokenReduction SeedCorpus Diag Cli
    GuiWire Wizard Tray Installer I18n RegisterCli Lifecycle StoreTypes Session CliMain Launcher Fuzz
begin

text \<open>
  A verification development for Amore, the local memory service for coding agents (Rust, \<open>src/crates\<close>).

  The program.  Agents hand observations to the service and ask for them back.  An observation is sealed into a
  chain of hashes and stored in SQLite with a full-text index; its embedding, computed by Ollama, goes to Qdrant.
  A recall asks both lanes and fuses their rankings.  Around this core stand a write-ahead log with a streaming
  consumer, a compaction worker, a recall cache, a circuit breaker around Qdrant, a router for canonical documents,
  a voting ensemble and a miner of adversarial examples, a world model in SQLite, snapshots, erasure, and crash
  diagnostics.  The server (\<open>amore-mcp\<close>) offers the core to agents as tools, the command line (\<open>amore-cli\<close>) and
  the desktop program (\<open>amore-gui\<close>) set it up and register it with the editors, and \<open>amore-eval\<close> measures it.

  Theories and what they model (paths below \<open>src/crates\<close>).
  \<^item> \<open>Prelude\<close>, \<open>Json\<close>, \<open>KvStore\<close>, \<open>Float32\<close>, \<open>Calendar\<close>: byte strings and the string API of Rust, JSON values, the
    ordered key-value store (sled), rounding of f32 and f64, dates from epoch days.
  \<^item> \<open>Wal\<close> (\<open>amore-core/src/wal.rs\<close>), \<open>Provenance\<close> (\<open>provenance.rs\<close>), \<open>SqliteStore\<close> (\<open>sqlite_store.rs\<close>,
    \<open>sqlite_compaction.rs\<close>), \<open>Compaction\<close>, \<open>CircuitBreaker\<close>, \<open>QdrantStore\<close>, \<open>Config\<close> (\<open>timeout.rs\<close>, \<open>flags.rs\<close>,
    \<open>qdrant_pool.rs\<close>, \<open>http.rs\<close>, \<open>ollama.rs\<close>), \<open>StreamingIngest\<close>, \<open>Cache\<close>, \<open>Recall\<close>, \<open>Docs\<close>, \<open>Ensemble\<close>, \<open>Mining\<close>,
    \<open>WorldModel\<close>, \<open>TantivyIndex\<close>, \<open>Porter1\<close>, \<open>Reranker\<close>, \<open>Diag\<close>: the files of \<open>amore-core\<close> of the same names.
    \<open>WalConcurrent\<close>: the log shared by threads, in any interleaving of their steps.
    \<open>StoreTypes\<close>: the types of the store's columns under insertions and compaction passes in any order.
  \<^item> \<open>IdeAdapter\<close>: \<open>amore-core/src/ide_adapter.rs\<close> and the seven crates \<open>amore-adapter-*\<close>.
  \<^item> \<open>McpServer\<close>, \<open>Session\<close>, \<open>Register\<close>, \<open>RegisterCli\<close>, \<open>Lifecycle\<close>: \<open>amore-mcp\<close>; the tools, limits and
    start-up, the requests that a serving server handles side by side, the registration flags, and the life of the
    process from its flags to its exit.
  \<^item> \<open>DataErase\<close>, \<open>Update\<close>, \<open>Snapshot\<close>, \<open>Cli\<close>, \<open>CliMain\<close>: \<open>amore-cli\<close>, from the commands to \<open>main\<close> and its exit code.
  \<^item> \<open>GuiWire\<close>, \<open>Wizard\<close>, \<open>Tray\<close>, \<open>Installer\<close>: \<open>amore-gui\<close>; \<open>I18n\<close>: \<open>amore-i18n\<close>.
  \<^item> \<open>Benchmark\<close>, \<open>LongMemEval\<close>, \<open>Adversarial\<close>, \<open>TokenReduction\<close>, \<open>SeedCorpus\<close>: the programs of \<open>amore-eval\<close>.
  \<^item> \<open>Launcher\<close>: \<open>amore-launcher/src-tauri\<close> and the build script \<open>amore-mcp/build.rs\<close>; \<open>Fuzz\<close>: the fuzz targets
    \<open>amore-core/fuzz\<close>, as runs over the log, the provenance chain and the merge.

  How it is modelled.  A struct is a record, an enum a datatype, an operation a function on the explicit state, with
  every error and panic a value; a component that is interleaved with others or can be cut off (the log and its
  consumer, the breaker, the requests of the server, atomic writes of files, the wizard and its threads) is a list or an inductive relation of
  steps.  Machine integers keep their width where they can wrap.  What is not in the repository is a parameter:
  SHA-256, HMAC, the JSON, YAML, TOML and Fluent libraries (codecs; where a property needs it, with the hypothesis
  that they read back what they print), Ollama and Qdrant (functions from requests to answers, which may fail),
  the tokenizers and models, the clock, the file system's failures, and the spawned commands.

  What the lemmas show.
  \<^item> Storage: recovery of the log refines the list of records appended and not acknowledged; no appended record is
    lost under interleaving and crashes; the stored chain verifies and its head determines it; compaction keeps the
    full-text index in step; the cache refines a map; a snapshot restores what it saved.
  \<^item> Retrieval: the fused ranking is sorted by the sum of the reciprocal ranks; a search reports the lane it lost;
    the stemmer never indexes out of bounds; limits hold for every request.
  \<^item> Robustness: invariants of the breaker, majorities of the ensemble, outcomes of ingest, the token bucket.
  \<^item> Configuration files of other programs: the merges change nothing but the entry and are idempotent; the writes
    cut anywhere leave the old or the new text or a backup; an insecure installation wires nothing; the wizard
    reaches its end only after a successful run.
  \<^item> Processes: exit codes and what is printed; only a verified installer runs; the evaluation programs' loops
    end, and their verdicts follow from what they measured.
  Some properties state a flaw: a statement of what the code does that its documentation does not say.

  Bounds and fuel.  Loops are structural recursion or have a measure; where the code retries or polls, the number
  of rounds is the code's own (three renames, thirty probes).  A trace of attempts, reads or polls is a list or a
  function on natural numbers given from outside, and the theorems hold for every one.

  Idealisations.  f32 and f64 are rationals rounded after each operation, without infinities and NaN; preferences
  of the world model and the token bucket are exact rationals.  Character classes and case are those of ASCII.  JSON
  objects are association lists; \<open>serde_json\<close> keeps them ordered by key.  A directory is a path without a
  trailing separator.  The commands of the command line have separate views of the disk, and \<open>main\<close> does not relate
  them.  A step of a wiring thread is the wiring of one tool, and a frame of the wizard one action.
  Logging has no effect unless it is what a function is for.

  Not modelled.  The JSON-RPC and gRPC transports, the argument parser, egui, Tauri and the exporters, which are
  third-party, and what only hands constants to them (schemas of arguments, window options, capabilities); the
  \<open>icacls\<close> calls of the Windows builds, of which only the judgement of the output is; the progress lines of the command
  line; tests.
\<close>

end
